(* ===== verification/Prelude.thy ===== *)
theory Prelude
  imports Main "HOL-Library.Word" "HOL-Library.Signed_Division" "HOL-Library.Sublist"
begin

text \<open>
  Shared vocabulary of the development: the machine integers and byte strings of the
  program, the ways an operation can fail to return, the fact collections the component
  theories fill, and the generic lemmas on lists and maps they use.

  A Go \<open>string\<close> or \<open>[]byte\<close> is a list of bytes, which is what the HOL type
  \<open>string\<close> (a list of 8-bit characters) is. \<open>int64\<close> and \<open>uint64\<close> are 64-bit words;
  Go's \<open>int\<close> is kept as \<open>int\<close> where it is only copied and compared (status codes,
  packet counts) and as a 64-bit word where it is added to.
\<close>

type_synonym bytes = string
type_synonym int64 = "64 word"
type_synonym uint64 = "64 word"
type_synonym uint32 = "32 word"
type_synonym uint16 = "16 word"

text \<open>
  A panic (or a fatal log line, which exits the process) ends the operation without a
  result; such operations return \<open>panic + result\<close>.
\<close>

datatype panic = NilDereference | LogPanic string | LogFatal string | RuntimePanic string

text \<open>
  Fact collections. \<open>std_simps\<close>: equations of the standard-library models;
  \<open>frame_simps\<close>: what an operation leaves unchanged; \<open>inv_intros\<close>: preservation of
  a component's invariant.
\<close>

named_theorems std_simps
named_theorems frame_simps
named_theorems inv_intros

section \<open>Lists\<close>

lemma filter_neq_id [simp]: "k \<notin> set xs \<Longrightarrow> filter (\<lambda>x. x \<noteq> k) xs = xs"
  by (induction xs) auto

lemma snoc_cases_nth: "i < length (xs @ [x]) \<Longrightarrow> i < length xs \<or> i = length xs"
  by auto

lemma prefix_append_same [simp]: "prefix (xs @ ys) (xs @ zs) = prefix ys zs"
  by simp

lemma append_eq_same_length:
  "xs @ ys = xs' @ ys' \<Longrightarrow> length xs = length xs' \<Longrightarrow> xs = xs' \<and> ys = ys'"
  by simp

text \<open>
  The part of a string behind its last separator is determined by the string. Used for
  identifiers that end in a separator and a number.
\<close>

lemma first_segment_unique:
  "xs @ c # ys = xs' @ c # ys' \<Longrightarrow> c \<notin> set xs \<Longrightarrow> c \<notin> set xs' \<Longrightarrow> xs = xs' \<and> ys = ys'"
proof (induction xs arbitrary: xs')
  case Nil
  then show ?case by (cases xs') auto
next
  case (Cons x xs)
  then show ?case by (cases xs') auto
qed

lemma last_segment_unique:
  assumes "xs @ c # ys = xs' @ c # ys'" and "c \<notin> set ys" and "c \<notin> set ys'"
  shows "xs = xs' \<and> ys = ys'"
proof -
  have "rev ys @ c # rev xs = rev ys' @ c # rev xs'"
    using arg_cong [OF assms(1), of rev] by simp
  then have "rev ys = rev ys' \<and> rev xs = rev xs'"
    using assms(2,3) by (intro first_segment_unique) simp_all
  then show ?thesis by simp
qed

section \<open>Maps\<close>

text \<open>
  A Go map is a partial function. Where the program ranges over a map the iteration order
  is not specified by the language; the model takes the order as an argument, a list that
  enumerates the domain.
\<close>

definition enumerates :: "'k list \<Rightarrow> ('k \<rightharpoonup> 'v) \<Rightarrow> bool" where
  "enumerates ks m \<longleftrightarrow> distinct ks \<and> set ks = dom m"

lemma enumerates_empty [simp]: "enumerates ks Map.empty \<longleftrightarrow> ks = []"
  by (auto simp: enumerates_def)

lemma enumerates_SomeD: "enumerates ks m \<Longrightarrow> k \<in> set ks \<Longrightarrow> \<exists>v. m k = Some v"
  by (auto simp: enumerates_def)

text \<open>
  The pairs a range over a map visits in a given order (a range only ever visits keys the map
  has), and the map a sequence of writes leaves behind.
\<close>

definition pairs_in :: "('k \<rightharpoonup> 'v) \<Rightarrow> 'k list \<Rightarrow> ('k \<times> 'v) list" where
  "pairs_in m ks = map (\<lambda>k. (k, the (m k))) (filter (\<lambda>k. m k \<noteq> None) ks)"

definition write_all :: "('k \<rightharpoonup> 'v) \<Rightarrow> ('k \<times> 'v) list \<Rightarrow> ('k \<rightharpoonup> 'v)" where
  "write_all m ps = foldl (\<lambda>m p. m(fst p \<mapsto> snd p)) m ps"

lemma write_all_Nil [simp]: "write_all m [] = m"
  by (simp add: write_all_def)

lemma write_all_Cons [simp]: "write_all m (p # ps) = write_all (m(fst p \<mapsto> snd p)) ps"
  by (simp add: write_all_def)

lemma write_all_append [simp]: "write_all m (ps @ qs) = write_all (write_all m ps) qs"
  by (simp add: write_all_def)

lemma write_all_map_of: "write_all m ps = m ++ map_of (rev ps)"
  by (induction ps arbitrary: m) (auto simp: map_add_def fun_eq_iff split: option.splits)

lemma write_all_other: "k \<notin> fst ` set ps \<Longrightarrow> write_all m ps k = m k"
  by (induction ps arbitrary: m) auto

lemma dom_write_all: "dom (write_all m ps) = dom m \<union> fst ` set ps"
  by (induction ps arbitrary: m) auto

lemma write_all_distinct:
  "distinct (map fst ps) \<Longrightarrow> (k, v) \<in> set ps \<Longrightarrow> write_all m ps k = Some v"
proof (induction ps arbitrary: m)
  case Nil
  then show ?case by simp
next
  case (Cons p ps)
  then show ?case
    by (cases "p = (k, v)") (auto simp: write_all_other)
qed

lemma write_all_in_range: "write_all m ps k = Some v \<Longrightarrow> m k = Some v \<or> (k, v) \<in> set ps"
  by (induction ps arbitrary: m) (fastforce split: if_splits)+

lemma map_fst_pairs_in: "map fst (pairs_in m ks) = filter (\<lambda>k. m k \<noteq> None) ks"
  by (induction ks) (auto simp: pairs_in_def)

lemma distinct_pairs_in: "distinct ks \<Longrightarrow> distinct (map fst (pairs_in m ks))"
  by (simp add: map_fst_pairs_in)

lemma pairs_in_sound: "(k, v) \<in> set (pairs_in m ks) \<Longrightarrow> m k = Some v"
  by (auto simp: pairs_in_def)

lemma set_pairs_in: "enumerates ks m \<Longrightarrow> set (pairs_in m ks) = {(k, v). m k = Some v}"
  by (force simp: enumerates_def pairs_in_def)

text \<open>Writing a whole map over another gives the override of the two, in any order.\<close>

lemma write_all_pairs_in:
  assumes "enumerates ks n"
  shows "write_all m (pairs_in n ks) = m ++ n"
proof
  fix k
  show "write_all m (pairs_in n ks) k = (m ++ n) k"
  proof (cases "n k")
    case None
    then have "k \<notin> fst ` set (pairs_in n ks)"
      using assms by (auto simp: set_pairs_in)
    with None show ?thesis by (simp add: write_all_other map_add_def)
  next
    case (Some v)
    then have "(k, v) \<in> set (pairs_in n ks)" using assms by (simp add: set_pairs_in)
    moreover have "distinct (map fst (pairs_in n ks))"
      using assms by (simp add: enumerates_def distinct_pairs_in)
    ultimately show ?thesis using Some by (simp add: write_all_distinct)
  qed
qed

end
