(* ===== verification/Go_Std.thy ===== *)
theory Go_Std
  imports Prelude
begin

text \<open>
  The parts of Go's standard library the program computes with: \<open>strings\<close> (\<open>Split\<close>,
  \<open>Join\<close>, \<open>Repeat\<close>, \<open>Replace\<close>, \<open>ToLower\<close>), \<open>strconv.ParseBool\<close>,
  \<open>hex.EncodeToString\<close>, the decimal formatting of \<open>%d\<close>, the header canonicalisation of
  \<open>net/textproto\<close> behind \<open>http.Header\<close>, and \<open>time.Time\<close> with \<open>Sub\<close> and
  \<open>Milliseconds\<close>. They are functions of the Go 1.21 library, restricted to the argument
  shapes the program uses.
\<close>

section \<open>Package strings\<close>

text \<open>\<open>strings.Split(s, sep)\<close> for a separator of one byte: never the empty slice.\<close>

fun split_on :: "char \<Rightarrow> string \<Rightarrow> string list" where
  "split_on c [] = [[]]"
| "split_on c (x # xs) =
     (if x = c then [] # split_on c xs
      else (case split_on c xs of [] \<Rightarrow> [[x]] | p # ps \<Rightarrow> (x # p) # ps))"

fun join :: "string \<Rightarrow> string list \<Rightarrow> string" where
  "join sep [] = []"
| "join sep [x] = x"
| "join sep (x # y # ys) = x @ sep @ join sep (y # ys)"

definition repeat_str :: "string \<Rightarrow> nat \<Rightarrow> string" where
  "repeat_str s n = concat (replicate n s)"

text \<open>\<open>strings.Replace(s, old, new, -1)\<close> for one-byte \<open>old\<close> and \<open>new\<close>.\<close>

definition replace_byte :: "char \<Rightarrow> char \<Rightarrow> string \<Rightarrow> string" where
  "replace_byte a b s = map (\<lambda>c. if c = a then b else c) s"

definition byte_val :: "char \<Rightarrow> nat" where
  "byte_val c = of_char c"

definition is_ascii :: "char \<Rightarrow> bool" where
  "is_ascii c \<longleftrightarrow> byte_val c < 128"

definition is_lower :: "char \<Rightarrow> bool" where
  "is_lower c \<longleftrightarrow> 97 \<le> byte_val c \<and> byte_val c \<le> 122"

definition is_upper :: "char \<Rightarrow> bool" where
  "is_upper c \<longleftrightarrow> 65 \<le> byte_val c \<and> byte_val c \<le> 90"

definition is_digit :: "char \<Rightarrow> bool" where
  "is_digit c \<longleftrightarrow> 48 \<le> byte_val c \<and> byte_val c \<le> 57"

definition lower_byte :: "char \<Rightarrow> char" where
  "lower_byte c = (if is_upper c then char_of (byte_val c + 32) else c)"

definition upper_byte :: "char \<Rightarrow> char" where
  "upper_byte c = (if is_lower c then char_of (byte_val c - 32) else c)"

text \<open>
  \<open>strings.ToLower\<close>: bytewise on an ASCII string; on any other string it maps the Unicode
  table over the decoded runes, which is the argument \<open>map_runes\<close>.
\<close>

definition to_lower :: "(string \<Rightarrow> string) \<Rightarrow> string \<Rightarrow> string" where
  "to_lower map_runes s = (if list_all is_ascii s then map lower_byte s else map_runes s)"

lemma split_on_not_Nil [simp]: "split_on c s \<noteq> []"
  by (induction s) (auto split: list.splits)

lemma split_on_plain: "c \<notin> set s \<Longrightarrow> split_on c s = [s]"
  by (induction s) auto

lemma split_on_append: "c \<notin> set p \<Longrightarrow> split_on c (p @ c # s) = p # split_on c s"
  by (induction p) auto

lemma join_Cons: "ys \<noteq> [] \<Longrightarrow> join sep (x # ys) = x @ sep @ join sep ys"
  by (cases ys) auto

lemma split_on_join:
  "xs \<noteq> [] \<Longrightarrow> \<forall>x \<in> set xs. c \<notin> set x \<Longrightarrow> split_on c (join [c] xs) = xs"
proof (induction xs rule: induct_list012)
  case (3 x y ys)
  then show ?case by (simp add: split_on_append)
qed (auto simp: split_on_plain)

lemma join_split_on: "join [c] (split_on c s) = s"
proof (induction s)
  case (Cons x xs)
  then show ?case
    by (cases "split_on c xs"; cases "tl (split_on c xs)") (auto split: list.splits)
qed simp

lemma split_on_parts: "p \<in> set (split_on c s) \<Longrightarrow> c \<notin> set p"
proof (induction s arbitrary: p)
  case (Cons x xs)
  then show ?case by (cases "split_on c xs") (auto split: if_splits)
qed simp

lemma length_split_on: "length (split_on c s) = Suc (count_list s c)"
  by (induction s) (auto split: list.splits)

lemma repeat_str_single: "repeat_str [c] n = replicate n c"
  by (induction n) (auto simp: repeat_str_def)

lemmas strings_simps [std_simps] = split_on_plain split_on_join repeat_str_single

section \<open>Bytes\<close>

lemma byte_val_less [simp]: "byte_val c < 256"
  by (simp add: byte_val_def)

lemma byte_val_char_of [simp]: "n < 256 \<Longrightarrow> byte_val (char_of n) = n"
  by (simp add: byte_val_def)

lemma char_of_byte_val [simp]: "char_of (byte_val c) = c"
  by (simp add: byte_val_def)

lemma byte_val_inj [simp]: "byte_val a = byte_val b \<longleftrightarrow> a = b"
  by (metis char_of_byte_val)

lemma byte_val_lower_byte: "byte_val (lower_byte c) = (if is_upper c then byte_val c + 32 else byte_val c)"
  by (auto simp: lower_byte_def is_upper_def)

lemma byte_val_upper_byte: "byte_val (upper_byte c) = (if is_lower c then byte_val c - 32 else byte_val c)"
  by (auto simp: upper_byte_def is_lower_def)

lemma lower_byte_idem [simp]: "lower_byte (lower_byte c) = lower_byte c"
  by (rule iffD1 [OF byte_val_inj]) (auto simp: byte_val_lower_byte is_upper_def)

lemma upper_byte_idem [simp]: "upper_byte (upper_byte c) = upper_byte c"
  by (rule iffD1 [OF byte_val_inj]) (auto simp: byte_val_upper_byte is_lower_def)

lemma upper_lower_byte [simp]: "upper_byte (lower_byte c) = upper_byte c"
  by (rule iffD1 [OF byte_val_inj])
    (auto simp: byte_val_upper_byte byte_val_lower_byte is_lower_def is_upper_def)

lemma lower_upper_byte [simp]: "lower_byte (upper_byte c) = lower_byte c"
  by (rule iffD1 [OF byte_val_inj])
    (auto simp: byte_val_upper_byte byte_val_lower_byte is_lower_def is_upper_def)

section \<open>Decimal numerals\<close>

definition digit :: "nat \<Rightarrow> char" where
  "digit d = char_of (48 + d)"

fun decimal :: "nat \<Rightarrow> string" where
  "decimal n = (if n < 10 then [digit n] else decimal (n div 10) @ [digit (n mod 10)])"

declare decimal.simps [simp del]

lemma byte_val_digit [simp]: "d < 10 \<Longrightarrow> byte_val (digit d) = 48 + d"
  by (simp add: digit_def)

lemma digit_inj: "a < 10 \<Longrightarrow> b < 10 \<Longrightarrow> digit a = digit b \<longleftrightarrow> a = b"
  by (metis add_left_cancel byte_val_digit)

lemma decimal_digits: "\<forall>c \<in> set (decimal n). is_digit c"
proof (induction n rule: decimal.induct)
  case (1 n)
  then show ?case by (auto simp: decimal.simps [of n] is_digit_def)
qed

text \<open>Reading a numeral back.\<close>

definition read_decimal :: "string \<Rightarrow> nat" where
  "read_decimal s = foldl (\<lambda>n c. 10 * n + (byte_val c - 48)) 0 s"

lemma read_decimal_decimal: "read_decimal (decimal n) = n"
proof (induction n rule: decimal.induct)
  case (1 n)
  then show ?case
    by (cases "n < 10") (simp_all add: decimal.simps [of n] read_decimal_def)
qed

lemma decimal_inj: "decimal m = decimal n \<longleftrightarrow> m = n"
  by (metis read_decimal_decimal)

section \<open>Package encoding/hex\<close>

definition hex_digit :: "nat \<Rightarrow> char" where
  "hex_digit d = (if d < 10 then char_of (48 + d) else char_of (87 + d))"

definition hex_encode :: "bytes \<Rightarrow> string" where
  "hex_encode bs = concat (map (\<lambda>b. [hex_digit (byte_val b div 16), hex_digit (byte_val b mod 16)]) bs)"

definition hex_value :: "char \<Rightarrow> nat" where
  "hex_value c = (if is_digit c then byte_val c - 48 else byte_val c - 87)"

fun hex_decode :: "string \<Rightarrow> bytes" where
  "hex_decode (a # b # s) = char_of (16 * hex_value a + hex_value b) # hex_decode s"
| "hex_decode _ = []"

lemma hex_value_digit: "d < 16 \<Longrightarrow> hex_value (hex_digit d) = d"
  by (auto simp: hex_value_def hex_digit_def is_digit_def)

lemma hex_decode_encode: "hex_decode (hex_encode bs) = bs"
proof (induction bs)
  case (Cons b bs)
  have "byte_val b div 16 < 16" using byte_val_less [of b] by linarith
  moreover have "byte_val b mod 16 < 16" by simp
  ultimately show ?case
    using Cons by (simp add: hex_encode_def hex_value_digit)
qed (simp add: hex_encode_def)

lemma length_hex_encode [simp]: "length (hex_encode bs) = 2 * length bs"
  by (induction bs) (auto simp: hex_encode_def)

lemma hex_encode_inj: "hex_encode a = hex_encode b \<longleftrightarrow> a = b"
  by (metis hex_decode_encode)

section \<open>strconv.ParseBool\<close>

definition parse_bool :: "string \<Rightarrow> bool option" where
  "parse_bool s =
     (if s \<in> set [''1'', ''t'', ''T'', ''TRUE'', ''true'', ''True''] then Some True
      else if s \<in> set [''0'', ''f'', ''F'', ''FALSE'', ''false'', ''False''] then Some False
      else None)"

section \<open>Package net/http: Header\<close>

text \<open>
  \<open>http.Header\<close> is a Go map from keys to slices of values; \<open>None\<close> is the nil map, which
  reads as an empty one.
\<close>

type_synonym header = "string \<rightharpoonup> string list"
type_synonym http_header = "header option"

definition header_map :: "http_header \<Rightarrow> header" where
  "header_map h = (case h of None \<Rightarrow> Map.empty | Some m \<Rightarrow> m)"

lemma header_map_simps [simp]: "header_map None = Map.empty" "header_map (Some m) = m"
  by (simp_all add: header_map_def)

definition valid_header_byte :: "char \<Rightarrow> bool" where
  "valid_header_byte c \<longleftrightarrow>
     is_lower c \<or> is_upper c \<or> is_digit c \<or> c \<in> set ''!#$%&*+-.^_`|~'' \<or> c = CHR 0x27"

text \<open>
  \<open>textproto.CanonicalMIMEHeaderKey\<close>: a key with a byte that no header field name can have
  is returned unchanged; otherwise the first letter and every letter behind a dash become
  upper case and the others lower case.
\<close>

fun canonical_from :: "bool \<Rightarrow> string \<Rightarrow> string" where
  "canonical_from upper [] = []"
| "canonical_from upper (c # cs) =
     (if upper then upper_byte c else lower_byte c) # canonical_from (c = CHR ''-'') cs"

definition canonical_key :: "string \<Rightarrow> string" where
  "canonical_key s = (if list_all valid_header_byte s then canonical_from True s else s)"

definition header_get :: "http_header \<Rightarrow> string \<Rightarrow> string" where
  "header_get h key =
     (case header_map h (canonical_key key) of
        Some (v # vs) \<Rightarrow> v
      | _ \<Rightarrow> [])"

definition header_set :: "header \<Rightarrow> string \<Rightarrow> string \<Rightarrow> header" where
  "header_set h key value = h(canonical_key key \<mapsto> [value])"

lemma valid_byte_cases: "valid_header_byte (upper_byte c) = valid_header_byte c"
  "valid_header_byte (lower_byte c) = valid_header_byte c"
proof -
  have "is_lower (upper_byte c) \<or> is_upper (upper_byte c) \<longleftrightarrow> is_lower c \<or> is_upper c"
    and "is_lower (lower_byte c) \<or> is_upper (lower_byte c) \<longleftrightarrow> is_lower c \<or> is_upper c"
    by (auto simp: is_lower_def is_upper_def byte_val_lower_byte byte_val_upper_byte)
  moreover have "upper_byte c = c \<or> is_lower c \<and> is_upper (upper_byte c)"
    and "lower_byte c = c \<or> is_upper c \<and> is_lower (lower_byte c)"
    by (auto simp: is_lower_def is_upper_def byte_val_lower_byte byte_val_upper_byte
        upper_byte_def lower_byte_def)
  ultimately show "valid_header_byte (upper_byte c) = valid_header_byte c"
    "valid_header_byte (lower_byte c) = valid_header_byte c"
    unfolding valid_header_byte_def by auto
qed

lemma byte_val_dash: "byte_val CHR ''-'' = 45"
  by (simp add: byte_val_def)

lemma dash_cases: "upper_byte c = CHR ''-'' \<longleftrightarrow> c = CHR ''-''"
  "lower_byte c = CHR ''-'' \<longleftrightarrow> c = CHR ''-''"
  unfolding byte_val_inj [symmetric]
  by (auto simp: byte_val_upper_byte byte_val_lower_byte is_lower_def is_upper_def byte_val_dash)

lemma canonical_from_valid:
  "list_all valid_header_byte (canonical_from u s) = list_all valid_header_byte s"
  by (induction s arbitrary: u) (auto simp: valid_byte_cases)

lemma canonical_from_idem: "canonical_from u (canonical_from u s) = canonical_from u s"
  by (induction s arbitrary: u) (auto simp: dash_cases)

lemma canonical_key_idem [simp]: "canonical_key (canonical_key s) = canonical_key s"
  by (simp add: canonical_key_def canonical_from_valid canonical_from_idem)

lemma canonical_from_lower: "canonical_from u (map lower_byte s) = canonical_from u s"
  by (induction s arbitrary: u) (auto simp: dash_cases)

lemma map_lower_valid: "list_all valid_header_byte (map lower_byte s) = list_all valid_header_byte s"
  by (induction s) (auto simp: valid_byte_cases)

lemma canonical_from_case:
  "map lower_byte a = map lower_byte b \<Longrightarrow> canonical_from u a = canonical_from u b"
  by (metis canonical_from_lower)

text \<open>Two valid field names that differ only in case have one canonical form.\<close>

lemma canonical_key_case:
  assumes "list_all valid_header_byte a" and "map lower_byte a = map lower_byte b"
  shows "canonical_key a = canonical_key b"
proof -
  have "list_all valid_header_byte b"
    using assms by (metis map_lower_valid)
  then show ?thesis
    using assms(1) canonical_from_case [OF assms(2), of True] by (simp add: canonical_key_def)
qed

lemma header_get_set:
  "header_get (Some (header_set h k v)) k' =
     (if canonical_key k' = canonical_key k then v else header_get (Some h) k')"
  by (simp add: header_get_def header_set_def)

lemma header_get_nonempty:
  "header_get h k \<noteq> [] \<Longrightarrow> \<exists>vs. header_map h (canonical_key k) = Some (header_get h k # vs)"
  by (auto simp: header_get_def split: option.splits list.splits)

section \<open>Package time\<close>

text \<open>
  A \<open>time.Time\<close> is its instant, in nanoseconds since the zero time, so the zero value is
  0. A \<open>time.Duration\<close> is an \<open>int64\<close> number of nanoseconds: \<open>Sub\<close> saturates at the
  ends of that range, and \<open>Milliseconds\<close> divides as Go does, rounding towards zero.
\<close>

type_synonym time = int
type_synonym duration = int

definition min_duration :: duration where "min_duration = - (2 ^ 63)"
definition max_duration :: duration where "max_duration = 2 ^ 63 - 1"
definition millisecond :: duration where "millisecond = 1000000"
definition second :: duration where "second = 1000000000"

definition is_zero :: "time \<Rightarrow> bool" where
  "is_zero t \<longleftrightarrow> t = 0"

definition time_sub :: "time \<Rightarrow> time \<Rightarrow> duration" where
  "time_sub t u =
     (if min_duration \<le> t - u \<and> t - u \<le> max_duration then t - u
      else if t < u then min_duration else max_duration)"

definition milliseconds :: "duration \<Rightarrow> int" where
  "milliseconds d = d sdiv millisecond"

lemma time_sub_range: "min_duration \<le> time_sub t u \<and> time_sub t u \<le> max_duration"
  by (auto simp: time_sub_def min_duration_def max_duration_def)

lemma time_sub_sgn: "0 \<le> time_sub t u \<longleftrightarrow> u \<le> t"
  by (auto simp: time_sub_def min_duration_def max_duration_def)

lemma milliseconds_nonneg: "0 \<le> d \<Longrightarrow> milliseconds d = d div 1000000"
  by (simp add: milliseconds_def millisecond_def signed_divide_int_def sgn_if)

lemma milliseconds_neg: "d \<le> 0 \<Longrightarrow> milliseconds d = - ((- d) div 1000000)"
  by (cases "d = 0") (simp_all add: milliseconds_def millisecond_def signed_divide_int_def sgn_if)

lemma milliseconds_mono_nonneg: "0 \<le> d \<Longrightarrow> 0 \<le> milliseconds d"
  by (simp add: milliseconds_nonneg)

end
