(* ===== verification/Events.thy ===== *)
theory Events
  imports Go_Std
begin

text \<open>
  \<open>assemblers/event.go\<close> and \<open>assemblers/http_event.go\<close>: the events the assembler hands to
  the handlers. Go's embedding of \<open>eventBase\<close> in \<open>HttpEvent\<close> is record extension; the
  interface \<open>Event\<close> is a datatype with the one implementation of the repository and a second
  constructor for any other, which the handlers' type switches distinguish. The parsed
  messages carry the fields of \<open>http.Request\<close> and \<open>http.Response\<close> that the program reads
  or writes; a pointer that may be nil is an option.
\<close>

section \<open>Parsed messages\<close>

datatype body = BodyOpen | BodyClosed

record request =
  Method :: string
  RequestURI :: string
  req_ContentLength :: int64
  req_Header :: http_header
  req_Body :: "body option"

record response =
  StatusCode :: int
  res_ContentLength :: int64
  res_Header :: http_header
  res_Body :: "body option"

section \<open>Events\<close>

record eventBase =
  streamIdent :: string
  requestId :: int64
  requestTimestamp :: time
  responseTimestamp :: time
  requestPacketCount :: int
  responsePacketCount :: int
  srcIp :: string
  dstIp :: string

record HttpEvent = eventBase +
  request :: "request option"
  response :: "response option"

datatype Event = EvHttp HttpEvent | EvOther eventBase

definition NewHttpEvent ::
  "string \<Rightarrow> int64 \<Rightarrow> time \<Rightarrow> time \<Rightarrow> int \<Rightarrow> int \<Rightarrow> string \<Rightarrow> string
    \<Rightarrow> request option \<Rightarrow> response option \<Rightarrow> HttpEvent" where
  "NewHttpEvent ident rid reqTs resTs reqCount resCount src dst req res = \<lparr>
     streamIdent = ident,
     requestId = rid,
     requestTimestamp = reqTs,
     responseTimestamp = resTs,
     requestPacketCount = reqCount,
     responsePacketCount = resCount,
     srcIp = src,
     dstIp = dst,
     request = req,
     response = res \<rparr>"

text \<open>The accessors of the interface, dispatched on the implementation.\<close>

fun event_base :: "Event \<Rightarrow> eventBase" where
  "event_base (EvHttp e) = eventBase.truncate e"
| "event_base (EvOther b) = b"

definition StreamIdent :: "Event \<Rightarrow> string" where
  "StreamIdent e = streamIdent (event_base e)"

definition RequestId :: "Event \<Rightarrow> int64" where
  "RequestId e = requestId (event_base e)"

definition RequestTimestamp :: "Event \<Rightarrow> time" where
  "RequestTimestamp e = requestTimestamp (event_base e)"

definition ResponseTimestamp :: "Event \<Rightarrow> time" where
  "ResponseTimestamp e = responseTimestamp (event_base e)"

definition RequestPacketCount :: "Event \<Rightarrow> int" where
  "RequestPacketCount e = requestPacketCount (event_base e)"

definition ResponsePacketCount :: "Event \<Rightarrow> int" where
  "ResponsePacketCount e = responsePacketCount (event_base e)"

definition SrcIp :: "Event \<Rightarrow> string" where
  "SrcIp e = srcIp (event_base e)"

definition DstIp :: "Event \<Rightarrow> string" where
  "DstIp e = dstIp (event_base e)"

definition Request :: "HttpEvent \<Rightarrow> request option" where
  "Request e = request e"

definition Response :: "HttpEvent \<Rightarrow> response option" where
  "Response e = response e"

lemmas accessor_defs =
  StreamIdent_def RequestId_def RequestTimestamp_def ResponseTimestamp_def
  RequestPacketCount_def ResponsePacketCount_def SrcIp_def DstIp_def Request_def Response_def

lemma event_base_http [simp]:
  "StreamIdent (EvHttp e) = streamIdent e"
  "RequestId (EvHttp e) = requestId e"
  "RequestTimestamp (EvHttp e) = requestTimestamp e"
  "ResponseTimestamp (EvHttp e) = responseTimestamp e"
  "RequestPacketCount (EvHttp e) = requestPacketCount e"
  "ResponsePacketCount (EvHttp e) = responsePacketCount e"
  "SrcIp (EvHttp e) = srcIp e"
  "DstIp (EvHttp e) = dstIp e"
  by (simp_all add: accessor_defs eventBase.truncate_def)

text \<open>
  Whether the timestamps of an event agree with the halves it has: an absent message leaves
  the zero time. The handlers decide by the timestamps which durations they may compute.
\<close>

definition halves_coherent :: "HttpEvent \<Rightarrow> bool" where
  "halves_coherent e \<longleftrightarrow>
     (request e = None \<longrightarrow> requestTimestamp e = 0 \<and> requestPacketCount e = 0) \<and>
     (response e = None \<longrightarrow> responseTimestamp e = 0 \<and> responsePacketCount e = 0)"

end
