(* ===== verification/Http_Matcher.thy ===== *)
theory Http_Matcher
  imports Events
begin

text \<open>
  \<open>assemblers/http_matcher.go\<close>: the table that pairs requests with responses by key. Each
  operation is one critical section of the mutex and is modelled as one function of the table
  (the theory Matcher_Lock takes the critical section apart). The abstract specification is
  per key: the messages with one key are taken two at a time, in arrival order.
\<close>

record entry =
  entry_request :: "request option"
  entry_requestTimestamp :: time
  entry_response :: "response option"
  entry_responseTimestamp :: time
  entry_requestPacketCount :: int
  entry_responsePacketCount :: int

record httpMatcher =
  messages :: "int64 \<rightharpoonup> entry"

text \<open>The zero value of the struct.\<close>

definition zero_entry :: entry where
  "zero_entry = \<lparr>
     entry_request = None, entry_requestTimestamp = 0,
     entry_response = None, entry_responseTimestamp = 0,
     entry_requestPacketCount = 0, entry_responsePacketCount = 0 \<rparr>"

definition newRequestResponseMatcher :: httpMatcher where
  "newRequestResponseMatcher = \<lparr>messages = Map.empty\<rparr>"

definition GetOrStoreRequest ::
  "httpMatcher \<Rightarrow> int64 \<Rightarrow> time \<Rightarrow> request option \<Rightarrow> int
    \<Rightarrow> (entry option \<times> bool) \<times> httpMatcher" where
  "GetOrStoreRequest m key timestamp req packetCount =
     (case messages m key of
        Some match \<Rightarrow>
          ((Some (match\<lparr>entry_request := req,
                        entry_requestTimestamp := timestamp,
                        entry_requestPacketCount := packetCount\<rparr>), True),
           m\<lparr>messages := (messages m)(key := None)\<rparr>)
      | None \<Rightarrow>
          ((None, False),
           m\<lparr>messages := (messages m)(key \<mapsto>
               zero_entry\<lparr>entry_request := req,
                          entry_requestTimestamp := timestamp,
                          entry_requestPacketCount := packetCount\<rparr>)\<rparr>))"

definition GetOrStoreResponse ::
  "httpMatcher \<Rightarrow> int64 \<Rightarrow> time \<Rightarrow> response option \<Rightarrow> int
    \<Rightarrow> (entry option \<times> bool) \<times> httpMatcher" where
  "GetOrStoreResponse m key timestamp res packetCount =
     (case messages m key of
        Some match \<Rightarrow>
          ((Some (match\<lparr>entry_response := res,
                        entry_responseTimestamp := timestamp,
                        entry_responsePacketCount := packetCount\<rparr>), True),
           m\<lparr>messages := (messages m)(key := None)\<rparr>)
      | None \<Rightarrow>
          ((None, False),
           m\<lparr>messages := (messages m)(key \<mapsto>
               zero_entry\<lparr>entry_response := res,
                          entry_responseTimestamp := timestamp,
                          entry_responsePacketCount := packetCount\<rparr>)\<rparr>))"

section \<open>Messages and runs\<close>

text \<open>
  One call of either operation as a message, so that a history of the table is a list. The
  pointers the callers pass are never nil.
\<close>

datatype message =
  ReqMsg (msg_key: int64) time request int
| ResMsg (msg_key: int64) time response int

fun is_request :: "message \<Rightarrow> bool" where
  "is_request (ReqMsg _ _ _ _) = True"
| "is_request (ResMsg _ _ _ _) = False"

fun deliver :: "httpMatcher \<Rightarrow> message \<Rightarrow> (entry option \<times> bool) \<times> httpMatcher" where
  "deliver m (ReqMsg k ts r n) = GetOrStoreRequest m k ts (Some r) n"
| "deliver m (ResMsg k ts r n) = GetOrStoreResponse m k ts (Some r) n"

text \<open>
  The matches a history produces, with their keys, in order, and the table it leaves. The
  step is an argument, so that the same run is defined for the critical section of
  Matcher_Lock.
\<close>

fun run_with ::
  "('s \<Rightarrow> message \<Rightarrow> (entry option \<times> bool) \<times> 's) \<Rightarrow> 's \<Rightarrow> message list
    \<Rightarrow> (int64 \<times> entry) list \<times> 's" where
  "run_with step s [] = ([], s)"
| "run_with step s (x # xs) =
     (case step s x of
        ((Some e, True), s') \<Rightarrow> (let (es, s'') = run_with step s' xs in ((msg_key x, e) # es, s''))
      | (_, s') \<Rightarrow> run_with step s' xs)"

abbreviation deliver_all :: "httpMatcher \<Rightarrow> message list \<Rightarrow> (int64 \<times> entry) list \<times> httpMatcher"
  where "deliver_all \<equiv> run_with deliver"

section \<open>The abstract specification\<close>

text \<open>\<open>fill\<close> writes one message into an entry; a match is one message filled over another.\<close>

fun fill :: "message \<Rightarrow> entry \<Rightarrow> entry" where
  "fill (ReqMsg _ ts r n) e =
     e\<lparr>entry_request := Some r, entry_requestTimestamp := ts, entry_requestPacketCount := n\<rparr>"
| "fill (ResMsg _ ts r n) e =
     e\<lparr>entry_response := Some r, entry_responseTimestamp := ts, entry_responsePacketCount := n\<rparr>"

definition half :: "message \<Rightarrow> entry" where
  "half x = fill x zero_entry"

definition combine :: "message \<Rightarrow> message \<Rightarrow> entry" where
  "combine x y = fill y (half x)"

fun pair_up :: "message list \<Rightarrow> entry list" where
  "pair_up (x # y # xs) = combine x y # pair_up xs"
| "pair_up _ = []"

fun leftover :: "message list \<Rightarrow> message option" where
  "leftover [] = None"
| "leftover [x] = Some x"
| "leftover (x # y # xs) = leftover xs"

definition with_key :: "int64 \<Rightarrow> message list \<Rightarrow> message list" where
  "with_key k xs = filter (\<lambda>x. msg_key x = k) xs"

definition matches_of :: "int64 \<Rightarrow> (int64 \<times> entry) list \<Rightarrow> entry list" where
  "matches_of k es = map snd (filter (\<lambda>p. fst p = k) es)"

section \<open>One step\<close>

lemma deliver_fill:
  "deliver m x =
     (case messages m (msg_key x) of
        Some e \<Rightarrow> ((Some (fill x e), True), m\<lparr>messages := (messages m)(msg_key x := None)\<rparr>)
      | None \<Rightarrow> ((None, False), m\<lparr>messages := (messages m)(msg_key x \<mapsto> half x)\<rparr>))"
  by (cases x) (auto simp: GetOrStoreRequest_def GetOrStoreResponse_def half_def split: option.splits)

lemma with_key_simps [simp]:
  "with_key k [] = []"
  "with_key k (x # xs) = (if msg_key x = k then x # with_key k xs else with_key k xs)"
  "with_key k (xs @ ys) = with_key k xs @ with_key k ys"
  by (simp_all add: with_key_def)

lemma matches_of_simps [simp]:
  "matches_of k [] = []"
  "matches_of k (p # es) = (if fst p = k then snd p # matches_of k es else matches_of k es)"
  "matches_of k (es @ fs) = matches_of k es @ matches_of k fs"
  by (simp_all add: matches_of_def)

lemma run_with_append:
  "run_with step s (xs @ ys) =
     (let (es, s') = run_with step s xs; (fs, s'') = run_with step s' ys in (es @ fs, s''))"
  by (induction xs arbitrary: s) (auto simp: split_beta split: prod.splits option.splits bool.splits)

section \<open>The interface: a table that pairs\<close>

text \<open>
  What the clients of the table rely on: a message whose key is pending is filled into the
  pending entry, which is returned and forgotten; any other message becomes pending. The
  whole specification of a history follows from these two laws.
\<close>

locale pairing_table =
  fixes step :: "'s \<Rightarrow> message \<Rightarrow> (entry option \<times> bool) \<times> 's"
    and pending :: "'s \<Rightarrow> int64 \<Rightarrow> entry option"
  assumes hit: "pending s (msg_key x) = Some e \<Longrightarrow>
      \<exists>s'. step s x = ((Some (fill x e), True), s') \<and> pending s' = (pending s)(msg_key x := None)"
    and miss: "pending s (msg_key x) = None \<Longrightarrow>
      \<exists>s'. step s x = ((None, False), s') \<and> pending s' = (pending s)(msg_key x \<mapsto> half x)"
begin

text \<open>
  The state of one key before a history, as messages: none, or one that waits. The
  specification of the history starts from it.
\<close>

definition waiting :: "'s \<Rightarrow> int64 \<Rightarrow> message list \<Rightarrow> bool" where
  "waiting s k w \<longleftrightarrow> (w = [] \<and> pending s k = None) \<or>
     (\<exists>x. w = [x] \<and> msg_key x = k \<and> pending s k = Some (half x))"

lemma waiting_empty: "pending s k = None \<Longrightarrow> waiting s k []"
  by (simp add: waiting_def)

lemma waiting_same:
  "pending s' k = pending s k \<Longrightarrow> waiting s' k w = waiting s k w"
  by (simp add: waiting_def)

text \<open>One step of the specification: the waiting messages of a key before and after.\<close>

lemma step_cases:
  assumes "waiting s k w"
  obtains (other) s' r where "step s x = (r, s')" "msg_key x \<noteq> k" "waiting s' k w"
      "r = (None, False) \<or> (\<exists>e. r = (Some e, True))"
  | (first) s' where "step s x = ((None, False), s')" "msg_key x = k" "w = []" "waiting s' k [x]"
  | (second) s' y where "step s x = ((Some (combine y x), True), s')" "msg_key x = k" "w = [y]"
      "waiting s' k []"
proof (cases "pending s (msg_key x)")
  case None
  from miss [OF this] obtain s' where s': "step s x = ((None, False), s')"
    "pending s' = (pending s)(msg_key x \<mapsto> half x)" by blast
  show ?thesis
  proof (cases "msg_key x = k")
    case True
    with s' None assms show ?thesis by (intro first) (auto simp: waiting_def)
  next
    case False
    with s' assms show ?thesis by (intro other [OF s'(1)]) (auto simp: waiting_def)
  qed
next
  case (Some e)
  from hit [OF this] obtain s' where s': "step s x = ((Some (fill x e), True), s')"
    "pending s' = (pending s)(msg_key x := None)" by blast
  show ?thesis
  proof (cases "msg_key x = k")
    case True
    with Some assms obtain y where "w = [y]" "e = half y" by (auto simp: waiting_def)
    with s' True show ?thesis by (intro second) (auto simp: waiting_def combine_def)
  next
    case False
    with s' assms show ?thesis by (intro other [OF s'(1)]) (auto simp: waiting_def)
  qed
qed

lemma run_spec:
  "waiting s k w \<Longrightarrow>
    matches_of k (fst (run_with step s xs)) = pair_up (w @ with_key k xs) \<and>
    pending (snd (run_with step s xs)) k = map_option half (leftover (w @ with_key k xs))"
proof (induction xs arbitrary: s w)
  case Nil
  then show ?case by (auto simp: waiting_def)
next
  case (Cons x xs)
  from Cons.prems show ?case
  proof (cases rule: step_cases [where x = x])
    case (other s' r)
    then show ?thesis using Cons.IH [of s' w] by (auto simp: split_beta)
  next
    case (first s')
    then show ?thesis using Cons.IH [of s' "[x]"] by simp
  next
    case (second s' y)
    then show ?thesis using Cons.IH [of s' "[]"] by (simp add: split_beta)
  qed
qed

lemma run_from_empty:
  assumes "\<And>k. pending s k = None"
  shows "matches_of k (fst (run_with step s xs)) = pair_up (with_key k xs)"
    and "pending (snd (run_with step s xs)) k = map_option half (leftover (with_key k xs))"
  using run_spec [OF waiting_empty [OF assms], of k xs] by simp_all

end

text \<open>The table of the code provides the interface.\<close>

interpretation matcher: pairing_table deliver messages
  by unfold_locales (auto simp: deliver_fill)

lemma new_pending [simp]: "messages newRequestResponseMatcher k = None"
  by (simp add: newRequestResponseMatcher_def)

lemmas deliver_all_new = matcher.run_from_empty [OF new_pending]

section \<open>Facts about the specification\<close>

lemma length_pair_up: "length (pair_up xs) = length xs div 2"
  by (induction xs rule: pair_up.induct) auto

lemma leftover_None: "leftover xs = None \<longleftrightarrow> even (length xs)"
  by (induction xs rule: leftover.induct) auto

lemma leftover_Some: "leftover xs = Some x \<Longrightarrow> xs \<noteq> [] \<and> x = last xs"
  by (induction xs rule: leftover.induct) auto

lemma pair_up_pairs:
  "e \<in> set (pair_up xs) \<Longrightarrow> \<exists>x y. x \<in> set xs \<and> y \<in> set xs \<and> e = combine x y"
  by (induction xs rule: pair_up.induct) auto

text \<open>Which halves a match has depends on the kinds of the two messages only.\<close>

lemma combine_halves:
  "entry_request (combine x y) = None \<longleftrightarrow> \<not> is_request x \<and> \<not> is_request y"
  "entry_response (combine x y) = None \<longleftrightarrow> is_request x \<and> is_request y"
  by (cases x; cases y; simp add: combine_def half_def zero_entry_def)+

definition entry_coherent :: "entry \<Rightarrow> bool" where
  "entry_coherent e \<longleftrightarrow>
     (entry_request e = None \<longrightarrow> entry_requestTimestamp e = 0 \<and> entry_requestPacketCount e = 0) \<and>
     (entry_response e = None \<longrightarrow> entry_responseTimestamp e = 0 \<and> entry_responsePacketCount e = 0)"

lemma zero_entry_coherent [inv_intros]: "entry_coherent zero_entry"
  by (simp add: entry_coherent_def zero_entry_def)

lemma fill_coherent [inv_intros]: "entry_coherent e \<Longrightarrow> entry_coherent (fill x e)"
  by (cases x) (auto simp: entry_coherent_def)

lemma half_coherent [inv_intros]: "entry_coherent (half x)"
  by (simp add: half_def inv_intros)

lemma combine_coherent [inv_intros]: "entry_coherent (combine x y)"
  by (simp add: combine_def inv_intros)

text \<open>The table invariant: every waiting entry has exactly one half, and is coherent.\<close>

definition matcher_inv :: "httpMatcher \<Rightarrow> bool" where
  "matcher_inv m \<longleftrightarrow> (\<forall>k e. messages m k = Some e \<longrightarrow>
     entry_coherent e \<and> (entry_request e = None \<longleftrightarrow> entry_response e \<noteq> None))"

lemma half_one_sided: "entry_request (half x) = None \<longleftrightarrow> entry_response (half x) \<noteq> None"
  by (cases x) (auto simp: half_def zero_entry_def)

lemma matcher_inv_new [inv_intros]: "matcher_inv newRequestResponseMatcher"
  by (simp add: matcher_inv_def newRequestResponseMatcher_def)

lemma matcher_inv_deliver [inv_intros]: "matcher_inv m \<Longrightarrow> matcher_inv (snd (deliver m x))"
  by (auto simp: matcher_inv_def deliver_fill half_one_sided half_coherent
      split: option.splits if_splits)

lemma deliver_match_coherent:
  "matcher_inv m \<Longrightarrow> deliver m x = ((Some e, b), m') \<Longrightarrow> entry_coherent e"
  by (auto simp: matcher_inv_def deliver_fill fill_coherent split: option.splits)

section \<open>Properties\<close>

text \<open>C16: From an empty table, whatever the order in which requests and responses arrive, the
  matches reported for a key are its messages taken two at a time in arrival order, and what
  stays in the table under the key is the odd message out.\<close>

theorem matcher_history:
  "matches_of k (fst (deliver_all newRequestResponseMatcher xs)) = pair_up (with_key k xs) \<and>
   messages (snd (deliver_all newRequestResponseMatcher xs)) k =
     map_option half (leftover (with_key k xs))"
  using deliver_all_new [where k = k and xs = xs] by blast

text \<open>The table holds exactly the keys with an odd number of messages, one entry each: a
  counterpart that never arrives is the only thing that keeps memory.\<close>

lemma matcher_pending_keys:
  "dom (messages (snd (deliver_all newRequestResponseMatcher xs))) =
     {k. odd (length (with_key k xs))}"
  using deliver_all_new(2) [where xs = xs] by (auto simp: dom_def leftover_None simp flip: not_None_eq)

text \<open>A request whose key is already pending is reported as a match, whichever kind of message
  is pending: behind an earlier request the reported entry has the later request and no
  response.\<close>

lemma second_request_matches:
  assumes "messages m key = None"
  shows "GetOrStoreRequest (snd (GetOrStoreRequest m key t1 r1 n1)) key t2 r2 n2 =
    ((Some \<lparr>entry_request = r2, entry_requestTimestamp = t2, entry_response = None,
            entry_responseTimestamp = 0, entry_requestPacketCount = n2,
            entry_responsePacketCount = 0\<rparr>, True), m)"
  using assms by (cases m) (simp add: GetOrStoreRequest_def zero_entry_def fun_upd_idem)

end
