(* ===== verification/Matcher_Lock.thy ===== *)
theory Matcher_Lock
  imports Http_Matcher
begin

text \<open>
  The critical sections of \<open>assemblers/http_matcher.go\<close> taken apart: any number of goroutines
  call the two operations of one matcher, and each operation is the sequence of its shared
  accesses (take the mutex, look the key up, write the fields of the entry in place, delete the
  key or store a new entry, release the mutex). The result is that the operations behave as
  the functions of Http_Matcher, applied in the order in which the calls return.
\<close>

section \<open>The steps of a call\<close>

datatype pc =
  Ready
| Acquiring message
| Entered message
| Looked message "entry option"
| Updated message entry
| Leaving message "entry option \<times> bool"

record lock_state =
  table :: httpMatcher
  mtx :: "nat option"
  pcs :: "nat \<Rightarrow> pc"
  returned :: "(message \<times> (entry option \<times> bool)) list"

definition put :: "httpMatcher \<Rightarrow> int64 \<Rightarrow> entry option \<Rightarrow> httpMatcher" where
  "put m k e = m\<lparr>messages := (messages m)(k := e)\<rparr>"

inductive lock_step :: "lock_state \<Rightarrow> lock_state \<Rightarrow> bool" where
  call: "pcs s t = Ready \<Longrightarrow>
     lock_step s (s\<lparr>pcs := (pcs s)(t := Acquiring x)\<rparr>)"
| Lock: "pcs s t = Acquiring x \<Longrightarrow> mtx s = None \<Longrightarrow>
     lock_step s (s\<lparr>mtx := Some t, pcs := (pcs s)(t := Entered x)\<rparr>)"
| lookup: "pcs s t = Entered x \<Longrightarrow>
     lock_step s (s\<lparr>pcs := (pcs s)(t := Looked x (messages (table s) (msg_key x)))\<rparr>)"
| update: "pcs s t = Looked x (Some match) \<Longrightarrow>
     lock_step s (s\<lparr>table := put (table s) (msg_key x) (Some (fill x match)),
                    pcs := (pcs s)(t := Updated x (fill x match))\<rparr>)"
| remove: "pcs s t = Updated x match \<Longrightarrow>
     lock_step s (s\<lparr>table := put (table s) (msg_key x) None,
                    pcs := (pcs s)(t := Leaving x (Some match, True))\<rparr>)"
| store: "pcs s t = Looked x None \<Longrightarrow>
     lock_step s (s\<lparr>table := put (table s) (msg_key x) (Some (half x)),
                    pcs := (pcs s)(t := Leaving x (None, False))\<rparr>)"
| Unlock: "pcs s t = Leaving x r \<Longrightarrow> mtx s = Some t \<Longrightarrow>
     lock_step s (s\<lparr>mtx := None, pcs := (pcs s)(t := Ready), returned := returned s @ [(x, r)]\<rparr>)"

definition init_lock :: lock_state where
  "init_lock =
     \<lparr>table = newRequestResponseMatcher, mtx = None, pcs = (\<lambda>_. Ready), returned = []\<rparr>"

inductive lock_reachable :: "lock_state \<Rightarrow> bool" where
  reach_init: "lock_reachable init_lock"
| reach_step: "lock_reachable s \<Longrightarrow> lock_step s s' \<Longrightarrow> lock_reachable s'"

inductive_cases lock_stepE: "lock_step s s'"

section \<open>Mutual exclusion\<close>

fun critical :: "pc \<Rightarrow> bool" where
  "critical Ready = False"
| "critical (Acquiring _) = False"
| "critical _ = True"

definition exclusive :: "lock_state \<Rightarrow> bool" where
  "exclusive s \<longleftrightarrow> (\<forall>t. critical (pcs s t) \<longleftrightarrow> mtx s = Some t)"

lemma exclusive_init [inv_intros]: "exclusive init_lock"
  by (simp add: exclusive_def init_lock_def)

lemma holder: "exclusive s \<Longrightarrow> critical (pcs s t) \<Longrightarrow> mtx s = Some t"
  by (simp add: exclusive_def)

lemma outside: "exclusive s \<Longrightarrow> \<not> critical (pcs s t) \<Longrightarrow> mtx s \<noteq> Some t"
  by (simp add: exclusive_def)

lemma exclusive_step [inv_intros]:
  assumes "exclusive s" and "lock_step s s'"
  shows "exclusive s'"
  using assms(2,1)
proof cases
  case (call t x)
  with outside [OF assms(1), of t] have "mtx s \<noteq> Some t" by simp
  with call assms(1) show ?thesis by (auto simp: exclusive_def)
next
  case (lookup t x)
  with holder [OF assms(1), of t] have "mtx s = Some t" by simp
  with lookup assms(1) show ?thesis by (auto simp: exclusive_def)
next
  case (update t x match)
  with holder [OF assms(1), of t] have "mtx s = Some t" by simp
  with update assms(1) show ?thesis by (auto simp: exclusive_def)
next
  case (remove t x match)
  with holder [OF assms(1), of t] have "mtx s = Some t" by simp
  with remove assms(1) show ?thesis by (auto simp: exclusive_def)
next
  case (store t x)
  with holder [OF assms(1), of t] have "mtx s = Some t" by simp
  with store assms(1) show ?thesis by (auto simp: exclusive_def)
qed (use assms(1) in \<open>auto simp: exclusive_def\<close>)

lemma lock_exclusive: "lock_reachable s \<Longrightarrow> exclusive s"
  by (induction rule: lock_reachable.induct) (auto intro: inv_intros)

section \<open>Sequential behaviour\<close>

text \<open>The results of calls made one after another, and the table they leave.\<close>

fun results :: "httpMatcher \<Rightarrow> message list \<Rightarrow> (entry option \<times> bool) list \<times> httpMatcher" where
  "results m [] = ([], m)"
| "results m (x # xs) =
     (let (r, m') = deliver m x; (rs, m'') = results m' xs in (r # rs, m''))"

lemma results_snoc:
  "results m (xs @ [x]) =
     (let (rs, m') = results m xs; (r, m'') = deliver m' x in (rs @ [r], m''))"
  by (induction xs arbitrary: m) (auto simp: split_beta Let_def)

text \<open>
  The table as the calls that have returned left it; the call inside the critical section, if
  there is one, has done part of its work on it.
\<close>

definition calls_before :: "lock_state \<Rightarrow> httpMatcher" where
  "calls_before s = snd (results newRequestResponseMatcher (map fst (returned s)))"

fun progress :: "httpMatcher \<Rightarrow> pc \<Rightarrow> httpMatcher \<Rightarrow> bool" where
  "progress m Ready m' \<longleftrightarrow> m' = m"
| "progress m (Acquiring x) m' \<longleftrightarrow> m' = m"
| "progress m (Entered x) m' \<longleftrightarrow> m' = m"
| "progress m (Looked x e) m' \<longleftrightarrow> m' = m \<and> e = messages m (msg_key x)"
| "progress m (Updated x e) m' \<longleftrightarrow> (\<exists>e0. messages m (msg_key x) = Some e0 \<and> e = fill x e0 \<and>
     m' = put m (msg_key x) (Some e))"
| "progress m (Leaving x r) m' \<longleftrightarrow> deliver m x = (r, m')"

definition linear :: "lock_state \<Rightarrow> bool" where
  "linear s \<longleftrightarrow>
     fst (results newRequestResponseMatcher (map fst (returned s))) = map snd (returned s) \<and>
     (case mtx s of
        None \<Rightarrow> table s = calls_before s
      | Some t \<Rightarrow> progress (calls_before s) (pcs s t) (table s))"

lemma put_put [simp]: "put (put m k a) k b = put m k b"
  by (simp add: put_def)

lemma deliver_put:
  "deliver m x = (case messages m (msg_key x) of
      Some e \<Rightarrow> ((Some (fill x e), True), put m (msg_key x) None)
    | None \<Rightarrow> ((None, False), put m (msg_key x) (Some (half x))))"
  by (simp add: deliver_fill put_def split: option.split)

lemma linear_init [inv_intros]: "linear init_lock"
  by (simp add: linear_def calls_before_def init_lock_def)

lemma linear_step [inv_intros]:
  assumes "exclusive s" and "linear s" and "lock_step s s'"
  shows "linear s'"
  using assms(3)
proof cases
  case (call t x)
  with outside [OF assms(1), of t] have "mtx s \<noteq> Some t" by simp
  with call assms(2) show ?thesis
    by (auto simp: linear_def calls_before_def split: option.splits)
next
  case (Lock t x)
  with assms(2) show ?thesis by (simp add: linear_def calls_before_def)
next
  case (lookup t x)
  with holder [OF assms(1), of t] assms(2) show ?thesis by (simp add: linear_def calls_before_def)
next
  case (update t x match)
  with holder [OF assms(1), of t] assms(2) show ?thesis
    by (simp add: linear_def calls_before_def) (metis option.inject)
next
  case (remove t x match)
  with holder [OF assms(1), of t] assms(2) show ?thesis
    by (auto simp: linear_def calls_before_def deliver_put)
next
  case (store t x)
  with holder [OF assms(1), of t] assms(2) show ?thesis
    by (simp add: linear_def calls_before_def deliver_put)
next
  case (Unlock t x r)
  with assms(2) show ?thesis by (simp add: linear_def calls_before_def results_snoc split_beta)
qed

lemma lock_linear: "lock_reachable s \<Longrightarrow> linear s"
  by (induction rule: lock_reachable.induct) (blast intro: inv_intros lock_exclusive)+

text \<open>The matches among the results are those of the run of the table.\<close>

lemma results_run:
  "results m xs = (rs, m') \<Longrightarrow>
     fst (deliver_all m xs) = [(msg_key x, e). (x, (Some e, True)) \<leftarrow> zip xs rs] \<and>
     snd (deliver_all m xs) = m' \<and> length rs = length xs"
proof (induction xs arbitrary: m rs)
  case (Cons x xs)
  obtain rs1 m1 where r1: "results (snd (deliver m x)) xs = (rs1, m1)" by fastforce
  with Cons.prems have rs: "rs = fst (deliver m x) # rs1" "m' = m1" by (auto simp: split_beta)
  from Cons.IH [of "snd (deliver m x)" rs1] r1 rs show ?case
    by (cases "messages m (msg_key x)") (auto simp: deliver_put split: prod.split)
qed simp

section \<open>Properties\<close>

text \<open>C17: However the goroutines interleave, at most one is inside a critical section, and the calls
  that have returned had the results of the same calls made one after another, in the order
  in which they returned; while no call is inside, the table is the one those calls leave.\<close>

theorem matcher_linearizable:
  assumes "lock_reachable s"
  shows "(\<forall>t u. critical (pcs s t) \<and> critical (pcs s u) \<longrightarrow> t = u) \<and>
    map snd (returned s) = fst (results newRequestResponseMatcher (map fst (returned s))) \<and>
    (mtx s = None \<longrightarrow>
      table s = snd (results newRequestResponseMatcher (map fst (returned s))))"
  using lock_exclusive [OF assms] lock_linear [OF assms]
  by (auto simp: exclusive_def linear_def calls_before_def)

text \<open>A request that stores its entry while a second goroutine waits for the mutex.\<close>

definition sample_msg :: message where
  "sample_msg = ReqMsg 5 1 \<lparr>Method = ''GET'', RequestURI = ''/'', req_ContentLength = 0,
     req_Header = None, req_Body = None\<rparr> 1"

lemma sample_interleaving:
  "\<exists>s. lock_reachable s \<and> returned s = [(sample_msg, (None, False))] \<and>
     pcs s 1 = Acquiring sample_msg \<and> mtx s = None"
proof -
  let ?s0 = init_lock
  let ?s1 = "?s0\<lparr>pcs := (pcs ?s0)(0 := Acquiring sample_msg)\<rparr>"
  let ?s2 = "?s1\<lparr>mtx := Some 0, pcs := (pcs ?s1)(0 := Entered sample_msg)\<rparr>"
  let ?s3 = "?s2\<lparr>pcs := (pcs ?s2)(1 := Acquiring sample_msg)\<rparr>"
  let ?s4 = "?s3\<lparr>pcs := (pcs ?s3)(0 := Looked sample_msg (messages (table ?s3) (msg_key sample_msg)))\<rparr>"
  let ?s5 = "?s4\<lparr>table := put (table ?s4) (msg_key sample_msg) (Some (half sample_msg)),
      pcs := (pcs ?s4)(0 := Leaving sample_msg (None, False))\<rparr>"
  let ?s6 = "?s5\<lparr>mtx := None, pcs := (pcs ?s5)(0 := Ready),
      returned := returned ?s5 @ [(sample_msg, (None, False))]\<rparr>"
  have "lock_step ?s0 ?s1" by (rule call) (simp add: init_lock_def)
  moreover have "lock_step ?s1 ?s2" by (rule Lock) (simp_all add: init_lock_def)
  moreover have "lock_step ?s2 ?s3" by (rule call) (simp add: init_lock_def)
  moreover have "lock_step ?s3 ?s4" by (rule lookup) simp
  moreover have "lock_step ?s4 ?s5" by (rule store) (simp add: init_lock_def newRequestResponseMatcher_def)
  moreover have "lock_step ?s5 ?s6" by (rule Unlock) simp_all
  ultimately have "lock_reachable ?s6" by (meson reach_init reach_step)
  then show ?thesis by (intro exI [of _ ?s6]) (simp add: init_lock_def)
qed

theorem matcher_linearizable_witness:
  "\<exists>s. lock_reachable s \<and> pcs s 1 = Acquiring sample_msg \<and>
     map snd (returned s) = [(None, False)] \<and>
     table s = snd (results newRequestResponseMatcher [sample_msg])"
proof -
  obtain s where s: "lock_reachable s" "returned s = [(sample_msg, (None, False))]"
    "pcs s 1 = Acquiring sample_msg" "mtx s = None" using sample_interleaving by blast
  with matcher_linearizable [OF s(1)] show ?thesis by (intro exI [of _ s]) simp
qed

end
