(* ===== verification/Env.thy ===== *)
theory Env
  imports Go_Std
begin

text \<open>
  \<open>utils/env.go\<close>: reading configuration values from the process environment. The
  environment is a map from names to values; \<open>os.Getenv\<close> reads an unset variable as the
  empty string, \<open>os.LookupEnv\<close> tells the two apart.
\<close>

type_synonym environ = "string \<rightharpoonup> string"

definition os_getenv :: "environ \<Rightarrow> string \<Rightarrow> string" where
  "os_getenv env key = (case env key of None \<Rightarrow> [] | Some v \<Rightarrow> v)"

definition os_lookup_env :: "environ \<Rightarrow> string \<Rightarrow> string \<times> bool" where
  "os_lookup_env env key = (case env key of None \<Rightarrow> ([], False) | Some v \<Rightarrow> (v, True))"

section \<open>The four readers\<close>

definition LookupEnvOrBool :: "environ \<Rightarrow> string \<Rightarrow> bool \<Rightarrow> bool" where
  "LookupEnvOrBool environ key def =
     (let env = os_getenv environ key in
      if env \<noteq> [] then (case parse_bool env of Some b \<Rightarrow> b | None \<Rightarrow> def)
      else def)"

definition LookupEnvOrString :: "environ \<Rightarrow> string \<Rightarrow> string \<Rightarrow> string" where
  "LookupEnvOrString environ key def =
     (let env = os_getenv environ key in if env \<noteq> [] then env else def)"

text \<open>The loop over the comma-separated parts; a part that is not one \<open>k=v\<close> is skipped.\<close>

fun store_pairs :: "(string \<rightharpoonup> string) \<Rightarrow> string list \<Rightarrow> (string \<rightharpoonup> string)" where
  "store_pairs values [] = values"
| "store_pairs values (value # rest) =
     (let parts = split_on CHR ''='' value in
      if length parts = 2 then store_pairs (values(parts ! 0 \<mapsto> parts ! 1)) rest
      else store_pairs values rest)"

definition LookupEnvAsStringMap :: "environ \<Rightarrow> string \<Rightarrow> (string \<rightharpoonup> string)" where
  "LookupEnvAsStringMap environ key =
     (let env = os_getenv environ key in
      if env \<noteq> [] then store_pairs Map.empty (split_on CHR '','' env)
      else Map.empty)"

fun keep_nonempty :: "string list \<Rightarrow> string list \<Rightarrow> string list" where
  "keep_nonempty values [] = values"
| "keep_nonempty values (value # rest) =
     (if value \<noteq> [] then keep_nonempty (values @ [value]) rest else keep_nonempty values rest)"

definition LookupEnvAsStringSlice :: "environ \<Rightarrow> string \<Rightarrow> string list \<times> bool" where
  "LookupEnvAsStringSlice environ key =
     (let (env, found) = os_lookup_env environ key in
      if \<not> found then ([], False)
      else (keep_nonempty [] (split_on CHR '','' env), True))"

section \<open>Facts\<close>

lemma keep_nonempty_filter: "keep_nonempty vs xs = vs @ filter (\<lambda>v. v \<noteq> []) xs"
  by (induction xs arbitrary: vs) auto

text \<open>The parts of an attribute list that the map reader understands, and their meaning.\<close>

definition render_pair :: "string \<times> string \<Rightarrow> string" where
  "render_pair p = fst p @ ''='' @ snd p"

definition plain :: "string \<Rightarrow> bool" where
  "plain s \<longleftrightarrow> CHR ''='' \<notin> set s \<and> CHR '','' \<notin> set s"

lemma split_render_pair: "plain (fst p) \<Longrightarrow> plain (snd p) \<Longrightarrow>
    split_on CHR ''='' (render_pair p) = [fst p, snd p]"
  by (simp add: plain_def render_pair_def split_on_append split_on_plain)

lemma store_pairs_render:
  "\<forall>p \<in> set ps. plain (fst p) \<and> plain (snd p) \<Longrightarrow>
    store_pairs m (map render_pair ps) = write_all m ps"
  by (induction ps arbitrary: m) (auto simp: split_render_pair Let_def)

text \<open>What every entry of the resulting map comes from.\<close>

lemma split_two: "split_on c s = [a, b] \<Longrightarrow> s = a @ c # b \<and> c \<notin> set a \<and> c \<notin> set b"
  using join_split_on [of c s] split_on_parts [of a c s] split_on_parts [of b c s] by auto

lemma length_2_conv: "length xs = 2 \<longleftrightarrow> (\<exists>a b. xs = [a, b])"
  by (auto simp: numeral_2_eq_2 length_Suc_conv)

lemma store_pairs_origin:
  "store_pairs m parts k = Some v \<Longrightarrow>
    m k = Some v \<or> (\<exists>p \<in> set parts. p = k @ ''='' @ v \<and> CHR ''='' \<notin> set k \<and> CHR ''='' \<notin> set v)"
proof (induction parts arbitrary: m)
  case (Cons p parts)
  show ?case
  proof (cases "length (split_on CHR ''='' p) = 2")
    case True
    then obtain a b where ab: "split_on CHR ''='' p = [a, b]" by (auto simp: length_2_conv)
    with Cons.prems have "store_pairs (m(a \<mapsto> b)) parts k = Some v" by simp
    from Cons.IH [OF this] show ?thesis
      using split_two [OF ab] by (auto split: if_splits)
  next
    case False
    with Cons show ?thesis by (simp add: Let_def) blast
  qed
qed simp

lemma join_comma_not_Nil: "ps \<noteq> [] \<Longrightarrow> join '','' (map render_pair ps) \<noteq> []"
  by (cases ps rule: remdups_adj.cases) (auto simp: render_pair_def)

section \<open>Properties\<close>

text \<open>C39: An attribute list written as comma-separated \<open>key=value\<close> pairs is read back as the map
  of those pairs, the last pair of a key winning.\<close>

theorem attribute_map_roundtrip:
  assumes "ps \<noteq> []" and "\<forall>p \<in> set ps. plain (fst p) \<and> plain (snd p)"
  shows "LookupEnvAsStringMap [key \<mapsto> join '','' (map render_pair ps)] key = map_of (rev ps)"
proof -
  have "split_on CHR '','' (join '','' (map render_pair ps)) = map render_pair ps"
    using assms by (intro split_on_join) (auto simp: render_pair_def plain_def)
  with assms show ?thesis
    by (simp add: LookupEnvAsStringMap_def os_getenv_def join_comma_not_Nil store_pairs_render
        write_all_map_of)
qed

theorem attribute_map_roundtrip_witness:
  "LookupEnvAsStringMap [''ADDITIONAL_ATTRIBUTES'' \<mapsto> ''env=dev,team=net,env=prod'']
     ''ADDITIONAL_ATTRIBUTES'' = [''env'' \<mapsto> ''dev'', ''team'' \<mapsto> ''net'', ''env'' \<mapsto> ''prod'']"
  using attribute_map_roundtrip [of "[(''env'', ''dev''), (''team'', ''net''), (''env'', ''prod'')]"
      "''ADDITIONAL_ATTRIBUTES''"]
  by (simp add: plain_def render_pair_def fun_eq_iff)

end
