(* ===== verification/Pcap_Filter.thy ===== *)
theory Pcap_Filter
  imports Go_Std
begin

text \<open>
  The part of the pcap filter language (pcap-filter(7)) in which the capture filter is written:
  its concrete syntax, read from the text, and its meaning on a TCP segment. Numbers are
  unsigned and 32 bits wide; \<open>tcp[off:n]\<close> is the big-endian number in \<open>n\<close> bytes of the
  segment, and a load behind the end of the packet makes the whole filter reject it. It is the
  documentation's, not the program's: nothing here mentions the filter that is built.
\<close>

section \<open>Tokens\<close>

datatype token =
  TNum nat | TWord string
| TLeftBracket | TRightBracket | TLeftParen | TRightParen | TColon | TAnd | TShift | TEqual
| TOther char

definition is_hex :: "char \<Rightarrow> bool" where
  "is_hex c \<longleftrightarrow> is_digit c \<or> 97 \<le> byte_val c \<and> byte_val c \<le> 102"

definition read_hex :: "string \<Rightarrow> nat" where
  "read_hex s = foldl (\<lambda>n c. 16 * n + hex_value c) 0 s"

text \<open>A numeral in decimal without a leading zero, or in hexadecimal behind \<open>0x\<close>; or a word.\<close>

definition word_token :: "string \<Rightarrow> token" where
  "word_token w =
     (if take 2 w = ''0x'' \<and> 2 < length w \<and> list_all is_hex (drop 2 w) then TNum (read_hex (drop 2 w))
      else if list_all is_digit w \<and> (take 1 w \<noteq> ''0'' \<or> w = ''0'') then TNum (read_decimal w)
      else TWord w)"

definition flush_word :: "string \<Rightarrow> token list" where
  "flush_word w = (if w = [] then [] else [word_token w])"

definition symbol_token :: "char \<Rightarrow> token" where
  "symbol_token c =
     (if c = CHR ''['' then TLeftBracket else if c = CHR '']'' then TRightBracket
      else if c = CHR ''('' then TLeftParen else if c = CHR '')'' then TRightParen
      else if c = CHR '':'' then TColon else if c = CHR ''&'' then TAnd
      else if c = CHR ''='' then TEqual else TOther c)"

text \<open>The tokens of a text, behind the letters and digits of the word that is being read.\<close>

fun tokens :: "string \<Rightarrow> string \<Rightarrow> token list" where
  "tokens w [] = flush_word w"
| "tokens w (c # cs) =
     (if is_lower c \<or> is_digit c then tokens (w @ [c]) cs
      else if c = CHR '' '' then flush_word w @ tokens [] cs
      else if c = CHR ''>'' then
        (case cs of
           d # ds \<Rightarrow> if d = CHR ''>'' then flush_word w @ TShift # tokens [] ds
                      else flush_word w @ TOther c # tokens [] (d # ds)
         | [] \<Rightarrow> flush_word w @ [TOther c])
      else flush_word w @ symbol_token c # tokens [] cs)"

section \<open>Expressions\<close>

datatype pcap_exp =
  Number nat
| TcpLoad pcap_exp nat
| BitAnd pcap_exp pcap_exp
| ShiftRight pcap_exp pcap_exp

datatype pcap_filter =
  IsEqual pcap_exp pcap_exp
| PcapOr pcap_filter pcap_filter

text \<open>
  Recursive descent; a shift binds tighter than \<open>&\<close>. The first argument is fuel: every call
  takes one, and three for each token are enough.
\<close>

fun read_and :: "nat \<Rightarrow> token list \<Rightarrow> (pcap_exp \<times> token list) option"
  and read_shift :: "nat \<Rightarrow> token list \<Rightarrow> (pcap_exp \<times> token list) option"
  and read_primary :: "nat \<Rightarrow> token list \<Rightarrow> (pcap_exp \<times> token list) option" where
  "read_and 0 ts = None"
| "read_and (Suc n) ts =
     (case read_shift n ts of
        Some (a, TAnd # ts) \<Rightarrow>
          (case read_and n ts of Some (b, ts) \<Rightarrow> Some (BitAnd a b, ts) | None \<Rightarrow> None)
      | r \<Rightarrow> r)"
| "read_shift 0 ts = None"
| "read_shift (Suc n) ts =
     (case read_primary n ts of
        Some (a, TShift # ts) \<Rightarrow>
          (case read_primary n ts of Some (b, ts) \<Rightarrow> Some (ShiftRight a b, ts) | None \<Rightarrow> None)
      | r \<Rightarrow> r)"
| "read_primary 0 ts = None"
| "read_primary (Suc n) ts =
     (case ts of
        TNum k # ts \<Rightarrow> if k < 2 ^ 32 then Some (Number k, ts) else None
      | TLeftParen # ts \<Rightarrow>
          (case read_and n ts of Some (e, TRightParen # ts) \<Rightarrow> Some (e, ts) | _ \<Rightarrow> None)
      | TWord w # TLeftBracket # ts \<Rightarrow>
          if w = ''tcp'' then
            (case read_and n ts of
               Some (e, TColon # TNum k # TRightBracket # ts) \<Rightarrow>
                 if k = 1 \<or> k = 2 \<or> k = 4 then Some (TcpLoad e k, ts) else None
             | Some (e, TRightBracket # ts) \<Rightarrow> Some (TcpLoad e 1, ts)
             | _ \<Rightarrow> None)
          else None
      | _ \<Rightarrow> None)"

fun read_filter :: "nat \<Rightarrow> token list \<Rightarrow> pcap_filter option" where
  "read_filter 0 ts = None"
| "read_filter (Suc n) ts =
     (case read_and n ts of
        Some (a, TEqual # ts) \<Rightarrow>
          (case read_and n ts of
             Some (b, []) \<Rightarrow> Some (IsEqual a b)
           | Some (b, TWord w # ts) \<Rightarrow>
               if w = ''or'' then map_option (PcapOr (IsEqual a b)) (read_filter n ts) else None
           | _ \<Rightarrow> None)
      | _ \<Rightarrow> None)"

definition pcap_parse :: "string \<Rightarrow> pcap_filter option" where
  "pcap_parse text = (let ts = tokens [] text in read_filter (3 * length ts + 3) ts)"

section \<open>Meaning\<close>

definition big_endian :: "bytes \<Rightarrow> nat" where
  "big_endian bs = foldl (\<lambda>n b. 256 * n + byte_val b) 0 bs"

fun pcap_value :: "pcap_exp \<Rightarrow> bytes \<Rightarrow> uint32 option" where
  "pcap_value (Number k) seg = Some (word_of_nat k)"
| "pcap_value (TcpLoad e n) seg =
     (case pcap_value e seg of
        None \<Rightarrow> None
      | Some off \<Rightarrow>
          if unat off + n \<le> length seg
          then Some (word_of_nat (big_endian (take n (drop (unat off) seg)))) else None)"
| "pcap_value (BitAnd a b) seg =
     (case (pcap_value a seg, pcap_value b seg) of (Some x, Some y) \<Rightarrow> Some (and x y) | _ \<Rightarrow> None)"
| "pcap_value (ShiftRight a b) seg =
     (case (pcap_value a seg, pcap_value b seg) of
        (Some x, Some y) \<Rightarrow> Some (drop_bit (unat y) x) | _ \<Rightarrow> None)"

text \<open>\<open>None\<close> is the rejection by a load; \<open>or\<close> looks at its right side only when the left is false.\<close>

fun pcap_holds :: "pcap_filter \<Rightarrow> bytes \<Rightarrow> bool option" where
  "pcap_holds (IsEqual a b) seg =
     (case (pcap_value a seg, pcap_value b seg) of (Some x, Some y) \<Rightarrow> Some (x = y) | _ \<Rightarrow> None)"
| "pcap_holds (PcapOr f g) seg =
     (case pcap_holds f seg of
        None \<Rightarrow> None
      | Some True \<Rightarrow> Some True
      | Some False \<Rightarrow> pcap_holds g seg)"

definition pcap_accepts :: "pcap_filter \<Rightarrow> bytes \<Rightarrow> bool" where
  "pcap_accepts f seg \<longleftrightarrow> pcap_holds f seg = Some True"

section \<open>Facts\<close>

lemma big_endian_snoc: "big_endian (bs @ [b]) = 256 * big_endian bs + byte_val b"
  by (simp add: big_endian_def)

lemma base_256_digits:
  assumes "x < 256" and "y < 256"
  shows "256 * a + x = 256 * b + y \<longleftrightarrow> a = b \<and> x = (y :: nat)"
proof
  assume eq: "256 * a + x = 256 * b + y"
  have "(256 * a + x) div 256 = a" and "(256 * b + y) div 256 = b" using assms by simp_all
  with eq show "a = b \<and> x = y" by simp
qed simp

lemma big_endian_inj:
  "length a = length b \<Longrightarrow> big_endian a = big_endian b \<longleftrightarrow> a = b"
proof (induction a arbitrary: b rule: rev_induct)
  case (snoc x xs)
  then obtain y ys where b: "b = ys @ [y]" by (cases b rule: rev_cases) auto
  with snoc.prems have "big_endian xs = big_endian ys \<longleftrightarrow> xs = ys"
    by (intro snoc.IH) simp
  then show ?case by (simp add: b big_endian_snoc base_256_digits)
qed simp

lemma big_endian_less: "big_endian bs < 256 ^ length bs"
proof (induction bs rule: rev_induct)
  case (snoc b bs)
  have "256 * big_endian bs + byte_val b < 256 * (big_endian bs + 1)" by simp
  also have "\<dots> \<le> 256 * 256 ^ length bs" using snoc by (intro mult_le_mono2) simp
  finally show ?case by (simp add: big_endian_snoc)
qed (simp add: big_endian_def)

text \<open>Numbers of four bytes are equal as words exactly when the bytes are.\<close>

lemma big_endian_word:
  assumes "length a = 4" and "length b = 4"
  shows "(word_of_nat (big_endian a) :: uint32) = word_of_nat (big_endian b) \<longleftrightarrow> a = b"
proof -
  have "big_endian a < 2 ^ 32" "big_endian b < 2 ^ 32"
    using big_endian_less [of a] big_endian_less [of b] assms by simp_all
  then have "(word_of_nat (big_endian a) :: uint32) = word_of_nat (big_endian b) \<longleftrightarrow>
      big_endian a = big_endian b"
    by (auto simp: word_of_nat_eq_iff take_bit_nat_eq_self)
  with big_endian_inj [of a b] assms show ?thesis by simp
qed

text \<open>The upper half of a byte, shifted by two: four times its value.\<close>

lemma high_nibble_shifted:
  assumes "b < 256"
  shows "drop_bit 2 (and (word_of_nat b :: uint32) (push_bit 4 (mask 4))) = push_bit 2 (word_of_nat (b div 16))"
proof (rule bit_word_eqI)
  fix n assume n: "n < LENGTH(32)"
  have div_16: "bit (b div 16) k \<longleftrightarrow> bit b (Suc (Suc (Suc (Suc k))))" for k
  proof -
    have "bit (b div 16) k \<longleftrightarrow> bit b (4 + k)"
      using bit_drop_bit_eq [of 4 b] by (simp add: drop_bit_eq_div fun_eq_iff)
    moreover have "4 + k = Suc (Suc (Suc (Suc k)))" by simp
    ultimately show ?thesis by metis
  qed
  have high: "\<not> bit b k" if "8 \<le> k" for k
  proof -
    have "b < 2 ^ k" using assms that power_increasing [of 8 k "2 :: nat"] by simp
    then show ?thesis by (simp add: bit_iff_odd)
  qed
  show "bit (drop_bit 2 (and (word_of_nat b :: uint32) (push_bit 4 (mask 4)))) n =
      bit (push_bit 2 (word_of_nat (b div 16) :: uint32)) n"
  proof (cases "2 \<le> n")
    case True
    then obtain m where "n = 2 + m" using le_Suc_ex by blast
    then have m: "n = Suc (Suc m)" by simp
    show ?thesis
      using n high [of "Suc (Suc (Suc (Suc m)))"] by (cases "m < 4") (auto simp: m bit_simps div_16)
  qed (simp add: bit_simps)
qed

lemma high_nibble_times_four:
  assumes "b < 256"
  shows "unat (drop_bit 2 (and (word_of_nat b :: uint32) 0xf0)) = 4 * (b div 16)"
proof -
  have "(0xf0 :: uint32) = push_bit 4 (mask 4)" by (simp add: mask_eq_decr_exp push_bit_eq_mult)
  moreover have "b div 16 < 16" using assms by simp
  ultimately show ?thesis
    using high_nibble_shifted [OF assms] by (simp add: push_bit_eq_mult unat_word_ariths unat_of_nat)
qed

end
