(* ===== verification/Config.thy ===== *)
theory Config
  imports Env Pcap_Filter
begin

text \<open>
  \<open>config/config.go\<close>: the configuration record, its construction from the environment, the
  masking of the API key, the capture filter and the validation. The remote check of the key
  (\<open>libhoney.VerifyAPIKey\<close>) is an argument. Durations are in nanoseconds.
\<close>

record config =
  APIKey :: string
  Endpoint :: string
  Dataset :: string
  StatsDataset :: string
  LogLevel :: string
  Debug :: bool
  DebugAddress :: string
  Lazy :: bool
  Nodefrag :: bool
  Checksum :: bool
  Nooptcheck :: bool
  Ignorefsmerr :: bool
  Allowmissinginit :: bool
  Interface :: string
  Snaplen :: int
  Promiscuous :: bool
  StreamFlushTimeout :: duration
  StreamCloseTimeout :: duration
  PacketSource :: string
  BpfFilter :: string
  ChannelBufferSize :: int
  MaxBufferedPagesTotal :: int
  MaxBufferedPagesPerConnection :: int
  AgentNodeIP :: string
  AgentNodeName :: string
  AgentServiceAccount :: string
  AgentPodIP :: string
  AgentPodName :: string
  AdditionalAttributes :: "string \<rightharpoonup> string"
  IncludeRequestURL :: bool
  HTTPHeadersToExtract :: "string list"
  EventHandlerType :: string

text \<open>The size of the channel; \<open>make\<close> panics on a negative one, so that none is made.\<close>

abbreviation channel_size :: "config \<Rightarrow> nat" where
  "channel_size cfg \<equiv> nat (ChannelBufferSize cfg)"

section \<open>The API key mask\<close>

definition GetMaskedAPIKey :: "config \<Rightarrow> string" where
  "GetMaskedAPIKey c =
     (if length (APIKey c) \<le> 4 then repeat_str ''*'' (length (APIKey c))
      else repeat_str ''*'' (length (APIKey c) - 4) @ drop (length (APIKey c) - 4) (APIKey c))"

section \<open>The capture filter\<close>

definition httpPayloadsStartWith :: "string list" where
  "httpPayloadsStartWith =
     [''GET '', ''POST'', ''PUT '', ''DELE'', ''HEAD'', ''OPTI'', ''PATC'', ''TRAC'', ''CONN'',
      ''HTTP'']"

definition pcapComputeTcpHeaderOffset :: string where
  "pcapComputeTcpHeaderOffset = ''((tcp[12:1] & 0xf0) >> 2)''"

datatype filter_error = NotFourBytes nat

definition pcapTcpPayloadStartsWith :: "string \<Rightarrow> filter_error + string" where
  "pcapTcpPayloadStartsWith s =
     (if length s \<noteq> 4 then Inl (NotFourBytes (length s))
      else Inr (''tcp['' @ pcapComputeTcpHeaderOffset @ '':4] = 0x'' @ hex_encode s))"

fun collect_filters :: "string list \<Rightarrow> string list \<Rightarrow> string list" where
  "collect_filters filters [] = filters"
| "collect_filters filters (method # rest) =
     (case pcapTcpPayloadStartsWith method of
        Inr clause \<Rightarrow> collect_filters (filters @ [clause]) rest
      | Inl err \<Rightarrow> collect_filters filters rest)"

definition buildBpfFilter :: string where
  "buildBpfFilter = join '' or '' (collect_filters [] httpPayloadsStartWith)"

section \<open>Headers to extract, construction, validation\<close>

definition defaultHeadersToExtract :: "string list" where
  "defaultHeadersToExtract = [''User-Agent'', ''Traceparent'']"

definition getHTTPHeadersToExtract :: "environ \<Rightarrow> string list" where
  "getHTTPHeadersToExtract env =
     (let (headers, found) = LookupEnvAsStringSlice env ''HTTP_HEADERS'' in
      if found then headers else defaultHeadersToExtract)"

definition NewConfig :: "environ \<Rightarrow> config" where
  "NewConfig env = \<lparr>
     APIKey = LookupEnvOrString env ''HONEYCOMB_API_KEY'' '''',
     Endpoint = LookupEnvOrString env ''HONEYCOMB_API_ENDPOINT'' ''https://api.honeycomb.io'',
     Dataset = LookupEnvOrString env ''HONEYCOMB_DATASET'' ''hny-network-agent'',
     StatsDataset = LookupEnvOrString env ''HONEYCOMB_STATS_DATASET'' ''hny-network-agent-stats'',
     LogLevel = LookupEnvOrString env ''LOG_LEVEL'' ''INFO'',
     Debug = LookupEnvOrBool env ''DEBUG'' False,
     DebugAddress = LookupEnvOrString env ''DEBUG_ADDRESS'' ''0.0.0.0:6060'',
     Lazy = False,
     Nodefrag = False,
     Checksum = False,
     Nooptcheck = True,
     Ignorefsmerr = True,
     Allowmissinginit = True,
     Interface = ''any'',
     Snaplen = 262144,
     Promiscuous = True,
     StreamFlushTimeout = 10 * second,
     StreamCloseTimeout = 90 * second,
     PacketSource = ''pcap'',
     BpfFilter = buildBpfFilter,
     ChannelBufferSize = 1000,
     MaxBufferedPagesTotal = 150000,
     MaxBufferedPagesPerConnection = 4000,
     AgentNodeIP = LookupEnvOrString env ''AGENT_NODE_IP'' '''',
     AgentNodeName = LookupEnvOrString env ''AGENT_NODE_NAME'' '''',
     AgentServiceAccount = LookupEnvOrString env ''AGENT_SERVICE_ACCOUNT_NAME'' '''',
     AgentPodIP = LookupEnvOrString env ''AGENT_POD_IP'' '''',
     AgentPodName = LookupEnvOrString env ''AGENT_POD_NAME'' '''',
     AdditionalAttributes = LookupEnvAsStringMap env ''ADDITIONAL_ATTRIBUTES'',
     IncludeRequestURL = LookupEnvOrBool env ''INCLUDE_REQUEST_URL'' True,
     HTTPHeadersToExtract = getHTTPHeadersToExtract env,
     EventHandlerType = LookupEnvOrString env ''HANDLER_TYPE'' ''otel'' \<rparr>"

datatype config_error = MissingAPIKeyError | InvalidAPIKeyError

fun config_error_message :: "config_error \<Rightarrow> string" where
  "config_error_message MissingAPIKeyError = ''Missing API key''"
| "config_error_message InvalidAPIKeyError = ''Invalid API key''"

text \<open>
  \<open>errors.Join\<close> of no error is nil (\<open>None\<close>). \<open>verify\<close> is the remote check; it is only
  consulted for the default endpoint.
\<close>

definition errors_join :: "'e list \<Rightarrow> 'e list option" where
  "errors_join es = (if es = [] then None else Some es)"

definition Validate :: "(string \<Rightarrow> bool) \<Rightarrow> config \<Rightarrow> config_error list option" where
  "Validate verify c =
     (let e = (if APIKey c = '''' then [MissingAPIKeyError] else []) in
      if Endpoint c \<noteq> ''https://api.honeycomb.io'' then None
      else errors_join (e @ (if \<not> verify (APIKey c) then [InvalidAPIKeyError] else [])))"

section \<open>Facts about the mask\<close>

lemma length_GetMaskedAPIKey: "length (GetMaskedAPIKey c) = length (APIKey c)"
  by (simp add: GetMaskedAPIKey_def repeat_str_single)

lemma GetMaskedAPIKey_nth:
  "i < length (APIKey c) \<Longrightarrow>
    GetMaskedAPIKey c ! i = (if 4 < length (APIKey c) \<and> length (APIKey c) - 4 \<le> i
      then APIKey c ! i else CHR ''*'')"
  by (auto simp: GetMaskedAPIKey_def repeat_str_single nth_append)

section \<open>Facts about the filter\<close>

definition payload_clause :: "string \<Rightarrow> string" where
  "payload_clause s = ''tcp['' @ pcapComputeTcpHeaderOffset @ '':4] = 0x'' @ hex_encode s"

lemma collect_filters_eq:
  "collect_filters fs ms = fs @ map payload_clause (filter (\<lambda>m. length m = 4) ms)"
  by (induction ms arbitrary: fs) (auto simp: pcapTcpPayloadStartsWith_def payload_clause_def)

text \<open>No entry of the table is silently left out of the filter.\<close>

lemma buildBpfFilter_eq:
  "buildBpfFilter = join '' or '' (map payload_clause httpPayloadsStartWith)"
proof -
  have "filter (\<lambda>m. length m = 4) httpPayloadsStartWith = httpPayloadsStartWith"
    by (simp add: httpPayloadsStartWith_def)
  then show ?thesis by (simp add: buildBpfFilter_def collect_filters_eq)
qed

text \<open>
  The text is read as a filter of the documented language: first its tokens, clause by clause,
  then the expressions.
\<close>

definition word_char :: "char \<Rightarrow> bool" where
  "word_char c \<longleftrightarrow> is_lower c \<or> is_digit c"

lemma tokens_word: "list_all word_char u \<Longrightarrow> tokens w (u @ cs) = tokens (w @ u) cs"
  by (induction u arbitrary: w) (auto simp: word_char_def)

lemma hex_digit_chars: "d < 16 \<Longrightarrow> word_char (hex_digit d) \<and> is_hex (hex_digit d)"
  by (auto simp: word_char_def is_hex_def is_lower_def is_digit_def hex_digit_def)

lemma high_digit: "byte_val b div 16 < 16"
  using byte_val_less [of b] by linarith

lemma hex_encode_chars: "list_all word_char (hex_encode m) \<and> list_all is_hex (hex_encode m)"
  by (induction m) (auto simp: hex_encode_def hex_digit_chars high_digit)

lemma read_hex_encode: "read_hex (hex_encode m) = big_endian m"
proof (induction m rule: rev_induct)
  case (snoc b m)
  have "16 * (byte_val b div 16) + byte_val b mod 16 = byte_val b" by simp
  with snoc show ?case
    by (simp add: hex_encode_def read_hex_def big_endian_snoc hex_value_digit high_digit)
qed (simp add: read_hex_def hex_encode_def big_endian_def)

lemma word_token_hex: "m \<noteq> [] \<Longrightarrow> word_token (''0x'' @ hex_encode m) = TNum (big_endian m)"
  using hex_encode_chars [of m] length_hex_encode [of m]
  by (auto simp: word_token_def read_hex_encode simp del: length_hex_encode)

lemmas char_class_defs =
  is_lower_def is_digit_def byte_val_def symbol_token_def flush_word_def word_token_def is_hex_def
  read_hex_def read_decimal_def hex_value_def

definition header_tokens :: "token list" where
  "header_tokens =
     [TWord ''tcp'', TLeftBracket, TLeftParen, TLeftParen, TWord ''tcp'', TLeftBracket, TNum 12, TColon,
      TNum 1, TRightBracket, TAnd, TNum 0xf0, TRightParen, TShift, TNum 2, TRightParen, TColon, TNum 4,
      TRightBracket, TEqual]"

lemma tokens_header:
  "tokens [] (''tcp['' @ pcapComputeTcpHeaderOffset @ '':4] = 0x'' @ cs) = header_tokens @ tokens ''0x'' cs"
  by (simp add: pcapComputeTcpHeaderOffset_def header_tokens_def char_class_defs)

lemma tokens_clause:
  "m \<noteq> [] \<Longrightarrow> tokens [] (payload_clause m) = header_tokens @ [TNum (big_endian m)]"
  using tokens_header [of "hex_encode m"] tokens_word [of "hex_encode m" "''0x''" "[]"]
    hex_encode_chars [of m] word_token_hex [of m]
  by (simp add: payload_clause_def flush_word_def)

lemma tokens_clause_or:
  assumes "m \<noteq> []"
  shows "tokens [] (payload_clause m @ '' or '' @ cs) =
    header_tokens @ TNum (big_endian m) # TWord ''or'' # tokens [] cs"
proof -
  have "tokens w ('' or '' @ cs) = flush_word w @ TWord ''or'' # tokens [] cs" for w
    by (simp add: char_class_defs)
  with tokens_header [of "hex_encode m @ '' or '' @ cs"] hex_encode_chars [of m] word_token_hex [OF assms]
    tokens_word [of "hex_encode m" "''0x''" "'' or '' @ cs"]
  show ?thesis by (simp add: payload_clause_def flush_word_def)
qed

text \<open>The offset of the payload and the filter the clauses are meant to be.\<close>

definition header_load :: pcap_exp where
  "header_load = TcpLoad (ShiftRight (BitAnd (TcpLoad (Number 12) 1) (Number 0xf0)) (Number 2)) 4"

fun clauses_filter :: "string \<Rightarrow> string list \<Rightarrow> pcap_filter" where
  "clauses_filter m [] = IsEqual header_load (Number (big_endian m))"
| "clauses_filter m (m' # ms) =
     PcapOr (IsEqual header_load (Number (big_endian m))) (clauses_filter m' ms)"

lemma read_header:
  assumes "16 \<le> n"
  shows "read_and n (header_tokens @ ts) = Some (header_load, TEqual # ts)"
proof -
  from assms obtain k where "n = 16 + k" using le_Suc_ex by blast
  also have "16 + k = Suc (Suc (Suc (Suc (Suc (Suc (Suc (Suc (Suc (Suc (Suc (Suc (Suc (Suc (Suc (Suc k)))))))))))))))"
    by simp
  finally show ?thesis by (simp add: header_tokens_def header_load_def)
qed

lemma read_number:
  assumes "16 \<le> n" and "length m = 4" and "ts = [] \<or> (\<exists>w us. ts = TWord w # us)"
  shows "read_and n (TNum (big_endian m) # ts) = Some (Number (big_endian m), ts)"
proof -
  from assms(1) obtain k where "n = 16 + k" using le_Suc_ex by blast
  then have "n = Suc (Suc (Suc (k + 13)))" by simp
  then obtain j where n: "n = Suc (Suc (Suc j))" by blast
  have "big_endian m < 2 ^ 32" using big_endian_less [of m] assms(2) by simp
  with assms(3) show ?thesis unfolding n by auto
qed

lemma read_clauses:
  "\<forall>m' \<in> set (m # ms). length m' = 4 \<Longrightarrow> 17 + length ms \<le> n \<Longrightarrow>
    read_filter n (tokens [] (join '' or '' (map payload_clause (m # ms)))) = Some (clauses_filter m ms)"
proof (induction ms arbitrary: m n)
  case Nil
  then obtain k where "n = Suc k" "16 \<le> k" by (cases n) auto
  moreover from Nil have "m \<noteq> []" "length m = 4" by auto
  ultimately show ?case
    using read_header [of k "[TNum (big_endian m)]"] read_number [of k m "[]"] by (simp add: tokens_clause)
next
  case (Cons m' ms)
  then obtain k where k: "n = Suc k" "16 \<le> k" "17 + length ms \<le> k" by (cases n) auto
  from Cons.prems have m: "m \<noteq> []" "length m = 4" by auto
  let ?rest = "tokens [] (join '' or '' (map payload_clause (m' # ms)))"
  have "tokens [] (join '' or '' (map payload_clause (m # m' # ms))) =
      header_tokens @ TNum (big_endian m) # TWord ''or'' # ?rest"
    using tokens_clause_or [OF m(1), of "join '' or '' (map payload_clause (m' # ms))"] by simp
  moreover have "read_filter k ?rest = Some (clauses_filter m' ms)"
    using Cons k(3) by simp
  ultimately show ?case
    using k m read_header [of k "TNum (big_endian m) # TWord ''or'' # ?rest"]
      read_number [of k m "TWord ''or'' # ?rest"]
    by simp
qed

lemma length_tokens_clauses:
  "\<forall>m' \<in> set (m # ms). m' \<noteq> [] \<Longrightarrow>
    length ms + 21 \<le> length (tokens [] (join '' or '' (map payload_clause (m # ms))))"
proof (induction ms arbitrary: m)
  case Nil
  then show ?case by (simp add: tokens_clause header_tokens_def)
next
  case (Cons m' ms)
  then have "m \<noteq> []" by simp
  note first = tokens_clause_or [OF this, of "join '' or '' (map payload_clause (m' # ms))"]
  have "length ms + 21 \<le> length (tokens [] (join '' or '' (map payload_clause (m' # ms))))"
    using Cons by simp
  with first show ?case by (simp add: header_tokens_def)
qed

text \<open>The text that is built is in the language, and is the disjunction of its clauses.\<close>

lemma parse_clauses:
  assumes "\<forall>m' \<in> set (m # ms). length m' = 4"
  shows "pcap_parse (join '' or '' (map payload_clause (m # ms))) = Some (clauses_filter m ms)"
proof -
  have "\<forall>m' \<in> set (m # ms). m' \<noteq> []" using assms by auto
  from length_tokens_clauses [OF this] show ?thesis
    unfolding pcap_parse_def Let_def by (intro read_clauses [OF assms]) simp
qed

text \<open>What the clauses mean: the load is of the four bytes behind the TCP header.\<close>

definition tcp_header_length :: "bytes \<Rightarrow> nat" where
  "tcp_header_length seg = 4 * (byte_val (seg ! 12) div 16)"

lemma header_load_value:
  "pcap_value header_load seg =
     (if 12 < length seg \<and> tcp_header_length seg + 4 \<le> length seg
      then Some (word_of_nat (big_endian (take 4 (drop (tcp_header_length seg) seg)))) else None)"
proof (cases "12 < length seg")
  case True
  then have "take 1 (drop 12 seg) = [seg ! 12]" by (simp add: take_Suc_conv_app_nth)
  with True have "pcap_value (TcpLoad (Number 12) 1) seg = Some (word_of_nat (byte_val (seg ! 12)))"
    by (simp add: big_endian_def)
  with high_nibble_times_four [of "byte_val (seg ! 12)"] True show ?thesis
    by (simp add: header_load_def tcp_header_length_def)
qed (simp add: header_load_def)

lemma clauses_hold:
  "pcap_value header_load seg = None \<Longrightarrow> pcap_holds (clauses_filter m ms) seg = None"
  "pcap_value header_load seg = Some x \<Longrightarrow>
    pcap_holds (clauses_filter m ms) seg = Some (\<exists>m' \<in> set (m # ms). x = word_of_nat (big_endian m'))"
proof -
  show "pcap_holds (clauses_filter m ms) seg = None" if "pcap_value header_load seg = None"
    using that by (cases ms) simp_all
  show "pcap_holds (clauses_filter m ms) seg = Some (\<exists>m' \<in> set (m # ms). x = word_of_nat (big_endian m'))"
    if "pcap_value header_load seg = Some x"
    using that
  proof (induction ms arbitrary: m)
    case (Cons m' ms)
    then show ?case by (cases "x = word_of_nat (big_endian m)") simp_all
  qed simp
qed

lemma clauses_accept:
  assumes "\<forall>m' \<in> set (m # ms). length m' = 4"
  shows "pcap_accepts (clauses_filter m ms) seg \<longleftrightarrow>
    12 < length seg \<and> (\<exists>m' \<in> set (m # ms). prefix m' (drop (tcp_header_length seg) seg))"
proof (cases "12 < length seg \<and> tcp_header_length seg + 4 \<le> length seg")
  case True
  let ?four = "take 4 (drop (tcp_header_length seg) seg)"
  have "length ?four = 4" using True by (simp add: min_def) linarith
  then have "(\<exists>m' \<in> set (m # ms). (word_of_nat (big_endian ?four) :: uint32) = word_of_nat (big_endian m')) \<longleftrightarrow>
      (\<exists>m' \<in> set (m # ms). ?four = m')"
    using assms by (intro bex_cong refl big_endian_word) auto
  also have "\<dots> \<longleftrightarrow> (\<exists>m' \<in> set (m # ms). prefix m' (drop (tcp_header_length seg) seg))"
    using assms by (intro bex_cong refl) (metis append_eq_conv_conj prefix_def take_is_prefix)
  finally show ?thesis
    using True clauses_hold(2) [of seg "word_of_nat (big_endian ?four)" m ms]
    by (simp add: pcap_accepts_def header_load_value)
next
  case False
  have "\<not> prefix m' (drop (tcp_header_length seg) seg)" if "m' \<in> set (m # ms)" "12 < length seg" for m'
  proof
    assume "prefix m' (drop (tcp_header_length seg) seg)"
    with that(1) assms have "4 \<le> length seg - tcp_header_length seg" by (metis length_drop prefix_length_le)
    with False that(2) show False by simp
  qed
  with False clauses_hold(1) [of seg m ms] show ?thesis
    by (auto simp: pcap_accepts_def header_load_value)
qed

section \<open>Properties\<close>

text \<open>C38: The masked key shows the length of the API key and, of a key longer than four characters,
  its last four characters, and nothing else: two keys have the same mask exactly when they
  agree on those.\<close>

theorem mask_reveals_length_and_last_four:
  "GetMaskedAPIKey c = GetMaskedAPIKey c' \<longleftrightarrow>
     length (APIKey c) = length (APIKey c') \<and>
     (if 4 < length (APIKey c)
      then drop (length (APIKey c) - 4) (APIKey c) = drop (length (APIKey c') - 4) (APIKey c')
      else True)"
proof -
  have "GetMaskedAPIKey c = GetMaskedAPIKey c' \<Longrightarrow> length (APIKey c) = length (APIKey c')"
    by (metis length_GetMaskedAPIKey)
  then show ?thesis by (auto simp: GetMaskedAPIKey_def repeat_str_single)
qed

text \<open>C28: The capture filter accepts exactly the TCP segments whose payload starts with one of the nine
  method prefixes or with \<open>HTTP\<close>, the payload being what follows the header whose length the upper
  half of byte 12 gives in units of four bytes; for every filter engine that gives the texts of
  the pcap filter language their documented meaning.\<close>

theorem filter_accepts_http_payloads:
  assumes pcap: "\<And>text f seg. pcap_parse text = Some f \<Longrightarrow> accepts text seg = pcap_accepts f seg"
  shows "accepts buildBpfFilter seg \<longleftrightarrow>
    12 < length seg \<and>
    (\<exists>m \<in> {''GET '', ''POST'', ''PUT '', ''DELE'', ''HEAD'', ''OPTI'', ''PATC'', ''TRAC'', ''CONN'', ''HTTP''}.
       prefix m (drop (4 * (byte_val (seg ! 12) div 16)) seg))"
proof -
  let ?ms = "[''POST'', ''PUT '', ''DELE'', ''HEAD'', ''OPTI'', ''PATC'', ''TRAC'', ''CONN'', ''HTTP'']"
  have table: "httpPayloadsStartWith = ''GET '' # ?ms" by (simp add: httpPayloadsStartWith_def)
  have four: "\<forall>m \<in> set (''GET '' # ?ms). length m = 4" by simp
  have "accepts buildBpfFilter seg = pcap_accepts (clauses_filter ''GET '' ?ms) seg"
    using pcap [OF parse_clauses [OF four]] unfolding buildBpfFilter_eq table .
  also have "\<dots> \<longleftrightarrow> 12 < length seg \<and>
      (\<exists>m \<in> set (''GET '' # ?ms). prefix m (drop (tcp_header_length seg) seg))"
    by (rule clauses_accept [OF four])
  finally show ?thesis by (simp add: tcp_header_length_def)
qed

text \<open>A segment with a header of 20 bytes: its byte 12 is the character P, 0x50.\<close>

theorem filter_accepts_http_payloads_witness:
  "case pcap_parse buildBpfFilter of
     None \<Rightarrow> False | Some f \<Rightarrow> pcap_accepts f ''portportseqsP-------GET / HTTP/1.1''"
proof -
  let ?accepts = "\<lambda>text seg. case pcap_parse text of None \<Rightarrow> False | Some f \<Rightarrow> pcap_accepts f seg"
  let ?seg = "''portportseqsP-------GET / HTTP/1.1''"
  have "drop (4 * (byte_val (?seg ! 12) div 16)) ?seg = ''GET / HTTP/1.1''" by (simp add: byte_val_def)
  with filter_accepts_http_payloads [of ?accepts ?seg] show ?thesis by simp
qed

text \<open>Validation succeeds exactly for another endpoint than the default one, or for a present
  key that the remote check accepts; otherwise it reports a missing key before an invalid one.\<close>

lemma validate_outcome:
  "(Validate verify c = None \<longleftrightarrow>
      (if Endpoint c = ''https://api.honeycomb.io''
       then APIKey c \<noteq> '''' \<and> verify (APIKey c) else True)) \<and>
   (case Validate verify c of
      None \<Rightarrow> True
    | Some errors \<Rightarrow>
        errors \<in> {[MissingAPIKeyError], [InvalidAPIKeyError], [MissingAPIKeyError, InvalidAPIKeyError]} \<and>
        (MissingAPIKeyError \<in> set errors \<longleftrightarrow> APIKey c = '''') \<and>
        (InvalidAPIKeyError \<in> set errors \<longleftrightarrow> \<not> verify (APIKey c)))"
  by (auto simp: Validate_def errors_join_def Let_def)

text \<open>Whatever the environment holds, a new configuration has a capture filter, a debug address
  and positive buffer and timeouts, and it flushes a stream before it closes it; the checks
  that could reject packets are switched off.\<close>

lemma new_config_consistent:
  "BpfFilter (NewConfig env) \<noteq> '''' \<and> DebugAddress (NewConfig env) \<noteq> '''' \<and>
   PacketSource (NewConfig env) = ''pcap'' \<and> 0 < ChannelBufferSize (NewConfig env) \<and>
   0 < StreamFlushTimeout (NewConfig env) \<and>
   StreamFlushTimeout (NewConfig env) < StreamCloseTimeout (NewConfig env) \<and>
   Nooptcheck (NewConfig env) \<and> Ignorefsmerr (NewConfig env) \<and> \<not> Checksum (NewConfig env)"
proof -
  have "buildBpfFilter \<noteq> []"
    by (simp add: buildBpfFilter_eq httpPayloadsStartWith_def payload_clause_def)
  then show ?thesis
    by (simp add: NewConfig_def LookupEnvOrString_def second_def Let_def)
qed

end
