(* ===== verification/Parser.thy ===== *)
theory Parser
  imports Config Events
begin

text \<open>
  \<open>assemblers/parser.go\<close> and the stream record of \<open>assemblers/tcp_stream.go\<close>, which the
  parsers receive. The Go interface \<open>parser\<close> is a function argument of the code that calls
  it; its contract is the locale \<open>message_parser\<close>. A call reads from the buffered reader
  (the unread bytes) and may send events to the stream's channel; the events are returned in
  the order they are sent.
\<close>

datatype io_error = EOF | ErrUnexpectedEOF | OtherError string

text \<open>
  The stream. \<open>'fsm\<close> and \<open>'opt\<close> are the state of gopacket's connection state machine and
  option checker, \<open>'p\<close> the state of a parser. The events channel is not a field: what is
  sent on it is a result of the operations.
\<close>

record ('fsm, 'opt, 'p) tcpStream =
  id :: uint64
  ident :: string
  stream_config :: config
  tcpstate :: 'fsm
  fsmerr :: bool
  optchecker :: 'opt
  srcIP :: string
  dstIP :: string
  srcPort :: string
  dstPort :: string
  buffer :: bytes
  parsers :: "'p list"

text \<open>The result of one call: Go's pair of a flag and an error, and the effects.\<close>

record 'p parsed =
  success :: bool
  err :: "io_error option"
  new_parser :: 'p
  rest :: bytes
  sent :: "Event list"

type_synonym ('s, 'p) parse_fun =
  "'p \<Rightarrow> 's \<Rightarrow> int64 \<Rightarrow> time \<Rightarrow> bool \<Rightarrow> bytes \<Rightarrow> int \<Rightarrow> 'p parsed"

text \<open>
  The contract of a parser: a call returns (true, nil) or (false, error); a failed call
  sends nothing and leaves the parser as it was; a successful one sends at most one event,
  which carries the request id and the addresses of its stream.
\<close>

locale message_parser =
  fixes pf :: "(('fsm, 'opt, 'p) tcpStream, 'p) parse_fun"
  assumes outcome: "success (pf p st rid ts c buf n) \<longleftrightarrow> err (pf p st rid ts c buf n) = None"
    and failed: "err (pf p st rid ts c buf n) \<noteq> None \<Longrightarrow>
      new_parser (pf p st rid ts c buf n) = p \<and> sent (pf p st rid ts c buf n) = []"
    and one_event: "length (sent (pf p st rid ts c buf n)) \<le> 1"
    and event_origin: "e \<in> set (sent (pf p st rid ts c buf n)) \<Longrightarrow>
      StreamIdent e = ident st \<and> RequestId e = rid \<and> SrcIp e = srcIP st \<and> DstIp e = dstIP st"

end
