(* ===== verification/Http_Parser.thy ===== *)
theory Http_Parser
  imports Parser Http_Matcher
begin

text \<open>
  \<open>assemblers/http_parser.go\<close>: a message is read with \<open>net/http\<close>, its headers are reduced
  to the configured ones, its body is closed, and it is given to the matcher; a match is sent
  as an event. The message grammar of \<open>net/http\<close> is the argument \<open>http_lib\<close>: what
  \<open>ReadRequest\<close> and \<open>ReadResponse\<close> make of the unread bytes and what they leave unread, and
  what closing a body leaves unread.
\<close>

record http_lib =
  ReadRequest :: "bytes \<Rightarrow> (io_error + request) \<times> bytes"
  ReadResponse :: "bytes \<Rightarrow> (io_error + response) \<times> bytes"
  CloseBody :: "bytes \<Rightarrow> bytes"

record httpParser =
  matcher :: httpMatcher
  headersToExtract :: "string list"

definition newHttpParser :: "string list \<Rightarrow> httpParser" where
  "newHttpParser headers =
     \<lparr>matcher = newRequestResponseMatcher, headersToExtract = headers\<rparr>"

section \<open>Header extraction\<close>

fun extract_loop :: "http_header \<Rightarrow> header \<Rightarrow> string list \<Rightarrow> header" where
  "extract_loop h cleanHeader [] = cleanHeader"
| "extract_loop h cleanHeader (headerName # names) =
     (let headerValue = header_get h headerName in
      if headerValue \<noteq> [] then extract_loop h (header_set cleanHeader headerName headerValue) names
      else extract_loop h cleanHeader names)"

definition extractHeaders :: "httpParser \<Rightarrow> http_header \<Rightarrow> header" where
  "extractHeaders p h =
     (if h = None then Map.empty else extract_loop h Map.empty (headersToExtract p))"

section \<open>One message\<close>

definition match_event :: "('fsm, 'opt, 'p) tcpStream \<Rightarrow> int64 \<Rightarrow> entry \<Rightarrow> HttpEvent" where
  "match_event st rid e = NewHttpEvent
     (ident st) rid
     (entry_requestTimestamp e) (entry_responseTimestamp e)
     (entry_requestPacketCount e) (entry_responsePacketCount e)
     (srcIP st) (dstIP st)
     (entry_request e) (entry_response e)"

definition send_match ::
  "('fsm, 'opt, 'p) tcpStream \<Rightarrow> int64 \<Rightarrow> entry option \<times> bool \<Rightarrow> Event list" where
  "send_match st rid r =
     (case r of (Some e, True) \<Rightarrow> [EvHttp (match_event st rid e)] | _ \<Rightarrow> [])"

definition parse :: "http_lib \<Rightarrow> (('fsm, 'opt, httpParser) tcpStream, httpParser) parse_fun" where
  "parse lib p stream rid timestamp isClient buf packetCount =
     (if isClient then
        (case ReadRequest lib buf of
           (Inl e, buf) \<Rightarrow>
             \<lparr>success = False, err = Some e, new_parser = p, rest = buf, sent = []\<rparr>
         | (Inr req, buf) \<Rightarrow>
             (let req = req\<lparr>req_Header := Some (extractHeaders p (req_Header req))\<rparr>;
                  (req, buf) = (if req_Body req \<noteq> None
                                then (req\<lparr>req_Body := Some BodyClosed\<rparr>, CloseBody lib buf)
                                else (req, buf));
                  (found, m) = GetOrStoreRequest (matcher p) rid timestamp (Some req) packetCount
              in \<lparr>success = True, err = None, new_parser = p\<lparr>matcher := m\<rparr>, rest = buf,
                  sent = send_match stream rid found\<rparr>))
      else
        (case ReadResponse lib buf of
           (Inl e, buf) \<Rightarrow>
             \<lparr>success = False, err = Some e, new_parser = p, rest = buf, sent = []\<rparr>
         | (Inr res, buf) \<Rightarrow>
             (let res = res\<lparr>res_Header := Some (extractHeaders p (res_Header res))\<rparr>;
                  (res, buf) = (if res_Body res \<noteq> None
                                then (res\<lparr>res_Body := Some BodyClosed\<rparr>, CloseBody lib buf)
                                else (res, buf));
                  (found, m) = GetOrStoreResponse (matcher p) rid timestamp (Some res) packetCount
              in \<lparr>success = True, err = None, new_parser = p\<lparr>matcher := m\<rparr>, rest = buf,
                  sent = send_match stream rid found\<rparr>)))"

section \<open>What extraction keeps\<close>

text \<open>The first value of a field, if it has a non-empty one.\<close>

definition first_value :: "http_header \<Rightarrow> string \<Rightarrow> string list option" where
  "first_value h k =
     (case header_map h k of Some (v # vs) \<Rightarrow> if v = [] then None else Some [v] | _ \<Rightarrow> None)"

lemma header_get_first: "header_get h n \<noteq> [] \<longleftrightarrow> first_value h (canonical_key n) = Some [header_get h n]"
  and header_get_none: "header_get h n = [] \<longleftrightarrow> first_value h (canonical_key n) = None"
  by (auto simp: header_get_def first_value_def split: option.splits list.splits)

lemma extract_loop_eq:
  "extract_loop h c names k =
     (if k \<in> canonical_key ` set names \<and> first_value h k \<noteq> None then first_value h k else c k)"
proof (induction names arbitrary: c)
  case (Cons n ns)
  show ?case
  proof (cases "header_get h n = []")
    case True
    with Cons show ?thesis by (auto simp: header_get_none)
  next
    case False
    then have "first_value h (canonical_key n) = Some [header_get h n]"
      by (simp add: header_get_first)
    with False Cons show ?thesis by (auto simp: header_set_def)
  qed
qed simp

lemma extractHeaders_eq:
  "extractHeaders p h k =
     (if k \<in> canonical_key ` set (headersToExtract p) then first_value h k else None)"
  by (auto simp: extractHeaders_def extract_loop_eq first_value_def)

lemma first_value_extracted:
  "first_value (Some (extractHeaders p h)) k = extractHeaders p h k"
  by (auto simp: first_value_def extractHeaders_eq split: option.splits list.splits if_splits)

section \<open>Parsing as delivery to the matcher\<close>

text \<open>
  The message a call reads, as a value of the matcher's history: what is read, reduced to the
  configured headers, with its body closed.
\<close>

definition clean_request :: "httpParser \<Rightarrow> request \<Rightarrow> request" where
  "clean_request p req =
     (let req = req\<lparr>req_Header := Some (extractHeaders p (req_Header req))\<rparr>
      in if req_Body req \<noteq> None then req\<lparr>req_Body := Some BodyClosed\<rparr> else req)"

definition clean_response :: "httpParser \<Rightarrow> response \<Rightarrow> response" where
  "clean_response p res =
     (let res = res\<lparr>res_Header := Some (extractHeaders p (res_Header res))\<rparr>
      in if res_Body res \<noteq> None then res\<lparr>res_Body := Some BodyClosed\<rparr> else res)"

definition read_message ::
  "http_lib \<Rightarrow> httpParser \<Rightarrow> int64 \<Rightarrow> time \<Rightarrow> bool \<Rightarrow> bytes \<Rightarrow> int \<Rightarrow> io_error + message" where
  "read_message lib p rid ts isClient buf n =
     (if isClient then
        (case fst (ReadRequest lib buf) of
           Inl e \<Rightarrow> Inl e | Inr req \<Rightarrow> Inr (ReqMsg rid ts (clean_request p req) n))
      else
        (case fst (ReadResponse lib buf) of
           Inl e \<Rightarrow> Inl e | Inr res \<Rightarrow> Inr (ResMsg rid ts (clean_response p res) n)))"

lemma parse_failed:
  assumes "read_message lib p rid ts c buf n = Inl e"
  shows "success (parse lib p st rid ts c buf n) = False"
    and "err (parse lib p st rid ts c buf n) = Some e"
    and "new_parser (parse lib p st rid ts c buf n) = p"
    and "sent (parse lib p st rid ts c buf n) = []"
  using assms
  by (auto simp: parse_def read_message_def Let_def split: if_splits prod.splits sum.splits)

lemma parse_delivers:
  assumes "read_message lib p rid ts c buf n = Inr x"
  shows "success (parse lib p st rid ts c buf n) = True"
    and "err (parse lib p st rid ts c buf n) = None"
    and "new_parser (parse lib p st rid ts c buf n) = p\<lparr>matcher := snd (deliver (matcher p) x)\<rparr>"
    and "sent (parse lib p st rid ts c buf n) = send_match st rid (fst (deliver (matcher p) x))"
  using assms
  by (auto simp: parse_def read_message_def clean_request_def clean_response_def Let_def
      split: if_splits prod.splits sum.splits)

lemma read_message_key: "read_message lib p rid ts c buf n = Inr x \<Longrightarrow> msg_key x = rid \<and> is_request x = c"
  by (auto simp: read_message_def split: if_splits sum.splits)

lemma read_message_table:
  "read_message lib (p\<lparr>matcher := m\<rparr>) rid ts c buf n = read_message lib p rid ts c buf n"
  by (auto simp: read_message_def clean_request_def clean_response_def extractHeaders_def
      split: sum.splits)

lemma parse_headers_kept [frame_simps]:
  "headersToExtract (new_parser (parse lib p st rid ts c buf n)) = headersToExtract p"
  by (cases "read_message lib p rid ts c buf n") (simp_all add: parse_failed parse_delivers)

lemma match_event_fields [simp]:
  "streamIdent (match_event st rid e) = ident st" "requestId (match_event st rid e) = rid"
  "srcIp (match_event st rid e) = srcIP st" "dstIp (match_event st rid e) = dstIP st"
  "request (match_event st rid e) = entry_request e"
  "response (match_event st rid e) = entry_response e"
  "requestTimestamp (match_event st rid e) = entry_requestTimestamp e"
  "responseTimestamp (match_event st rid e) = entry_responseTimestamp e"
  "requestPacketCount (match_event st rid e) = entry_requestPacketCount e"
  "responsePacketCount (match_event st rid e) = entry_responsePacketCount e"
  by (simp_all add: match_event_def NewHttpEvent_def)

lemma length_send_match: "length (send_match st rid r) \<le> Suc 0"
  by (auto simp: send_match_def split: prod.splits option.splits bool.splits)

lemma set_send_match:
  "e \<in> set (send_match st rid r) \<longleftrightarrow> (\<exists>m. r = (Some m, True) \<and> e = EvHttp (match_event st rid m))"
  by (auto simp: send_match_def split: prod.splits option.splits bool.splits)

text \<open>The HTTP parser provides the parser interface.\<close>

interpretation http: message_parser "parse lib" for lib :: http_lib
proof
  fix p st rid ts c buf n e
  show "success (parse lib p st rid ts c buf n) \<longleftrightarrow> err (parse lib p st rid ts c buf n) = None"
    by (cases "read_message lib p rid ts c buf n") (simp_all add: parse_failed parse_delivers)
  show "length (sent (parse lib p st rid ts c buf n)) \<le> 1"
    by (cases "read_message lib p rid ts c buf n")
      (simp_all add: parse_failed parse_delivers length_send_match)
  show "new_parser (parse lib p st rid ts c buf n) = p \<and> sent (parse lib p st rid ts c buf n) = []"
    if "err (parse lib p st rid ts c buf n) \<noteq> None"
    using that
    by (cases "read_message lib p rid ts c buf n") (simp_all add: parse_failed parse_delivers)
  show "StreamIdent e = ident st \<and> RequestId e = rid \<and> SrcIp e = srcIP st \<and> DstIp e = dstIP st"
    if "e \<in> set (sent (parse lib p st rid ts c buf n))"
    using that
    by (cases "read_message lib p rid ts c buf n")
      (auto simp: parse_failed parse_delivers set_send_match)
qed

section \<open>What the parser retains\<close>

text \<open>
  The comments of the code state why headers are rebuilt and bodies closed: a stored message
  stays in memory until its counterpart arrives. The invariant says that nothing else stays.
\<close>

definition reduced_header :: "string list \<Rightarrow> http_header \<Rightarrow> bool" where
  "reduced_header names h \<longleftrightarrow> (\<exists>m. h = Some m \<and> dom m \<subseteq> canonical_key ` set names \<and>
     (\<forall>vs \<in> ran m. \<exists>v. vs = [v] \<and> v \<noteq> []))"

definition retained_request :: "string list \<Rightarrow> request \<Rightarrow> bool" where
  "retained_request names r \<longleftrightarrow> reduced_header names (req_Header r) \<and> req_Body r \<noteq> Some BodyOpen"

definition retained_response :: "string list \<Rightarrow> response \<Rightarrow> bool" where
  "retained_response names r \<longleftrightarrow> reduced_header names (res_Header r) \<and> res_Body r \<noteq> Some BodyOpen"

definition retained_entry :: "string list \<Rightarrow> entry \<Rightarrow> bool" where
  "retained_entry names e \<longleftrightarrow>
     (\<forall>r. entry_request e = Some r \<longrightarrow> retained_request names r) \<and>
     (\<forall>r. entry_response e = Some r \<longrightarrow> retained_response names r)"

definition retained_message :: "string list \<Rightarrow> message \<Rightarrow> bool" where
  "retained_message names x \<longleftrightarrow> retained_entry names (half x)"

definition parser_inv :: "httpParser \<Rightarrow> bool" where
  "parser_inv p \<longleftrightarrow> matcher_inv (matcher p) \<and>
     (\<forall>k e. messages (matcher p) k = Some e \<longrightarrow> retained_entry (headersToExtract p) e)"

lemma first_value_Some: "first_value h k = Some vs \<Longrightarrow> \<exists>v. vs = [v] \<and> v \<noteq> []"
  by (auto simp: first_value_def split: option.splits list.splits if_splits)

lemma reduced_extractHeaders: "reduced_header (headersToExtract p) (Some (extractHeaders p h))"
  using first_value_Some by (fastforce simp: reduced_header_def extractHeaders_eq ran_def split: if_splits)

lemma retained_read:
  "read_message lib p rid ts c buf n = Inr x \<Longrightarrow> retained_message (headersToExtract p) x"
  by (auto simp: read_message_def retained_message_def retained_entry_def retained_request_def
      retained_response_def clean_request_def clean_response_def half_def zero_entry_def Let_def
      reduced_extractHeaders split: if_splits sum.splits)

lemma retained_fill:
  "retained_message names x \<Longrightarrow> retained_entry names e \<Longrightarrow> retained_entry names (fill x e)"
  by (cases x) (auto simp: retained_message_def retained_entry_def half_def zero_entry_def)

lemma parser_inv_new [inv_intros]: "parser_inv (newHttpParser hs)"
  by (simp add: parser_inv_def newHttpParser_def inv_intros)

lemma retained_deliver:
  assumes "parser_inv p" and "retained_message (headersToExtract p) x"
  shows "parser_inv (p\<lparr>matcher := snd (deliver (matcher p) x)\<rparr>)"
    and "deliver (matcher p) x = ((Some e, b), m) \<Longrightarrow>
      retained_entry (headersToExtract p) e \<and> entry_coherent e"
proof -
  have "matcher_inv (snd (deliver (matcher p) x))"
    using assms(1) by (simp add: parser_inv_def matcher_inv_deliver)
  then show "parser_inv (p\<lparr>matcher := snd (deliver (matcher p) x)\<rparr>)"
    using assms by (auto simp: parser_inv_def deliver_fill retained_message_def
        split: option.splits if_splits)
  assume "deliver (matcher p) x = ((Some e, b), m)"
  moreover from this have "entry_coherent e"
    using assms(1) deliver_match_coherent by (auto simp: parser_inv_def)
  ultimately show "retained_entry (headersToExtract p) e \<and> entry_coherent e"
    using assms by (auto simp: deliver_fill parser_inv_def retained_fill split: option.splits)
qed

lemma parser_inv_parse [inv_intros]:
  assumes "parser_inv p"
  shows "parser_inv (new_parser (parse lib p st rid ts c buf n))"
proof (cases "read_message lib p rid ts c buf n")
  case (Inl e)
  with assms show ?thesis by (simp add: parse_failed)
next
  case (Inr x)
  with assms show ?thesis by (simp add: parse_delivers retained_deliver(1) retained_read)
qed

lemma parse_sent_retained:
  assumes "parser_inv p" and "EvHttp e \<in> set (sent (parse lib p st rid ts c buf n))"
  shows "(\<forall>r. request e = Some r \<longrightarrow> retained_request (headersToExtract p) r) \<and>
    (\<forall>r. response e = Some r \<longrightarrow> retained_response (headersToExtract p) r) \<and> halves_coherent e"
proof (cases "read_message lib p rid ts c buf n")
  case (Inl err)
  with assms(2) show ?thesis by (simp add: parse_failed)
next
  case (Inr x)
  with assms(2) obtain m where "fst (deliver (matcher p) x) = (Some m, True)"
    and e: "e = match_event st rid m" by (auto simp: parse_delivers set_send_match)
  then have "deliver (matcher p) x = ((Some m, True), snd (deliver (matcher p) x))"
    by (metis prod.collapse)
  from retained_deliver(2) [OF assms(1) retained_read [OF Inr] this] e show ?thesis
    by (simp add: retained_entry_def halves_coherent_def entry_coherent_def)
qed

section \<open>Properties\<close>

text \<open>C34: Header extraction keeps exactly the configured fields that the message has with a
  non-empty first value, each under its canonical name and with that one value.\<close>

theorem extractHeaders_exact:
  "extractHeaders p h k =
     (if k \<in> canonical_key ` set (headersToExtract p) then first_value h k else None)"
  by (rule extractHeaders_eq)

text \<open>The letter case of the configured header names does not matter.\<close>

lemma extraction_ignores_case:
  assumes "list_all2 (\<lambda>a b. list_all valid_header_byte a \<and> map lower_byte a = map lower_byte b)
      (headersToExtract p) (headersToExtract q)"
  shows "extractHeaders p h = extractHeaders q h"
proof -
  have "map canonical_key (headersToExtract p) = map canonical_key (headersToExtract q)"
    using assms by (induction rule: list_all2_induct) (simp_all add: canonical_key_case)
  then have "canonical_key ` set (headersToExtract p) = canonical_key ` set (headersToExtract q)"
    by (metis set_map)
  then show ?thesis by (simp add: fun_eq_iff extractHeaders_eq)
qed

text \<open>
  The table after a message: an entry that waits under the key is taken out, otherwise the
  message waits there alone.
\<close>

definition table_after :: "(int64 \<rightharpoonup> entry) \<Rightarrow> int64 \<Rightarrow> entry \<Rightarrow> (int64 \<rightharpoonup> entry)" where
  "table_after table key alone = table(key := (case table key of None \<Rightarrow> Some alone | Some waiting \<Rightarrow> None))"

text \<open>The configured fields of a header that have a non-empty first value, with that value only.\<close>

definition kept_fields :: "string list \<Rightarrow> http_header \<Rightarrow> header" where
  "kept_fields names h =
     (\<lambda>k. if k \<in> canonical_key ` set names
          then (case header_map h k of Some (v # vs) \<Rightarrow> if v = '''' then None else Some [v] | _ \<Rightarrow> None)
          else None)"

lemma extractHeaders_kept: "extractHeaders p h = kept_fields (headersToExtract p) h"
  by (rule ext) (simp add: kept_fields_def extractHeaders_eq first_value_def)

lemma no_body_to_close:
  "req_Body r = None \<Longrightarrow> r\<lparr>req_Header := h, req_Body := None\<rparr> = r\<lparr>req_Header := h\<rparr>"
  "res_Body r' = None \<Longrightarrow> r'\<lparr>res_Header := h, res_Body := None\<rparr> = r'\<lparr>res_Header := h\<rparr>"
  by (cases r, simp) (cases r', simp)

lemma parser_table:
  "p\<lparr>matcher := (matcher p)\<lparr>messages := t\<rparr>\<rparr> =
     \<lparr>matcher = \<lparr>messages = t\<rparr>, headersToExtract = headersToExtract p\<rparr>"
  by (cases p; cases "matcher p") simp

lemmas parse_parts = parse_def GetOrStoreRequest_def GetOrStoreResponse_def send_match_def match_event_def
  NewHttpEvent_def zero_entry_def table_after_def extractHeaders_kept no_body_to_close parser_table

text \<open>C26: One call of the parser. What cannot be read is an error that changes nothing and sends
  nothing. A message that is read keeps only the configured fields, each with its first value,
  and its body is closed if it has one. If no message waits under the request id, this one does
  from now on, with its time and packets and nothing sent; otherwise the waiting one is taken
  out and one event is sent, with the stream's identity and addresses, this message's half from
  this call and the other half as it was stored.\<close>

theorem parse_outcome:
  "if isClient then
     (case ReadRequest lib buf of
        (Inl e, left) \<Rightarrow> parse lib p st rid ts isClient buf n =
          \<lparr>success = False, err = Some e, new_parser = p, rest = left, sent = []\<rparr>
      | (Inr req, left) \<Rightarrow>
          (let r = req\<lparr>req_Header := Some (kept_fields (headersToExtract p) (req_Header req)),
                       req_Body := map_option (\<lambda>_. BodyClosed) (req_Body req)\<rparr>
           in parse lib p st rid ts isClient buf n =
             \<lparr>success = True, err = None,
              new_parser = \<lparr>matcher = \<lparr>messages = table_after (messages (matcher p)) rid
                  \<lparr>entry_request = Some r, entry_requestTimestamp = ts, entry_response = None,
                   entry_responseTimestamp = 0, entry_requestPacketCount = n, entry_responsePacketCount = 0\<rparr>\<rparr>,
                headersToExtract = headersToExtract p\<rparr>,
              rest = (if req_Body req = None then left else CloseBody lib left),
              sent = (case messages (matcher p) rid of
                  None \<Rightarrow> []
                | Some other \<Rightarrow> [EvHttp
                    \<lparr>streamIdent = ident st, requestId = rid, requestTimestamp = ts,
                     responseTimestamp = entry_responseTimestamp other, requestPacketCount = n,
                     responsePacketCount = entry_responsePacketCount other, srcIp = srcIP st, dstIp = dstIP st,
                     request = Some r, response = entry_response other\<rparr>])\<rparr>))
   else
     (case ReadResponse lib buf of
        (Inl e, left) \<Rightarrow> parse lib p st rid ts isClient buf n =
          \<lparr>success = False, err = Some e, new_parser = p, rest = left, sent = []\<rparr>
      | (Inr res, left) \<Rightarrow>
          (let r = res\<lparr>res_Header := Some (kept_fields (headersToExtract p) (res_Header res)),
                       res_Body := map_option (\<lambda>_. BodyClosed) (res_Body res)\<rparr>
           in parse lib p st rid ts isClient buf n =
             \<lparr>success = True, err = None,
              new_parser = \<lparr>matcher = \<lparr>messages = table_after (messages (matcher p)) rid
                  \<lparr>entry_request = None, entry_requestTimestamp = 0, entry_response = Some r,
                   entry_responseTimestamp = ts, entry_requestPacketCount = 0, entry_responsePacketCount = n\<rparr>\<rparr>,
                headersToExtract = headersToExtract p\<rparr>,
              rest = (if res_Body res = None then left else CloseBody lib left),
              sent = (case messages (matcher p) rid of
                  None \<Rightarrow> []
                | Some other \<Rightarrow> [EvHttp
                    \<lparr>streamIdent = ident st, requestId = rid, requestTimestamp = entry_requestTimestamp other,
                     responseTimestamp = ts, requestPacketCount = entry_requestPacketCount other,
                     responsePacketCount = n, srcIp = srcIP st, dstIp = dstIP st,
                     request = entry_request other, response = Some r\<rparr>])\<rparr>))"
proof (cases isClient)
  case True
  obtain r left where "ReadRequest lib buf = (r, left)" by fastforce
  with True show ?thesis
    by (cases r; cases "messages (matcher p) rid")
      (auto simp: parse_parts Let_def)
next
  case False
  obtain r left where "ReadResponse lib buf = (r, left)" by fastforce
  with False show ?thesis
    by (cases r; cases "messages (matcher p) rid")
      (auto simp: parse_parts Let_def)
qed

end
