(* ===== verification/Stats.thy ===== *)
theory Stats
  imports Prelude
begin

text \<open>
  The counters of \<open>assemblers/tcp_assembler.go\<close>. The atomic counters are 64-bit words and
  wrap; the two plain fields are Go \<open>int\<close>s, which wrap at 64 bits too.
\<close>

record stats =
  ipdefrag :: "64 word"
  totalsz :: "64 word"
  rejectFsm :: uint64
  rejectOpt :: uint64
  rejectConnFsm :: uint64
  total_streams :: uint64
  active_streams :: uint64
  source_received :: uint64
  source_dropped :: uint64
  source_if_dropped :: uint64

definition zero_stats :: stats where
  "zero_stats = \<lparr>ipdefrag = 0, totalsz = 0, rejectFsm = 0, rejectOpt = 0, rejectConnFsm = 0,
     total_streams = 0, active_streams = 0, source_received = 0, source_dropped = 0,
     source_if_dropped = 0\<rparr>"

text \<open>\<open>atomic.Uint64.Add\<close> returns the new value.\<close>

definition IncrementStreamCount :: "stats \<Rightarrow> uint64 \<times> stats" where
  "IncrementStreamCount s =
     (let n = total_streams s + 1 in (n, s\<lparr>total_streams := n\<rparr>))"

definition IncrementActiveStreamCount :: "stats \<Rightarrow> stats" where
  "IncrementActiveStreamCount s = s\<lparr>active_streams := active_streams s + 1\<rparr>"

text \<open>\<open>Add(^uint64(0))\<close>: adding the word of all ones.\<close>

definition DecrementActiveStreamCount :: "stats \<Rightarrow> stats" where
  "DecrementActiveStreamCount s = s\<lparr>active_streams := active_streams s + not 0\<rparr>"

lemma all_ones_minus_one: "(not 0 :: uint64) = - 1"
  by simp

lemma active_decrement: "active_streams (DecrementActiveStreamCount s) = active_streams s - 1"
  by (simp add: DecrementActiveStreamCount_def)

lemma active_increment: "active_streams (IncrementActiveStreamCount s) = active_streams s + 1"
  by (simp add: IncrementActiveStreamCount_def)

lemmas active_simps = active_decrement active_increment

lemma decrement_increment [simp]:
  "DecrementActiveStreamCount (IncrementActiveStreamCount s) = s"
  by (simp add: DecrementActiveStreamCount_def IncrementActiveStreamCount_def)

end
