(* ===== verification/Tcp_Stream.thy ===== *)
theory Tcp_Stream
  imports Http_Parser Stats
begin

text \<open>
  \<open>assemblers/tcp_stream.go\<close> and \<open>assemblers/tcp_stream_factory.go\<close>: the callbacks gopacket's
  assembler makes on a stream. What gopacket computes (its connection state machine, its
  option checker, the checksum) is the argument \<open>gopacket\<close>; what it passes to a callback is
  data.
\<close>

datatype TCPFlowDirection = TCPDirClientToServer | TCPDirServerToClient

record captureInfo =
  Timestamp :: time

record Context =
  CaptureInfo :: captureInfo
  seq :: int64
  ack :: int64

definition GetCaptureInfo :: "Context \<Rightarrow> captureInfo" where
  "GetCaptureInfo c = CaptureInfo c"

text \<open>The assembler context a callback receives: the agent's own type, or another one.\<close>

datatype assemblerContext = OwnContext Context | ForeignContext

record scatterGather =
  sg_dir :: TCPFlowDirection
  sg_packets :: int
  sg_length :: nat
  Fetch :: "nat \<Rightarrow> bytes"

record flow =
  flow_string :: string
  flow_src :: string
  flow_dst :: string

record ('fsm, 'opt, 'tcp) gopacket =
  NewTCPSimpleFSM :: "bool \<Rightarrow> 'fsm"
  NewTCPOptionCheck :: 'opt
  CheckState :: "'fsm \<Rightarrow> 'tcp \<Rightarrow> TCPFlowDirection \<Rightarrow> bool \<times> 'fsm"
  OptionAccept :: "'opt \<Rightarrow> 'tcp \<Rightarrow> captureInfo \<Rightarrow> TCPFlowDirection \<Rightarrow> int64 \<Rightarrow> bool
    \<Rightarrow> string option \<times> 'opt \<times> bool"
  ComputeChecksum :: "'tcp \<Rightarrow> string + uint16"

section \<open>Creation\<close>

definition stream_ident :: "flow \<Rightarrow> flow \<Rightarrow> uint64 \<Rightarrow> string" where
  "stream_ident net transport sid =
     flow_string net @ '':'' @ flow_string transport @ '':'' @ decimal (unat sid)"

definition NewTcpStream ::
  "('fsm, 'opt, 'tcp) gopacket \<Rightarrow> config \<Rightarrow> flow \<Rightarrow> flow \<Rightarrow> stats
    \<Rightarrow> ('fsm, 'opt, httpParser) tcpStream \<times> stats" where
  "NewTcpStream g cfg net transport s =
     (let (streamId, s) = IncrementStreamCount s in
      (\<lparr>id = streamId,
        ident = stream_ident net transport streamId,
        stream_config = cfg,
        tcpstate = NewTCPSimpleFSM g True,
        fsmerr = False,
        optchecker = NewTCPOptionCheck g,
        srcIP = flow_src net,
        dstIP = flow_dst net,
        srcPort = flow_src transport,
        dstPort = flow_dst transport,
        buffer = [],
        parsers = [newHttpParser (HTTPHeadersToExtract cfg)]\<rparr>, s))"

text \<open>\<open>tcpStreamFactory\<close>: its configuration (the channel is not part of the model's data).\<close>

record tcpStreamFactory =
  factory_config :: config

definition NewTcpStreamFactory :: "config \<Rightarrow> tcpStreamFactory" where
  "NewTcpStreamFactory cfg = \<lparr>factory_config = cfg\<rparr>"

definition factory_New ::
  "('fsm, 'opt, 'tcp) gopacket \<Rightarrow> tcpStreamFactory \<Rightarrow> flow \<Rightarrow> flow \<Rightarrow> stats
    \<Rightarrow> ('fsm, 'opt, httpParser) tcpStream \<times> stats" where
  "factory_New g factory net transport s =
     NewTcpStream g (factory_config factory) net transport (IncrementActiveStreamCount s)"

section \<open>Accept\<close>

text \<open>
  The verdict, the start flag (the option checker may set it), the stream and the counters.
  The three checks come in the code's order, each with its early return.
\<close>

definition Accept ::
  "('fsm, 'opt, 'tcp) gopacket \<Rightarrow> ('fsm, 'opt, 'p) tcpStream \<Rightarrow> stats \<Rightarrow> 'tcp \<Rightarrow> captureInfo
    \<Rightarrow> TCPFlowDirection \<Rightarrow> int64 \<Rightarrow> bool
    \<Rightarrow> bool \<times> bool \<times> ('fsm, 'opt, 'p) tcpStream \<times> stats" where
  "Accept g stream s tcp ci dir nextSeq start =
     (let (fsm_ok, fsm) = CheckState g (tcpstate stream) tcp dir;
          stream = stream\<lparr>tcpstate := fsm\<rparr>;
          s = (if \<not> fsm_ok then s\<lparr>rejectFsm := rejectFsm s + 1\<rparr> else s);
          s = (if \<not> fsm_ok \<and> \<not> fsmerr stream
               then s\<lparr>rejectConnFsm := rejectConnFsm s + 1\<rparr> else s);
          stream = (if \<not> fsm_ok then stream\<lparr>fsmerr := True\<rparr> else stream)
      in if \<not> fsm_ok \<and> \<not> Ignorefsmerr (stream_config stream)
         then (False, start, stream, s)
         else
           (let (opt_err, opt, start) = OptionAccept g (optchecker stream) tcp ci dir nextSeq start;
                stream = stream\<lparr>optchecker := opt\<rparr>;
                s = (if opt_err \<noteq> None then s\<lparr>rejectOpt := rejectOpt s + 1\<rparr> else s)
            in if opt_err \<noteq> None \<and> \<not> Nooptcheck (stream_config stream)
               then (False, start, stream, s)
               else
                 (let accept = (if Checksum (stream_config stream)
                                then (case ComputeChecksum g tcp of
                                        Inl e \<Rightarrow> False
                                      | Inr c \<Rightarrow> c = 0)
                                else True);
                      s = (if \<not> accept then s\<lparr>rejectOpt := rejectOpt s + 1\<rparr> else s)
                  in (accept, start, stream, s))))"

section \<open>ReassembledSG\<close>

text \<open>
  The loop over the parsers. An end-of-input error stops it, any other error tries the next
  parser on what is left of the buffer, a success stops it.
\<close>

fun try_parsers ::
  "('s, 'p) parse_fun \<Rightarrow> 's \<Rightarrow> int64 \<Rightarrow> time \<Rightarrow> bool \<Rightarrow> int \<Rightarrow> 'p list \<Rightarrow> bytes
    \<Rightarrow> 'p list \<times> bytes \<times> Event list" where
  "try_parsers pf st rid ts c n [] buf = ([], buf, [])"
| "try_parsers pf st rid ts c n (p # ps) buf =
     (let r = pf p st rid ts c buf n in
      case err r of
        Some e \<Rightarrow>
          if e = EOF \<or> e = ErrUnexpectedEOF then (new_parser r # ps, rest r, sent r)
          else (let (ps', buf', es) = try_parsers pf st rid ts c n ps (rest r)
                in (new_parser r # ps', buf', sent r @ es))
      | None \<Rightarrow>
          if success r then (new_parser r # ps, rest r, sent r)
          else (let (ps', buf', es) = try_parsers pf st rid ts c n ps (rest r)
                in (new_parser r # ps', buf', sent r @ es)))"

definition request_key :: "bool \<Rightarrow> Context \<Rightarrow> int64" where
  "request_key isClient ctx = (if isClient then ack ctx else seq ctx)"

text \<open>
  The conversion of the context is checked and its failure is logged, but the nil pointer it
  leaves is then dereferenced for the sequence numbers.
\<close>

definition ReassembledSG ::
  "(('fsm, 'opt, 'p) tcpStream, 'p) parse_fun \<Rightarrow> ('fsm, 'opt, 'p) tcpStream \<Rightarrow> scatterGather
    \<Rightarrow> assemblerContext \<Rightarrow> panic + ('fsm, 'opt, 'p) tcpStream \<times> Event list" where
  "ReassembledSG pf stream sg ac =
     (let isClient = (sg_dir sg = TCPDirClientToServer) in
      case ac of
        ForeignContext \<Rightarrow> Inl NilDereference
      | OwnContext ctx \<Rightarrow>
          (let requestId = request_key isClient ctx;
               packetCount = sg_packets sg;
               data = Fetch sg (sg_length sg);
               stream = stream\<lparr>buffer := data\<rparr>;
               (ps, buf, es) = try_parsers pf stream requestId (Timestamp (CaptureInfo ctx))
                                 isClient packetCount (parsers stream) (buffer stream)
           in Inr (stream\<lparr>parsers := ps, buffer := buf\<rparr>, es)))"

section \<open>ReassemblyComplete\<close>

definition ReassemblyComplete :: "('fsm, 'opt, 'p) tcpStream \<Rightarrow> stats \<Rightarrow> bool \<times> stats" where
  "ReassemblyComplete stream s = (True, DecrementActiveStreamCount s)"

text \<open>The two cases, with the loop's arguments named.\<close>

definition sg_key :: "scatterGather \<Rightarrow> Context \<Rightarrow> int64" where
  "sg_key sg ctx = request_key (sg_dir sg = TCPDirClientToServer) ctx"

definition sg_data :: "scatterGather \<Rightarrow> bytes" where
  "sg_data sg = Fetch sg (sg_length sg)"

definition try_sg ::
  "(('fsm, 'opt, 'p) tcpStream, 'p) parse_fun \<Rightarrow> ('fsm, 'opt, 'p) tcpStream \<Rightarrow> scatterGather
    \<Rightarrow> Context \<Rightarrow> 'p list \<times> bytes \<times> Event list" where
  "try_sg pf st sg ctx =
     try_parsers pf (st\<lparr>buffer := sg_data sg\<rparr>) (sg_key sg ctx) (Timestamp (CaptureInfo ctx))
       (sg_dir sg = TCPDirClientToServer) (sg_packets sg) (parsers st) (sg_data sg)"

lemma ReassembledSG_foreign: "ReassembledSG pf st sg ForeignContext = Inl NilDereference"
  by (simp add: ReassembledSG_def)

lemma ReassembledSG_own:
  "ReassembledSG pf st sg (OwnContext ctx) =
     (let r = try_sg pf st sg ctx
      in Inr (st\<lparr>buffer := fst (snd r), parsers := fst r\<rparr>, snd (snd r)))"
  by (simp add: ReassembledSG_def try_sg_def sg_key_def sg_data_def split_beta Let_def)

section \<open>The loop, for any parser that keeps the contract\<close>

context message_parser
begin

lemma try_parsers_length:
  "length (fst (try_parsers pf st rid ts c n ps buf)) = length ps"
  by (induction ps arbitrary: buf) (auto simp: Let_def split_beta split: option.splits)

lemma try_parsers_one_event:
  "length (snd (snd (try_parsers pf st rid ts c n ps buf))) \<le> 1"
proof (induction ps arbitrary: buf)
  case (Cons p ps)
  let ?r = "pf p st rid ts c buf n"
  show ?case
  proof (cases "err ?r")
    case None
    with outcome [of p st rid ts c buf n] one_event [of p st rid ts c buf n]
    show ?thesis by (simp add: Let_def)
  next
    case (Some e)
    with failed [of p st rid ts c buf n] Cons.IH [of "rest ?r"]
    show ?thesis by (auto simp: Let_def split_beta)
  qed
qed simp

lemma try_parsers_origin:
  "e \<in> set (snd (snd (try_parsers pf st rid ts c n ps buf))) \<Longrightarrow>
    StreamIdent e = ident st \<and> RequestId e = rid \<and> SrcIp e = srcIP st \<and> DstIp e = dstIP st"
proof (induction ps arbitrary: buf)
  case (Cons p ps)
  then show ?case
    using event_origin [of e p st rid ts c buf n]
    by (auto simp: Let_def split_beta split: option.splits if_splits)
qed simp

text \<open>Without a success no parser changes and nothing is sent.\<close>

lemma try_parsers_all_fail:
  "(\<And>p b. p \<in> set ps \<Longrightarrow> err (pf p st rid ts c b n) \<noteq> None) \<Longrightarrow>
    fst (try_parsers pf st rid ts c n ps buf) = ps \<and>
    snd (snd (try_parsers pf st rid ts c n ps buf)) = []"
proof (induction ps arbitrary: buf)
  case (Cons p ps)
  let ?r = "pf p st rid ts c buf n"
  from Cons.prems [of p buf] obtain e where "err ?r = Some e" by auto
  with Cons.IH [of "rest ?r"] Cons.prems failed [of p st rid ts c buf n] show ?case
    by (auto simp: Let_def split_beta)
qed simp

lemma reassembled_origin:
  assumes "ReassembledSG pf st sg (OwnContext ctx) = Inr (st', es)"
  shows "length es \<le> 1"
    and "e \<in> set es \<Longrightarrow> StreamIdent e = ident st \<and> SrcIp e = srcIP st \<and> DstIp e = dstIP st \<and>
      RequestId e = sg_key sg ctx"
proof -
  from assms have es: "es = snd (snd (try_sg pf st sg ctx))" by (simp add: ReassembledSG_own Let_def)
  show "length es \<le> 1" unfolding es try_sg_def by (rule try_parsers_one_event)
  show "e \<in> set es \<Longrightarrow> StreamIdent e = ident st \<and> SrcIp e = srcIP st \<and> DstIp e = dstIP st \<and>
      RequestId e = sg_key sg ctx"
    unfolding es try_sg_def by (drule try_parsers_origin) simp
qed

end

text \<open>
  The option \<open>Allowmissinginit\<close> has no effect on a new stream or on the verdict on a segment: the
  connection state is always created to support missing establishment.
\<close>

lemma Allowmissinginit_ignored:
  "tcpstate (fst (NewTcpStream g (cfg\<lparr>Allowmissinginit := b\<rparr>) net transport s)) =
     tcpstate (fst (NewTcpStream g cfg net transport s))"
  "fst (Accept g (st\<lparr>stream_config := (stream_config st)\<lparr>Allowmissinginit := b\<rparr>\<rparr>) s tcp ci dir nextSeq start) =
     fst (Accept g st s tcp ci dir nextSeq start)"
  by (simp_all add: NewTcpStream_def Accept_def Let_def split: prod.split)

section \<open>Properties\<close>

text \<open>C27: A reassembled payload panics exactly when the assembler's context is not the agent's own
  type. Otherwise the stream keeps its identity and sends at most one event, which names the
  stream, its addresses, and the acknowledgement number of a request or the sequence number
  of a response.\<close>

theorem reassembled_outcome:
  "case ReassembledSG (parse lib) st sg ac of
     Inl p \<Rightarrow> ac = ForeignContext \<and> p = NilDereference
   | Inr (st', es) \<Rightarrow>
       (\<exists>ctx. ac = OwnContext ctx \<and> length es \<le> 1 \<and> ident st' = ident st \<and>
         StreamIdent ` set es \<subseteq> {ident st} \<and> SrcIp ` set es \<subseteq> {srcIP st} \<and>
         DstIp ` set es \<subseteq> {dstIP st} \<and>
         RequestId ` set es \<subseteq>
           {if sg_dir sg = TCPDirClientToServer then ack ctx else seq ctx})"
proof (cases ac)
  case (OwnContext ctx)
  obtain st' es where r: "ReassembledSG (parse lib) st sg (OwnContext ctx) = Inr (st', es)"
    and "ident st' = ident st" by (simp add: ReassembledSG_own Let_def)
  with OwnContext http.reassembled_origin [OF r] show ?thesis
    by (auto simp: sg_key_def request_key_def)
qed (simp add: ReassembledSG_foreign)

end
