(* ===== verification/Stream_History.thy ===== *)
theory Stream_History
  imports Tcp_Stream
begin

text \<open>
  What one TCP stream does over its life: the packets it is asked to accept, and the
  payloads it is given. The payload history of a stream with the HTTP parser is the history
  of its matcher over the messages the payloads parse to, so the pairing specification of
  Http_Matcher becomes a statement about the events of the stream.
\<close>

section \<open>Accepting packets\<close>

lemma Accept_verdict:
  "fst (Accept g st s tcp ci dir nextSeq start) \<longleftrightarrow>
     (fst (CheckState g (tcpstate st) tcp dir) \<or> Ignorefsmerr (stream_config st)) \<and>
     (fst (OptionAccept g (optchecker st) tcp ci dir nextSeq start) = None \<or>
        Nooptcheck (stream_config st)) \<and>
     (Checksum (stream_config st) \<longrightarrow> ComputeChecksum g tcp = Inr 0)"
  by (auto simp: Accept_def Let_def split: prod.splits sum.splits if_splits)

definition accepted_stream ::
  "('fsm, 'opt, 'tcp) gopacket \<Rightarrow> ('fsm, 'opt, 'p) tcpStream \<Rightarrow> stats \<Rightarrow> 'tcp \<Rightarrow> captureInfo
    \<Rightarrow> TCPFlowDirection \<Rightarrow> int64 \<Rightarrow> bool \<Rightarrow> ('fsm, 'opt, 'p) tcpStream" where
  "accepted_stream g st s tcp ci dir nextSeq start =
     fst (snd (snd (Accept g st s tcp ci dir nextSeq start)))"

definition accepted_stats ::
  "('fsm, 'opt, 'tcp) gopacket \<Rightarrow> ('fsm, 'opt, 'p) tcpStream \<Rightarrow> stats \<Rightarrow> 'tcp \<Rightarrow> captureInfo
    \<Rightarrow> TCPFlowDirection \<Rightarrow> int64 \<Rightarrow> bool \<Rightarrow> stats" where
  "accepted_stats g st s tcp ci dir nextSeq start =
     snd (snd (snd (Accept g st s tcp ci dir nextSeq start)))"

lemmas accepted_defs = accepted_stream_def accepted_stats_def

text \<open>Only the two checkers' states and the error flag of the stream change.\<close>

lemma accepted_stream_frame [frame_simps]:
  "id (accepted_stream g st s tcp ci dir q start) = id st"
  "ident (accepted_stream g st s tcp ci dir q start) = ident st"
  "stream_config (accepted_stream g st s tcp ci dir q start) = stream_config st"
  "srcIP (accepted_stream g st s tcp ci dir q start) = srcIP st"
  "dstIP (accepted_stream g st s tcp ci dir q start) = dstIP st"
  "parsers (accepted_stream g st s tcp ci dir q start) = parsers st"
  by (auto simp: accepted_stream_def Accept_def Let_def split_beta)

lemma accepted_fsmerr:
  "fsmerr (accepted_stream g st s tcp ci dir q start) \<longleftrightarrow>
     fsmerr st \<or> \<not> fst (CheckState g (tcpstate st) tcp dir)"
  by (auto simp: accepted_stream_def Accept_def Let_def split_beta)

lemma accepted_conn_rejects:
  "rejectConnFsm (accepted_stats g st s tcp ci dir q start) =
     rejectConnFsm s +
       (if \<not> fsmerr st \<and> fsmerr (accepted_stream g st s tcp ci dir q start) then 1 else 0)"
  by (auto simp: accepted_defs Accept_def Let_def split_beta)

lemma accepted_stats_frame [frame_simps]:
  "total_streams (accepted_stats g st s tcp ci dir q start) = total_streams s"
  "active_streams (accepted_stats g st s tcp ci dir q start) = active_streams s"
  "ipdefrag (accepted_stats g st s tcp ci dir q start) = ipdefrag s"
  "totalsz (accepted_stats g st s tcp ci dir q start) = totalsz s"
  by (auto simp: accepted_stats_def Accept_def Let_def split_beta)

lemma accepted_fsm_rejects:
  "rejectFsm (accepted_stats g st s tcp ci dir q start) =
     rejectFsm s + (if fst (CheckState g (tcpstate st) tcp dir) then 0 else 1)"
  by (auto simp: accepted_stats_def Accept_def Let_def split_beta)

text \<open>A run of packets on one stream.\<close>

record 'tcp packet_call =
  pc_tcp :: 'tcp
  pc_ci :: captureInfo
  pc_dir :: TCPFlowDirection
  pc_seq :: int64
  pc_start :: bool

fun accept_all ::
  "('fsm, 'opt, 'tcp) gopacket \<Rightarrow> ('fsm, 'opt, 'p) tcpStream \<Rightarrow> stats \<Rightarrow> 'tcp packet_call list
    \<Rightarrow> ('fsm, 'opt, 'p) tcpStream \<times> stats" where
  "accept_all g st s [] = (st, s)"
| "accept_all g st s (c # cs) =
     accept_all g (accepted_stream g st s (pc_tcp c) (pc_ci c) (pc_dir c) (pc_seq c) (pc_start c))
       (accepted_stats g st s (pc_tcp c) (pc_ci c) (pc_dir c) (pc_seq c) (pc_start c)) cs"

lemma accept_all_fsmerr: "fsmerr st \<Longrightarrow> fsmerr (fst (accept_all g st s cs))"
  by (induction cs arbitrary: st s) (auto simp: accepted_fsmerr)

lemma accept_all_conn_rejects:
  "rejectConnFsm (snd (accept_all g st s cs)) =
     rejectConnFsm s + (if \<not> fsmerr st \<and> fsmerr (fst (accept_all g st s cs)) then 1 else 0)"
proof (induction cs arbitrary: st s)
  case (Cons c cs)
  let ?st = "accepted_stream g st s (pc_tcp c) (pc_ci c) (pc_dir c) (pc_seq c) (pc_start c)"
  show ?case
  proof (cases "fsmerr ?st")
    case True
    then show ?thesis
      by (simp add: Cons.IH accepted_conn_rejects accept_all_fsmerr)
  next
    case False
    then have "\<not> fsmerr st" by (auto simp: accepted_fsmerr)
    with False show ?thesis by (simp add: Cons.IH accepted_conn_rejects)
  qed
qed simp

section \<open>Receiving payloads\<close>

fun feed ::
  "(('fsm, 'opt, 'p) tcpStream, 'p) parse_fun \<Rightarrow> ('fsm, 'opt, 'p) tcpStream
    \<Rightarrow> (scatterGather \<times> assemblerContext) list
    \<Rightarrow> panic + ('fsm, 'opt, 'p) tcpStream \<times> Event list" where
  "feed pf st [] = Inr (st, [])"
| "feed pf st ((sg, ac) # xs) =
     (case ReassembledSG pf st sg ac of
        Inl e \<Rightarrow> Inl e
      | Inr (st', es) \<Rightarrow>
          (case feed pf st' xs of
             Inl e \<Rightarrow> Inl e
           | Inr (st'', fs) \<Rightarrow> Inr (st'', es @ fs)))"

definition own :: "scatterGather \<times> Context \<Rightarrow> scatterGather \<times> assemblerContext" where
  "own x = (fst x, OwnContext (snd x))"

text \<open>The message a payload parses to, if it does.\<close>

definition payload_message ::
  "http_lib \<Rightarrow> httpParser \<Rightarrow> scatterGather \<times> Context \<Rightarrow> io_error + message" where
  "payload_message lib p x =
     read_message lib p (sg_key (fst x) (snd x)) (Timestamp (CaptureInfo (snd x)))
       (sg_dir (fst x) = TCPDirClientToServer) (sg_data (fst x)) (sg_packets (fst x))"

fun payload_messages ::
  "http_lib \<Rightarrow> httpParser \<Rightarrow> (scatterGather \<times> Context) list \<Rightarrow> message list" where
  "payload_messages lib p [] = []"
| "payload_messages lib p (x # xs) =
     (case payload_message lib p x of
        Inl e \<Rightarrow> payload_messages lib p xs
      | Inr m \<Rightarrow> m # payload_messages lib p xs)"

lemma payload_messages_table:
  "payload_messages lib (p\<lparr>matcher := m\<rparr>) xs = payload_messages lib p xs"
  by (induction xs) (auto simp: payload_message_def read_message_table split: sum.splits)

lemma payload_messages_set:
  "m \<in> set (payload_messages lib p xs) \<longleftrightarrow> (\<exists>x \<in> set xs. payload_message lib p x = Inr m)"
  by (induction xs) (auto split: sum.splits)

lemma match_event_stream [simp]:
  "match_event (st\<lparr>buffer := b\<rparr>) k e = match_event st k e"
  "match_event (st\<lparr>buffer := b, parsers := ps\<rparr>) k e = match_event st k e"
  by (simp_all add: match_event_def)

lemma send_match_stream [simp]: "send_match (st\<lparr>buffer := b\<rparr>) k r = send_match st k r"
  by (auto simp: send_match_def split: prod.splits option.splits bool.splits)

lemma try_sg_single:
  assumes "parsers st = [p]"
  shows "payload_message lib p (sg, ctx) = Inl e \<Longrightarrow>
      fst (try_sg (parse lib) st sg ctx) = [p] \<and> snd (snd (try_sg (parse lib) st sg ctx)) = []"
    and "payload_message lib p (sg, ctx) = Inr m \<Longrightarrow>
      fst (try_sg (parse lib) st sg ctx) = [p\<lparr>matcher := snd (deliver (matcher p) m)\<rparr>] \<and>
      snd (snd (try_sg (parse lib) st sg ctx)) = send_match st (msg_key m) (fst (deliver (matcher p) m))"
  using assms
  by (auto simp: try_sg_def payload_message_def Let_def parse_failed parse_delivers
      dest: read_message_key)

text \<open>The life of a stream with the HTTP parser is a run of its matcher.\<close>

definition event_of :: "('fsm, 'opt, 'p) tcpStream \<Rightarrow> int64 \<times> entry \<Rightarrow> Event" where
  "event_of st x = EvHttp (match_event st (fst x) (snd x))"

lemma event_of_stream [simp]: "event_of (st\<lparr>buffer := b, parsers := ps\<rparr>) = event_of st"
  by (simp add: event_of_def fun_eq_iff)

lemma feed_http:
  "parsers st = [p] \<Longrightarrow>
    \<exists>buf. feed (parse lib) st (map own xs) =
      Inr (st\<lparr>buffer := buf,
             parsers := [p\<lparr>matcher := snd (deliver_all (matcher p) (payload_messages lib p xs))\<rparr>]\<rparr>,
           map (event_of st) (fst (deliver_all (matcher p) (payload_messages lib p xs))))"
proof (induction xs arbitrary: st p)
  case Nil
  then have "st = st\<lparr>buffer := buffer st, parsers := [p\<lparr>matcher := matcher p\<rparr>]\<rparr>"
    by (cases st) simp
  then show ?case by (auto intro!: exI [of _ "buffer st"])
next
  case (Cons x xs)
  obtain sg ctx where x: "x = (sg, ctx)" by (cases x)
  let ?r = "try_sg (parse lib) st sg ctx"
  have step: "ReassembledSG (parse lib) st sg (OwnContext ctx) =
      Inr (st\<lparr>buffer := fst (snd ?r), parsers := fst ?r\<rparr>, snd (snd ?r))"
    by (simp add: ReassembledSG_own Let_def)
  show ?case
  proof (cases "payload_message lib p x")
    case (Inl e)
    with try_sg_single(1) [OF Cons.prems] x have "fst ?r = [p]" "snd (snd ?r) = []" by simp_all
    with Cons.IH [of "st\<lparr>buffer := fst (snd ?r), parsers := [p]\<rparr>" p] step Inl x
    show ?thesis by (auto simp: own_def)
  next
    case (Inr m)
    let ?p = "p\<lparr>matcher := snd (deliver (matcher p) m)\<rparr>"
    from Inr try_sg_single(2) [OF Cons.prems] x have r: "fst ?r = [?p]"
      "snd (snd ?r) = send_match st (msg_key m) (fst (deliver (matcher p) m))" by simp_all
    with Cons.IH [of "st\<lparr>buffer := fst (snd ?r), parsers := [?p]\<rparr>" ?p] step Inr x
    show ?thesis
      by (auto simp: own_def payload_messages_table send_match_def event_of_def split_beta
          split: prod.splits option.splits bool.splits)
  qed
qed

lemma NewTcpStream_parsers [simp]:
  "parsers (fst (NewTcpStream g cfg net tr s)) = [newHttpParser (HTTPHeadersToExtract cfg)]"
  by (simp add: NewTcpStream_def split_beta)

lemma matcher_newHttpParser [simp]: "matcher (newHttpParser hs) = newRequestResponseMatcher"
  by (simp add: newHttpParser_def)

lemma filter_event_of:
  "filter (\<lambda>e. RequestId e = k) (map (event_of st) ms) =
     map (\<lambda>e. EvHttp (match_event st k e)) (matches_of k ms)"
  by (induction ms) (auto simp: event_of_def)

text \<open>The events of a fresh stream for one key: the messages with that key, two at a time.\<close>

lemma feed_new_stream:
  assumes "st = fst (NewTcpStream g cfg net tr s)"
    and "ms = payload_messages lib (newHttpParser (HTTPHeadersToExtract cfg)) xs"
  shows "\<exists>st' es. feed (parse lib) st (map own xs) = Inr (st', es) \<and>
    filter (\<lambda>e. RequestId e = k) es =
      map (\<lambda>e. EvHttp (match_event st k e)) (pair_up (with_key k ms)) \<and>
    es = map (event_of st) (fst (deliver_all newRequestResponseMatcher ms))"
proof -
  have "parsers st = [newHttpParser (HTTPHeadersToExtract cfg)]" by (simp add: assms(1))
  from feed_http [OF this, of lib xs] assms(2) show ?thesis
    by (auto simp: filter_event_of deliver_all_new)
qed

text \<open>With the configuration the program starts with, a stream accepts every packet; the checks
  only count.\<close>

lemma default_config_accepts_everything:
  "fst (Accept g (st\<lparr>stream_config := NewConfig env\<rparr>) s tcp ci dir nextSeq start)"
  by (simp add: Accept_verdict NewConfig_def)

text \<open>Each payload is read on its own: whatever the buffer still holds is given up.\<close>

lemma ReassembledSG_buffer:
  "ReassembledSG pf (st\<lparr>buffer := b\<rparr>) sg ac = ReassembledSG pf st sg ac"
  by (cases ac) (simp_all add: ReassembledSG_def Let_def)

text \<open>A payload that starts with a message, as \<open>net/http\<close> reads it from the payload's first byte.\<close>

definition starts_with_message :: "http_lib \<Rightarrow> scatterGather \<times> Context \<Rightarrow> bool" where
  "starts_with_message lib x =
     (let payload = Fetch (fst x) (sg_length (fst x))
      in if sg_dir (fst x) = TCPDirClientToServer
         then (case fst (ReadRequest lib payload) of Inl e \<Rightarrow> False | Inr req \<Rightarrow> True)
         else (case fst (ReadResponse lib payload) of Inl e \<Rightarrow> False | Inr res \<Rightarrow> True))"

lemma payload_message_starts:
  "starts_with_message lib x \<longleftrightarrow> (\<exists>m. payload_message lib p x = Inr m)"
  by (auto simp: starts_with_message_def payload_message_def read_message_def sg_data_def Let_def
      split: sum.splits)

lemma length_payload_messages:
  "length (payload_messages lib p xs) = length (filter (starts_with_message lib) xs)"
proof (induction xs)
  case (Cons x xs)
  then show ?case
    using payload_message_starts [of lib x p] by (cases "payload_message lib p x") auto
qed simp

text \<open>Two libraries that read the payloads alike, whatever they make of any other bytes.\<close>

definition same_readings :: "http_lib \<Rightarrow> http_lib \<Rightarrow> scatterGather \<times> Context \<Rightarrow> bool" where
  "same_readings lib lib' x \<longleftrightarrow>
     fst (ReadRequest lib (Fetch (fst x) (sg_length (fst x)))) =
       fst (ReadRequest lib' (Fetch (fst x) (sg_length (fst x)))) \<and>
     fst (ReadResponse lib (Fetch (fst x) (sg_length (fst x)))) =
       fst (ReadResponse lib' (Fetch (fst x) (sg_length (fst x))))"

lemma payload_messages_same:
  assumes "\<forall>x \<in> set xs. same_readings lib lib' x"
  shows "payload_messages lib p xs = payload_messages lib' p xs"
  using assms
proof (induction xs)
  case (Cons x xs)
  then have "payload_message lib p x = payload_message lib' p x"
    by (simp add: payload_message_def read_message_def same_readings_def sg_data_def)
  with Cons show ?case by (simp split: sum.split)
qed simp

text \<open>Each message delivered waits in the table, or takes one out and is an event.\<close>

lemma deliver_all_count:
  "finite (dom (messages m)) \<Longrightarrow>
    2 * length (fst (deliver_all m xs)) + card (dom (messages (snd (deliver_all m xs)))) =
      card (dom (messages m)) + length xs"
proof (induction xs arbitrary: m)
  case (Cons x xs)
  show ?case
  proof (cases "messages m (msg_key x)")
    case None
    then have "msg_key x \<notin> dom (messages m)" by auto
    with None Cons.prems obtain m' where m': "deliver m x = ((None, False), m')"
      "card (dom (messages m')) = Suc (card (dom (messages m)))" "finite (dom (messages m'))"
      by (simp add: deliver_fill)
    from Cons.IH [OF m'(3)] m'(1,2) show ?thesis by simp
  next
    case (Some e)
    then have "msg_key x \<in> dom (messages m)" by auto
    with Some Cons.prems card_Suc_Diff1 [of "dom (messages m)" "msg_key x"]
    obtain m' where m': "deliver m x = ((Some (fill x e), True), m')"
      "Suc (card (dom (messages m'))) = card (dom (messages m))" "finite (dom (messages m'))"
      by (simp add: deliver_fill)
    from Cons.IH [OF m'(3)] m'(1,2) show ?thesis by (simp add: split_beta)
  qed
qed simp

section \<open>Properties\<close>

text \<open>C32: What the parser leaves of a payload is never read. Of a new stream, the events and the
  messages that wait are the same for every library that reads the payloads alike from their
  first bytes, whatever it makes of the rest of a payload or of payloads put together, and
  whatever was left in the buffer; and every payload that starts with a message counts for
  exactly one, twice the events and the waiting messages together. So a second message in one
  payload, and one that is split over two, is lost.\<close>

theorem payload_leftovers_lost:
  assumes "\<forall>x \<in> set payloads. same_readings lib lib' x"
    and "st = fst (NewTcpStream g cfg net transport s)"
  shows "\<exists>st1 st2 es p. feed (parse lib) st (map own payloads) = Inr (st1, es) \<and>
    feed (parse lib') (st\<lparr>buffer := old\<rparr>) (map own payloads) = Inr (st2, es) \<and>
    parsers st1 = [p] \<and> parsers st2 = [p] \<and>
    2 * length es + card (dom (messages (matcher p))) = length (filter (starts_with_message lib) payloads)"
proof -
  let ?p = "newHttpParser (HTTPHeadersToExtract cfg)"
  let ?d = "deliver_all (matcher ?p) (payload_messages lib ?p payloads)"
  have "parsers st = [?p]" "parsers (st\<lparr>buffer := old\<rparr>) = [?p]" by (simp_all add: assms(2))
  then obtain b b' where
    "feed (parse lib) st (map own payloads) =
      Inr (st\<lparr>buffer := b, parsers := [?p\<lparr>matcher := snd ?d\<rparr>]\<rparr>, map (event_of st) (fst ?d))"
    "feed (parse lib') (st\<lparr>buffer := old\<rparr>) (map own payloads) =
      Inr (st\<lparr>buffer := b', parsers := [?p\<lparr>matcher := snd ?d\<rparr>]\<rparr>, map (event_of (st\<lparr>buffer := old\<rparr>)) (fst ?d))"
    using feed_http [of st ?p lib payloads] feed_http [of "st\<lparr>buffer := old\<rparr>" ?p lib' payloads]
      payload_messages_same [OF assms(1)] by fastforce
  moreover have "event_of (st\<lparr>buffer := old\<rparr>) = event_of st" by (simp add: event_of_def fun_eq_iff)
  moreover have "2 * length (fst ?d) + card (dom (messages (snd ?d))) =
      length (filter (starts_with_message lib) payloads)"
    using deliver_all_count [of "matcher ?p" "payload_messages lib ?p payloads"]
    by (simp add: newRequestResponseMatcher_def length_payload_messages)
  ultimately show ?thesis by simp
qed

text \<open>Three requests in two payloads: the second one is lost, the others are matched.\<close>

definition pipelined_http :: "(bytes \<Rightarrow> bool) \<Rightarrow> http_lib" where
  "pipelined_http readable = \<lparr>
     ReadRequest = (\<lambda>b. if readable b
        then (Inr \<lparr>Method = ''GET'', RequestURI = ''/'', req_ContentLength = 0, req_Header = None,
                req_Body = None\<rparr>, drop 6 b) else (Inl EOF, b)),
     ReadResponse = (\<lambda>b. (Inl EOF, b)), CloseBody = (\<lambda>b. b)\<rparr>"

definition pipelined_payloads :: "(scatterGather \<times> Context) list" where
  "pipelined_payloads = map (\<lambda>data.
     (\<lparr>sg_dir = TCPDirClientToServer, sg_packets = 1, sg_length = length data, Fetch = (\<lambda>n. take n data)\<rparr>,
      \<lparr>CaptureInfo = \<lparr>Timestamp = 1\<rparr>, seq = 0, ack = 0\<rparr>)) [''GET /aGET /b'', ''GET /c'']"

definition fresh_stream :: "(unit, unit, httpParser) tcpStream" where
  "fresh_stream = fst (NewTcpStream
     \<lparr>NewTCPSimpleFSM = (\<lambda>_. ()), NewTCPOptionCheck = (), CheckState = (\<lambda>_ _ _. (True, ())),
      OptionAccept = (\<lambda>_ _ _ _ _ start. (None, (), start)), ComputeChecksum = (\<lambda>_ :: unit. Inr 0)\<rparr>
     (NewConfig Map.empty) \<lparr>flow_string = '''', flow_src = '''', flow_dst = ''''\<rparr>
     \<lparr>flow_string = '''', flow_src = '''', flow_dst = ''''\<rparr> zero_stats)"

theorem payload_leftovers_lost_witness:
  "\<exists>st es p. feed (parse (pipelined_http (prefix ''GET ''))) fresh_stream (map own pipelined_payloads) =
     Inr (st, es) \<and> parsers st = [p] \<and> 2 * length es + card (dom (messages (matcher p))) = 2"
proof -
  let ?lib = "pipelined_http (prefix ''GET '')"
  let ?lib' = "pipelined_http (\<lambda>b. b = ''GET /aGET /b'' \<or> b = ''GET /c'')"
  have "\<forall>x \<in> set pipelined_payloads. same_readings ?lib ?lib' x"
    by (simp add: same_readings_def pipelined_payloads_def pipelined_http_def)
  moreover have "length (filter (starts_with_message ?lib) pipelined_payloads) = 2"
    by (simp add: starts_with_message_def pipelined_payloads_def pipelined_http_def)
  ultimately show ?thesis
    using payload_leftovers_lost [OF _ fresh_stream_def, of pipelined_payloads ?lib ?lib'] by fastforce
qed

text \<open>The events of a new stream, end to end: feeding it payloads never fails, and its events
  for one request key are the messages with that key that its payloads parse to, taken two at
  a time in order of arrival.\<close>

lemma stream_events_pair_messages:
  "let st = fst (NewTcpStream g cfg net transport s);
       ms = payload_messages lib (newHttpParser (HTTPHeadersToExtract cfg)) payloads
   in \<exists>st' es. feed (parse lib) st (map own payloads) = Inr (st', es) \<and>
        filter (\<lambda>e. RequestId e = key) es =
          map (\<lambda>e. EvHttp (match_event st key e)) (pair_up (with_key key ms))"
  using feed_new_stream [OF refl refl, where lib = lib and cfg = cfg and xs = payloads and g = g
      and net = net and tr = transport and s = s and k = key]
  by (simp add: Let_def) blast

text \<open>A packet is accepted exactly when each of the three checks passes or is switched off by
  the configuration: connection state, TCP options, checksum.\<close>

lemma accept_verdict_exact:
  "fst (Accept g st s tcp ci dir nextSeq start) \<longleftrightarrow>
     (if Ignorefsmerr (stream_config st) then True
      else fst (CheckState g (tcpstate st) tcp dir)) \<and>
     (if Nooptcheck (stream_config st) then True
      else fst (OptionAccept g (optchecker st) tcp ci dir nextSeq start) = None) \<and>
     (if Checksum (stream_config st) then ComputeChecksum g tcp = Inr 0 else True)"
  by (auto simp: Accept_verdict)

text \<open>Over any sequence of packets, one stream adds at most one to the counter of connections
  with a state error: exactly when its error flag goes up, and the flag never goes down.\<close>

lemma connection_reject_counted_once:
  "rejectConnFsm (snd (accept_all g st s packets)) =
     rejectConnFsm s +
       (if \<not> fsmerr st \<and> fsmerr (fst (accept_all g st s packets)) then 1 else 0) \<and>
   (if fsmerr st then fsmerr (fst (accept_all g st s packets)) else True)"
  using accept_all_conn_rejects [of g st s packets] accept_all_fsmerr by auto

end
