(* ===== verification/Telemetry.thy ===== *)
theory Telemetry
  imports Go_Std
begin

text \<open>
  What the program hands to its telemetry libraries. \<open>libhoney\<close> and the OpenTelemetry SDK are
  not part of the repository; the model records the calls the program makes on them, in
  order. The documented meaning of the calls is that the last value written for a key is the
  one reported: \<open>value_of\<close>.
\<close>

datatype fieldValue =
  VString string
| VInt int
| VInt64 int64
| VUint64 uint64
| VTime time

type_synonym fields = "(string \<times> fieldValue) list"

definition value_of :: "fields \<Rightarrow> string \<Rightarrow> fieldValue option" where
  "value_of fs k = map_of (rev fs) k"

definition field_keys :: "fields \<Rightarrow> string set" where
  "field_keys fs = fst ` set fs"

text \<open>A \<open>libhoney.Event\<close>: the AddField calls so far, and the timestamp if one was set.\<close>

record honeyEvent =
  added :: fields
  ev_timestamp :: "time option"
  ev_dataset :: "string option"

definition NewEvent :: honeyEvent where
  "NewEvent = \<lparr>added = [], ev_timestamp = None, ev_dataset = None\<rparr>"

definition AddField :: "string \<Rightarrow> fieldValue \<Rightarrow> honeyEvent \<Rightarrow> honeyEvent" where
  "AddField k v ev = ev\<lparr>added := added ev @ [(k, v)]\<rparr>"

text \<open>\<open>Add\<close> of a map adds its entries; the order is the argument.\<close>

definition AddAll :: "(string \<times> fieldValue) list \<Rightarrow> honeyEvent \<Rightarrow> honeyEvent" where
  "AddAll ps ev = ev\<lparr>added := added ev @ ps\<rparr>"

definition SetTimestamp :: "time \<Rightarrow> honeyEvent \<Rightarrow> honeyEvent" where
  "SetTimestamp t ev = ev\<lparr>ev_timestamp := Some t\<rparr>"

lemmas event_ops = AddField_def AddAll_def SetTimestamp_def NewEvent_def

lemma added_simps [simp]:
  "added NewEvent = []"
  "added (AddField k v ev) = added ev @ [(k, v)]"
  "added (AddAll ps ev) = added ev @ ps"
  "added (SetTimestamp t ev) = added ev"
  "ev_timestamp NewEvent = None"
  "ev_timestamp (AddField k v ev) = ev_timestamp ev"
  "ev_timestamp (AddAll ps ev) = ev_timestamp ev"
  "ev_timestamp (SetTimestamp t ev) = Some t"
  by (simp_all add: event_ops)

lemma value_of_simps [simp]:
  "value_of [] k = None"
  "value_of (fs @ [(k', v)]) k = (if k = k' then Some v else value_of fs k)"
  by (simp_all add: value_of_def)

lemma value_of_append:
  "value_of (fs @ gs) k = (case value_of gs k of Some v \<Rightarrow> Some v | None \<Rightarrow> value_of fs k)"
  by (auto simp: value_of_def map_add_def split: option.splits)

lemma value_of_Cons:
  "value_of ((k', v) # fs) k =
     (case value_of fs k of Some w \<Rightarrow> Some w | None \<Rightarrow> if k = k' then Some v else None)"
  using value_of_append [of "[(k', v)]" fs k] by (auto simp: value_of_def split: option.splits)

lemma value_of_None: "value_of fs k = None \<longleftrightarrow> k \<notin> field_keys fs"
  by (auto simp: value_of_def map_of_eq_None_iff field_keys_def)

lemma field_keys_simps [simp]:
  "field_keys [] = {}" "field_keys (p # fs) = insert (fst p) (field_keys fs)"
  "field_keys (fs @ gs) = field_keys fs \<union> field_keys gs"
  by (auto simp: field_keys_def)

lemma value_of_disjoint:
  "k \<notin> field_keys gs \<Longrightarrow> value_of (fs @ gs) k = value_of fs k"
  by (simp add: value_of_append value_of_None [symmetric])

lemma value_of_last:
  "k \<in> field_keys gs \<Longrightarrow> value_of (fs @ gs) k = value_of gs k"
  by (metis (no_types, lifting) option.case_eq_if value_of_None value_of_append option.collapse)

text \<open>Distinct keys: every pair is reported, in any order.\<close>

lemma value_of_distinct:
  assumes "distinct (map fst fs)"
  shows "value_of fs k = Some v \<longleftrightarrow> (k, v) \<in> set fs"
  using assms by (simp add: value_of_def map_of_eq_Some_iff rev_map [symmetric])

end
