(* ===== verification/Tcp_Assembler.thy ===== *)
theory Tcp_Assembler
  imports Stream_History Telemetry
begin

text \<open>
  \<open>assemblers/tcp_assembler.go\<close>: the construction of the assembler, what the main loop does
  with one packet, the statistics, and the callbacks of gopacket's assembler on the streams.
  gopacket's packets, its IPv4 defragmenter and libpcap are arguments. gopacket's reassembler
  is the environment of a step relation: it may make any callback its interface documents, in
  any order.
\<close>

section \<open>Construction\<close>

record 'h pcap_lib =
  OpenLive :: "string \<Rightarrow> 32 word \<Rightarrow> bool \<Rightarrow> string + 'h"
  SetBPFFilter :: "'h \<Rightarrow> string \<Rightarrow> string + 'h"

text \<open>A fatal log line exits the process, so the returns behind it are not reached.\<close>

definition newPcapPacketSource :: "'h pcap_lib \<Rightarrow> config \<Rightarrow> panic + 'h" where
  "newPcapPacketSource pcap cfg =
     (case OpenLive pcap (Interface cfg) (word_of_int (Snaplen cfg)) (Promiscuous cfg) of
        Inl e \<Rightarrow> Inl (LogFatal ''Failed to open a pcap handle'')
      | Inr handle \<Rightarrow>
          if BpfFilter cfg \<noteq> '''' then
            (case SetBPFFilter pcap handle (BpfFilter cfg) of
               Inl e \<Rightarrow> Inl (LogFatal ''Error setting BPF filter'')
             | Inr handle \<Rightarrow> Inr handle)
          else Inr handle)"

record 'h tcpAssembler =
  asm_config :: config
  packetSource :: 'h
  source_Lazy :: bool
  source_NoCopy :: bool
  streamFactory :: tcpStreamFactory
  opt_MaxBufferedPagesTotal :: int
  opt_MaxBufferedPagesPerConnection :: int

definition NewTcpAssembler :: "'h pcap_lib \<Rightarrow> config \<Rightarrow> panic + 'h tcpAssembler" where
  "NewTcpAssembler pcap cfg =
     (let source = (if PacketSource cfg = ''pcap'' then newPcapPacketSource pcap cfg
                    else Inl (LogFatal ''Unknown packet source''))
      in case source of
           Inl e \<Rightarrow> Inl e
         | Inr h \<Rightarrow> Inr \<lparr>
             asm_config = cfg,
             packetSource = h,
             source_Lazy = Lazy cfg,
             source_NoCopy = True,
             streamFactory = NewTcpStreamFactory cfg,
             opt_MaxBufferedPagesTotal = MaxBufferedPagesTotal cfg,
             opt_MaxBufferedPagesPerConnection = MaxBufferedPagesPerConnection cfg\<rparr>)"

section \<open>One packet\<close>

record ('pkt, 'net, 'ip, 'tcp, 'd) packet_lib =
  NetworkLayer :: "'pkt \<Rightarrow> 'net option"
  NetworkFlow :: "'net \<Rightarrow> flow"
  IPv4Layer :: "'pkt \<Rightarrow> 'ip option"
  TCPLayer :: "'pkt \<Rightarrow> 'tcp option"
  PacketCI :: "'pkt \<Rightarrow> captureInfo"
  IPv4Length :: "'ip \<Rightarrow> uint16"
  DefragIPv4 :: "'d \<Rightarrow> 'ip \<Rightarrow> (string + 'ip option) \<times> 'd"
  IsPacketBuilder :: "'pkt \<Rightarrow> bool"
  DecodeNext :: "'ip \<Rightarrow> 'pkt \<Rightarrow> bool \<Rightarrow> panic + 'pkt"
  SetNetworkLayerForChecksum :: "'tcp \<Rightarrow> 'net option \<Rightarrow> string + 'tcp"
  tcp_Seq :: "'tcp \<Rightarrow> uint32"
  tcp_Ack :: "'tcp \<Rightarrow> uint32"
  tcp_Payload :: "'tcp \<Rightarrow> bytes"

datatype drop_reason = NoNetworkLayer | DefragError | PacketFragment | ChecksumLayerError

text \<open>
  What becomes of a packet: dropped by one of the loop's \<open>continue\<close>s, not TCP, or passed to
  \<open>AssembleWithContext\<close>.
\<close>

datatype 'tcp packet_outcome =
  Dropped drop_reason
| NotTCP
| Assemble flow 'tcp Context

text \<open>
  The packet behind defragmentation, or the reason it is dropped. A reassembled datagram,
  recognised by its length, is decoded again into the packet.
\<close>

definition defrag ::
  "('pkt, 'net, 'ip, 'tcp, 'd) packet_lib \<Rightarrow> stats \<Rightarrow> 'd \<Rightarrow> 'pkt
    \<Rightarrow> panic + (drop_reason + 'pkt) \<times> stats \<times> 'd" where
  "defrag lib s d packet =
     (case IPv4Layer lib packet of
        None \<Rightarrow> Inr (Inr packet, s, d)
      | Some ipv4 \<Rightarrow>
          (case DefragIPv4 lib d ipv4 of
             (Inl e, d) \<Rightarrow> Inr (Inl DefragError, s, d)
           | (Inr None, d) \<Rightarrow> Inr (Inl PacketFragment, s, d)
           | (Inr (Some newipv4), d) \<Rightarrow>
               if IPv4Length lib newipv4 \<noteq> IPv4Length lib ipv4 then
                 (case DecodeNext lib newipv4 packet (IsPacketBuilder lib packet) of
                    Inl e \<Rightarrow> Inl e
                  | Inr packet \<Rightarrow> Inr (Inr packet, s\<lparr>ipdefrag := ipdefrag s + 1\<rparr>, d))
               else Inr (Inr packet, s, d)))"

definition packet_context :: "('pkt, 'net, 'ip, 'tcp, 'd) packet_lib \<Rightarrow> 'pkt \<Rightarrow> 'tcp \<Rightarrow> Context" where
  "packet_context lib packet tcp = \<lparr>
     CaptureInfo = PacketCI lib packet,
     seq = ucast (tcp_Seq lib tcp),
     ack = ucast (tcp_Ack lib tcp)\<rparr>"

definition process_tcp ::
  "('pkt, 'net, 'ip, 'tcp, 'd) packet_lib \<Rightarrow> config \<Rightarrow> stats \<Rightarrow> 'pkt
    \<Rightarrow> panic + 'tcp packet_outcome \<times> stats" where
  "process_tcp lib cfg s packet =
     (case TCPLayer lib packet of
        None \<Rightarrow> Inr (NotTCP, s)
      | Some tcp \<Rightarrow>
          (case (if Checksum cfg
                 then SetNetworkLayerForChecksum lib tcp (NetworkLayer lib packet)
                 else Inr tcp) of
             Inl e \<Rightarrow> Inr (Dropped ChecksumLayerError, s)
           | Inr tcp \<Rightarrow>
               (let context = packet_context lib packet tcp;
                    s = s\<lparr>totalsz := totalsz s + of_nat (length (tcp_Payload lib tcp))\<rparr>
                in case NetworkLayer lib packet of
                     None \<Rightarrow> Inl NilDereference
                   | Some net \<Rightarrow> Inr (Assemble (NetworkFlow lib net) tcp context, s))))"

text \<open>
  The body of the packet case of \<open>Start\<close>'s select. The code asks the packet for its network
  layer again behind the decoding; that it is still there is a matter of the decoder.
\<close>

definition handle_packet ::
  "('pkt, 'net, 'ip, 'tcp, 'd) packet_lib \<Rightarrow> config \<Rightarrow> stats \<Rightarrow> 'd \<Rightarrow> 'pkt
    \<Rightarrow> panic + 'tcp packet_outcome \<times> stats \<times> 'd" where
  "handle_packet lib cfg s d packet =
     (if NetworkLayer lib packet = None then Inr (Dropped NoNetworkLayer, s, d)
      else
        (case defrag lib s d packet of
           Inl e \<Rightarrow> Inl e
         | Inr (Inl reason, s, d) \<Rightarrow> Inr (Dropped reason, s, d)
         | Inr (Inr packet, s, d) \<Rightarrow>
             (case process_tcp lib cfg s packet of
                Inl e \<Rightarrow> Inl e
              | Inr (outcome, s) \<Rightarrow> Inr (outcome, s, d))))"

section \<open>Statistics\<close>

record pcap_stats =
  PacketsReceived :: int
  PacketsDropped :: int
  PacketsIfDropped :: int

text \<open>One tick of \<open>logPcapHandleStats\<close>: the handle's figures are added to the counters.\<close>

fun pcap_stats_tick :: "stats \<Rightarrow> string + pcap_stats \<Rightarrow> stats" where
  "pcap_stats_tick s (Inl e) = s"
| "pcap_stats_tick s (Inr p) = s\<lparr>
     source_received := source_received s + word_of_int (PacketsReceived p),
     source_dropped := source_dropped s + word_of_int (PacketsDropped p),
     source_if_dropped := source_if_dropped s + word_of_int (PacketsIfDropped p)\<rparr>"

definition logPcapHandleStats :: "stats \<Rightarrow> (string + pcap_stats) list \<Rightarrow> stats" where
  "logPcapHandleStats s ticks = foldl pcap_stats_tick s ticks"

definition statsFields ::
  "stats \<Rightarrow> time \<Rightarrow> time \<Rightarrow> nat \<Rightarrow> int \<Rightarrow> fields" where
  "statsFields s startedAt now queued goroutines = [
     (''uptime_ms'', VInt (milliseconds (time_sub now startedAt))),
     (''IPdefrag'', VInt (sint (ipdefrag s))),
     (''rejected_FSM'', VUint64 (rejectFsm s)),
     (''rejected_Options'', VUint64 (rejectOpt s)),
     (''total_TCP_bytes'', VInt (sint (totalsz s))),
     (''conn_rejected_FSM'', VUint64 (rejectConnFsm s)),
     (''source_received'', VUint64 (source_received s)),
     (''source_dropped'', VUint64 (source_dropped s)),
     (''source_if_dropped'', VUint64 (source_if_dropped s)),
     (''event_queue_length'', VInt (int queued)),
     (''goroutines'', VInt goroutines),
     (''total_streams'', VUint64 (total_streams s)),
     (''active_streams'', VUint64 (active_streams s))]"

text \<open>The event \<open>logAssemblerStats\<close> sends.\<close>

definition logAssemblerStats ::
  "config \<Rightarrow> stats \<Rightarrow> time \<Rightarrow> time \<Rightarrow> nat \<Rightarrow> int \<Rightarrow> honeyEvent" where
  "logAssemblerStats cfg s startedAt now queued goroutines =
     AddAll (statsFields s startedAt now queued goroutines)
       (AddField ''name'' (VString ''tcp_assembler_stats'')
         (NewEvent\<lparr>ev_dataset := Some (StatsDataset cfg)\<rparr>))"

section \<open>Facts\<close>

lemma defrag_stats:
  "defrag lib s d pkt = Inr (r, s', d') \<Longrightarrow>
    totalsz s' = totalsz s \<and> (ipdefrag s' = ipdefrag s \<or> ipdefrag s' = ipdefrag s + 1)"
  by (auto simp: defrag_def split: option.splits prod.splits sum.splits if_splits)

definition payload_size ::
  "('pkt, 'net, 'ip, 'tcp, 'd) packet_lib \<Rightarrow> 'tcp packet_outcome \<Rightarrow> 64 word" where
  "payload_size lib outcome =
     (case outcome of Assemble fl tcp ctx \<Rightarrow> of_nat (length (tcp_Payload lib tcp)) | _ \<Rightarrow> 0)"

lemma process_tcp_stats:
  "process_tcp lib cfg s pkt = Inr (outcome, s') \<Longrightarrow>
    totalsz s' = totalsz s + payload_size lib outcome \<and> ipdefrag s' = ipdefrag s"
  by (auto simp: process_tcp_def payload_size_def Let_def
      split: option.splits sum.splits if_splits)

lemma handle_packet_stats:
  assumes "handle_packet lib cfg s d pkt = Inr (outcome, s', d')"
  shows "totalsz s' = totalsz s + payload_size lib outcome \<and>
    (ipdefrag s' = ipdefrag s \<or> ipdefrag s' = ipdefrag s + 1)"
proof (cases "NetworkLayer lib pkt")
  case None
  with assms show ?thesis by (auto simp: handle_packet_def payload_size_def)
next
  case (Some net)
  with assms obtain r s1 d1 where d: "defrag lib s d pkt = Inr (r, s1, d1)"
    by (cases "defrag lib s d pkt") (auto simp: handle_packet_def)
  note ds = defrag_stats [OF d]
  show ?thesis
  proof (cases r)
    case (Inl reason)
    with assms Some d ds show ?thesis by (auto simp: handle_packet_def payload_size_def)
  next
    case (Inr pkt')
    with assms Some d have "process_tcp lib cfg s1 pkt' = Inr (outcome, s')"
      by (auto simp: handle_packet_def split: sum.splits)
    from process_tcp_stats [OF this] ds show ?thesis by simp
  qed
qed

text \<open>A TCP sequence number as a 64-bit integer keeps its value.\<close>

lemma ucast_seq: "sint (ucast (n :: uint32) :: int64) = uint n"
proof -
  have "uint n < 2 ^ 32" using unsigned_less [of n] by simp
  then have "uint (ucast n :: int64) = uint n" by (simp add: unsigned_ucast_eq take_bit_int_eq_self)
  moreover have "signed_take_bit 63 (uint n) = uint n"
    by (rule signed_take_bit_int_eq_self) (use \<open>uint n < 2 ^ 32\<close> in \<open>simp_all add: order_trans [of _ 0]\<close>)
  ultimately show ?thesis by (simp add: sint_uint)
qed

lemma ucast_seq_inj: "(ucast (a :: uint32) :: int64) = ucast b \<longleftrightarrow> a = b"
  by (metis ucast_seq word_uint_eq_iff)

text \<open>The sum the statistics ticks add to a counter.\<close>

fun tick_sum :: "(pcap_stats \<Rightarrow> int) \<Rightarrow> (string + pcap_stats) list \<Rightarrow> uint64" where
  "tick_sum f [] = 0"
| "tick_sum f (Inl e # ticks) = tick_sum f ticks"
| "tick_sum f (Inr p # ticks) = word_of_int (f p) + tick_sum f ticks"

lemma logPcapHandleStats_Cons:
  "logPcapHandleStats s (t # ticks) = logPcapHandleStats (pcap_stats_tick s t) ticks"
  by (simp add: logPcapHandleStats_def)

lemma tick_counters:
  "source_received (pcap_stats_tick s t) = source_received s + tick_sum PacketsReceived [t]"
  "source_dropped (pcap_stats_tick s t) = source_dropped s + tick_sum PacketsDropped [t]"
  "source_if_dropped (pcap_stats_tick s t) = source_if_dropped s + tick_sum PacketsIfDropped [t]"
  by (cases t; simp)+

lemma tick_sum_Cons: "tick_sum f (t # ticks) = tick_sum f [t] + tick_sum f ticks"
  by (cases t) simp_all

lemma logPcapHandleStats_sums:
  "source_received (logPcapHandleStats s ticks) = source_received s + tick_sum PacketsReceived ticks"
  "source_dropped (logPcapHandleStats s ticks) = source_dropped s + tick_sum PacketsDropped ticks"
  "source_if_dropped (logPcapHandleStats s ticks) =
     source_if_dropped s + tick_sum PacketsIfDropped ticks"
proof (induction ticks arbitrary: s)
  case (Cons t ticks)
  { case 1 show ?case by (subst tick_sum_Cons) (simp add: logPcapHandleStats_Cons Cons tick_counters) }
  { case 2 show ?case by (subst tick_sum_Cons) (simp add: logPcapHandleStats_Cons Cons tick_counters) }
  { case 3 show ?case by (subst tick_sum_Cons) (simp add: logPcapHandleStats_Cons Cons tick_counters) }
qed (simp_all add: logPcapHandleStats_def)

text \<open>The handle's figures are totals since it was opened: adding them at every tick over-counts.\<close>

lemma steady_source_overcounted:
  "source_received (logPcapHandleStats zero_stats (replicate n (Inr p))) =
     of_nat n * word_of_int (PacketsReceived p)"
  by (induction n) (simp_all add: logPcapHandleStats_sums zero_stats_def algebra_simps)

text \<open>The option \<open>Nodefrag\<close> has no effect: IPv4 datagrams are defragmented either way.\<close>

lemma Nodefrag_ignored:
  "handle_packet lib (cfg\<lparr>Nodefrag := b\<rparr>) s d packet = handle_packet lib cfg s d packet"
proof -
  have same: "process_tcp lib (cfg\<lparr>Nodefrag := b\<rparr>) = process_tcp lib cfg"
    by (intro ext) (simp add: process_tcp_def split: option.split)
  show ?thesis unfolding handle_packet_def same ..
qed

section \<open>Properties\<close>

text \<open>C29: The key that pairs a request with its response: the acknowledgement number of the
  request's segment and the sequence number of the response's are equal exactly when the keys
  are, and a key is the number itself, between 0 and \<open>2 ^ 32\<close>, whatever its top bit.\<close>

theorem request_response_keys:
  "(request_key True (packet_context lib req_pkt req) =
      request_key False (packet_context lib res_pkt res)) =
     (tcp_Ack lib req = tcp_Seq lib res) \<and>
   sint (request_key True (packet_context lib req_pkt req)) = uint (tcp_Ack lib req) \<and>
   sint (request_key False (packet_context lib res_pkt res)) = uint (tcp_Seq lib res)"
  by (simp add: request_key_def packet_context_def ucast_seq ucast_seq_inj)

text \<open>The accounting of one packet: the byte total grows by the payload of exactly the segments
  that are handed to the reassembler, and the defragmentation counter by at most one.\<close>

lemma packet_accounting:
  assumes "handle_packet lib cfg s d pkt = Inr (outcome, s', d')"
  shows "totalsz s' = totalsz s +
      (case outcome of Assemble fl tcp ctx \<Rightarrow> of_nat (length (tcp_Payload lib tcp)) | _ \<Rightarrow> 0) \<and>
    (ipdefrag s' = ipdefrag s \<or> ipdefrag s' = ipdefrag s + 1)"
  using handle_packet_stats [OF assms] by (simp add: payload_size_def)

end
