(* ===== verification/Stream_Registry.thy ===== *)
theory Stream_Registry
  imports Tcp_Assembler
begin

text \<open>
  All streams together: gopacket's reassembler keeps one stream object per connection and
  makes the callbacks of its interface on them. The reassembler is the environment: a step is
  any callback that its documentation allows (a stream is created for a connection that has
  none; the others are made on a connection that has one). The event list of a step is what
  the callback sends on the channel.
\<close>

datatype 'tcp callback =
  CbNew nat flow flow
| CbAccept nat 'tcp captureInfo TCPFlowDirection int64 bool
| CbReassembledSG nat scatterGather assemblerContext
| CbReassemblyComplete nat

record ('fsm, 'opt) registry =
  reg_factory :: tcpStreamFactory
  reg_stats :: stats
  streams :: "nat \<rightharpoonup> ('fsm, 'opt, httpParser) tcpStream"

inductive callback_step ::
  "('fsm, 'opt, 'tcp) gopacket \<Rightarrow> http_lib \<Rightarrow> ('fsm, 'opt) registry \<Rightarrow> 'tcp callback
    \<Rightarrow> Event list \<Rightarrow> ('fsm, 'opt) registry \<Rightarrow> bool"
  for g :: "('fsm, 'opt, 'tcp) gopacket" and lib :: http_lib where
  cb_new: "streams r c = None \<Longrightarrow>
     factory_New g (reg_factory r) net tr (reg_stats r) = (st, s) \<Longrightarrow>
     callback_step g lib r (CbNew c net tr) []
       (r\<lparr>reg_stats := s, streams := (streams r)(c \<mapsto> st)\<rparr>)"
| cb_accept: "streams r c = Some st \<Longrightarrow>
     Accept g st (reg_stats r) tcp ci dir q start = (verdict, start', st', s) \<Longrightarrow>
     callback_step g lib r (CbAccept c tcp ci dir q start) []
       (r\<lparr>reg_stats := s, streams := (streams r)(c \<mapsto> st')\<rparr>)"
| cb_reassembled: "streams r c = Some st \<Longrightarrow>
     ReassembledSG (parse lib) st sg ac = Inr (st', es) \<Longrightarrow>
     callback_step g lib r (CbReassembledSG c sg ac) es
       (r\<lparr>streams := (streams r)(c \<mapsto> st')\<rparr>)"
| cb_complete: "streams r c = Some st \<Longrightarrow>
     ReassemblyComplete st (reg_stats r) = (remove, s) \<Longrightarrow>
     callback_step g lib r (CbReassemblyComplete c) []
       (r\<lparr>reg_stats := s,
          streams := (if remove then (streams r)(c := None) else streams r)\<rparr>)"

inductive_cases callback_newE: "callback_step g lib r (CbNew c net tr) es r'"
inductive_cases callback_acceptE: "callback_step g lib r (CbAccept c tcp ci dir q start) es r'"
inductive_cases callback_reassembledE: "callback_step g lib r (CbReassembledSG c sg ac) es r'"
inductive_cases callback_completeE: "callback_step g lib r (CbReassemblyComplete c) es r'"

inductive_simps callback_reassembled_iff: "callback_step g lib r (CbReassembledSG c sg ac) es r'"
inductive_simps callback_new_iff: "callback_step g lib r (CbNew c net tr) es r'"

definition init_registry :: "config \<Rightarrow> ('fsm, 'opt) registry" where
  "init_registry cfg =
     \<lparr>reg_factory = NewTcpStreamFactory cfg, reg_stats = zero_stats, streams = Map.empty\<rparr>"

text \<open>
  Runs from the initial registry. The number counts the streams created so far, the list is
  everything sent so far.
\<close>

fun is_new :: "'tcp callback \<Rightarrow> bool" where
  "is_new (CbNew _ _ _) = True"
| "is_new _ = False"

inductive registry_run ::
  "('fsm, 'opt, 'tcp) gopacket \<Rightarrow> http_lib \<Rightarrow> config \<Rightarrow> nat \<Rightarrow> Event list
    \<Rightarrow> ('fsm, 'opt) registry \<Rightarrow> bool"
  for g :: "('fsm, 'opt, 'tcp) gopacket" and lib :: http_lib and cfg :: config where
  run_init: "registry_run g lib cfg 0 [] (init_registry cfg)"
| run_step: "registry_run g lib cfg n out r \<Longrightarrow> callback_step g lib r cb es r' \<Longrightarrow>
     registry_run g lib cfg (if is_new cb then Suc n else n) (out @ es) r'"

section \<open>What one callback does to the counters and the registry\<close>

lemma NewTcpStream_stats:
  "total_streams (snd (NewTcpStream g cfg net tr s)) = total_streams s + 1"
  "active_streams (snd (NewTcpStream g cfg net tr s)) = active_streams s"
  "id (fst (NewTcpStream g cfg net tr s)) = total_streams s + 1"
  "ident (fst (NewTcpStream g cfg net tr s)) = stream_ident net tr (total_streams s + 1)"
  by (simp_all add: NewTcpStream_def IncrementStreamCount_def Let_def)

lemma factory_New_stats:
  assumes "factory_New g f net tr s = (st, s')"
  shows "total_streams s' = total_streams s + 1" and "active_streams s' = active_streams s + 1"
    and "id st = total_streams s + 1" and "ident st = stream_ident net tr (id st)"
    and "parsers st = [newHttpParser (HTTPHeadersToExtract (factory_config f))]"
    and "fsmerr st = False"
  using assms NewTcpStream_stats [of g "factory_config f" net tr "IncrementActiveStreamCount s"]
    NewTcpStream_parsers [of g "factory_config f" net tr "IncrementActiveStreamCount s"]
  by (auto simp: factory_New_def IncrementActiveStreamCount_def NewTcpStream_def Let_def
      split: prod.splits)

lemma Accept_frame:
  assumes "Accept g st s tcp ci dir q start = (v, start', st', s')"
  shows "id st' = id st" "ident st' = ident st" "parsers st' = parsers st"
    "srcIP st' = srcIP st" "dstIP st' = dstIP st"
    "total_streams s' = total_streams s" "active_streams s' = active_streams s"
  using accepted_stream_frame [of g st s tcp ci dir q start]
    accepted_stats_frame [of g st s tcp ci dir q start] assms
  by (simp_all add: accepted_stream_def accepted_stats_def)

lemma ReassembledSG_frame:
  assumes "ReassembledSG pf st sg ac = Inr (st', es)"
  shows "id st' = id st" "ident st' = ident st" "srcIP st' = srcIP st" "dstIP st' = dstIP st"
  using assms by (cases ac; auto simp: ReassembledSG_foreign ReassembledSG_own Let_def)+

lemma callback_factory: "callback_step g lib r cb es r' \<Longrightarrow> reg_factory r' = reg_factory r"
  by (induction rule: callback_step.induct) auto

lemma run_factory: "registry_run g lib cfg n out r \<Longrightarrow> factory_config (reg_factory r) = cfg"
  by (induction rule: registry_run.induct)
    (auto simp: callback_factory init_registry_def NewTcpStreamFactory_def)

section \<open>The counter invariant\<close>

definition counters_ok :: "nat \<Rightarrow> ('fsm, 'opt) registry \<Rightarrow> bool" where
  "counters_ok n r \<longleftrightarrow> finite (dom (streams r)) \<and>
     total_streams (reg_stats r) = of_nat n \<and>
     active_streams (reg_stats r) = of_nat (card (dom (streams r)))"

lemma counters_step:
  assumes "callback_step g lib r cb es r'" and "counters_ok n r"
  shows "counters_ok (if is_new cb then Suc n else n) r'"
  using assms
proof (cases rule: callback_step.cases)
  case (cb_new c net tr st s)
  then have "c \<notin> dom (streams r)" by auto
  with cb_new assms(2) factory_New_stats(1,2) [OF cb_new(5)] show ?thesis
    by (simp add: counters_ok_def)
next
  case (cb_accept c st tcp ci dir q start v start' st' s)
  then have "insert c (dom (streams r)) = dom (streams r)" by auto
  with cb_accept assms(2) Accept_frame(6,7) [OF cb_accept(5)] show ?thesis
    by (simp add: counters_ok_def)
next
  case (cb_reassembled c st sg ac st')
  then have "insert c (dom (streams r)) = dom (streams r)" by auto
  with cb_reassembled assms(2) show ?thesis by (simp add: counters_ok_def)
next
  case (cb_complete c st remove s)
  then have "c \<in> dom (streams r)" by auto
  moreover from this assms(2) have "card (dom (streams r)) = Suc (card (dom (streams r) - {c}))"
    by (metis card_Suc_Diff1 counters_ok_def)
  ultimately show ?thesis using cb_complete assms(2)
    by (auto simp: counters_ok_def ReassemblyComplete_def active_decrement
        DecrementActiveStreamCount_def)
qed

lemma run_counters: "registry_run g lib cfg n out r \<Longrightarrow> counters_ok n r"
proof (induction rule: registry_run.induct)
  case run_init
  show ?case by (simp add: counters_ok_def init_registry_def zero_stats_def)
next
  case (run_step n out r cb es r')
  then show ?case by (blast intro: counters_step)
qed

section \<open>Identities of streams\<close>

text \<open>
  Every stream that was created got the next number of the stream counter as its id, and its
  identifier ends in that number. The function \<open>birth\<close> gives the number of the creation a
  live stream comes from.
\<close>

definition born :: "nat \<Rightarrow> ('fsm, 'opt, 'p) tcpStream \<Rightarrow> bool" where
  "born k st \<longleftrightarrow> id st = of_nat k \<and> (\<exists>net tr. ident st = stream_ident net tr (id st))"

definition births ::
  "nat \<Rightarrow> (nat \<rightharpoonup> ('fsm, 'opt, 'p) tcpStream) \<Rightarrow> (nat \<Rightarrow> nat) \<Rightarrow> bool" where
  "births n m birth \<longleftrightarrow> inj_on birth (dom m) \<and>
     (\<forall>c st. m c = Some st \<longrightarrow> birth c \<le> n \<and> born (birth c) st)"

definition ids_ok :: "nat \<Rightarrow> (nat \<rightharpoonup> ('fsm, 'opt, 'p) tcpStream) \<Rightarrow> bool" where
  "ids_ok n m \<longleftrightarrow> (\<exists>birth. births n m birth)"

lemma unat_of_nat_64: "a < 2 ^ 64 \<Longrightarrow> unat (of_nat a :: uint64) = a"
  by (simp add: unsigned_of_nat take_bit_nat_eq_self)

lemma of_nat_inj_64:
  "(of_nat a :: uint64) = of_nat b \<Longrightarrow> a < 2 ^ 64 \<Longrightarrow> b < 2 ^ 64 \<Longrightarrow> a = b"
  by (metis unat_of_nat_64)

lemma stream_ident_inj:
  assumes "stream_ident net tr i = stream_ident net' tr' j"
  shows "i = j"
proof -
  let ?pre = "\<lambda>net tr. flow_string net @ '':'' @ flow_string tr"
  have "CHR '':'' \<notin> set (decimal k)" for k
    using decimal_digits [of k] by (auto simp: is_digit_def byte_val_def)
  moreover have "?pre net tr @ CHR '':'' # decimal (unat i) = ?pre net' tr' @ CHR '':'' # decimal (unat j)"
    using assms by (simp add: stream_ident_def)
  ultimately have "decimal (unat i) = decimal (unat j)"
    by (blast dest: last_segment_unique)
  then have "unat i = unat j" by (simp only: decimal_inj)
  then show ?thesis by (rule unsigned_word_eqI)
qed

lemma ids_update:
  assumes "ids_ok n m" and "m c = Some st" and "id st' = id st" and "ident st' = ident st"
  shows "ids_ok n (m(c \<mapsto> st'))"
proof -
  from assms(1) obtain birth where "births n m birth" by (auto simp: ids_ok_def)
  moreover have "insert c (dom m) = dom m" using assms(2) by auto
  moreover have "born k st' = born k st" for k using assms(3,4) by (simp add: born_def)
  ultimately have "births n (m(c \<mapsto> st')) birth"
    using assms(2) by (simp add: births_def)
  then show ?thesis by (auto simp: ids_ok_def)
qed

lemma ids_new:
  assumes "ids_ok n m" and "m c = None" and "born (Suc n) st"
  shows "ids_ok (Suc n) (m(c \<mapsto> st))"
proof -
  from assms(1) obtain birth where b: "births n m birth" by (auto simp: ids_ok_def)
  have c: "c \<notin> dom m" using assms(2) by auto
  have "inj_on (birth(c := Suc n)) (insert c (dom m))"
  proof (rule inj_onI)
    fix x y assume "x \<in> insert c (dom m)" "y \<in> insert c (dom m)"
      and "(birth(c := Suc n)) x = (birth(c := Suc n)) y"
    moreover have "birth z \<noteq> Suc n" if "z \<in> dom m" for z
      using b that by (fastforce simp: births_def)
    ultimately show "x = y"
      using b c by (auto simp: births_def dest: inj_onD split: if_splits)
  qed
  then have "births (Suc n) (m(c \<mapsto> st)) (birth(c := Suc n))"
    using b assms(3) by (auto simp: births_def le_SucI)
  then show ?thesis by (auto simp: ids_ok_def)
qed

lemma ids_remove:
  assumes "ids_ok n m"
  shows "ids_ok n (m(c := None))"
proof -
  from assms obtain birth where "births n m birth" by (auto simp: ids_ok_def)
  then have "births n (m(c := None)) birth"
    by (auto simp: births_def intro: inj_on_subset)
  then show ?thesis by (auto simp: ids_ok_def)
qed

lemma ids_step:
  assumes "callback_step g lib r cb es r'" and "counters_ok n r" and "ids_ok n (streams r)"
  shows "ids_ok (if is_new cb then Suc n else n) (streams r')"
  using assms
proof (cases rule: callback_step.cases)
  case (cb_new c net tr st s)
  have "born (Suc n) st"
    using factory_New_stats(3,4) [OF cb_new(5)] assms(2)
    by (auto simp: counters_ok_def born_def)
  with ids_new [OF assms(3) cb_new(4) this] cb_new show ?thesis by simp
next
  case (cb_accept c st tcp ci dir q start v start' st' s)
  with ids_update [OF assms(3) cb_accept(4) Accept_frame(1,2) [OF cb_accept(5)]]
  show ?thesis by simp
next
  case (cb_reassembled c st sg ac st')
  with ids_update [OF assms(3) cb_reassembled(3) ReassembledSG_frame(1,2) [OF cb_reassembled(4)]]
  show ?thesis by simp
next
  case (cb_complete c st remove s)
  with ids_remove [OF assms(3)] assms(3) show ?thesis by simp
qed

lemma run_ids: "registry_run g lib cfg n out r \<Longrightarrow> ids_ok n (streams r)"
proof (induction rule: registry_run.induct)
  case run_init
  show ?case by (simp add: ids_ok_def births_def init_registry_def)
next
  case (run_step n out r cb es r')
  then show ?case by (blast intro: ids_step run_counters)
qed

lemma distinct_idents:
  assumes "ids_ok n m" and "n < 2 ^ 64" and "m c = Some st" and "m d = Some st'"
    and "ident st = ident st'"
  shows "c = d"
proof -
  from assms(1) obtain birth where b: "births n m birth" by (auto simp: ids_ok_def)
  with assms(3,4) have "born (birth c) st" "birth c \<le> n" "born (birth d) st'" "birth d \<le> n"
    by (auto simp: births_def)
  moreover from this assms(5) have "id st = id st'"
    unfolding born_def by (metis stream_ident_inj)
  ultimately have "(of_nat (birth c) :: uint64) = of_nat (birth d)"
    and "birth c < 2 ^ 64" "birth d < 2 ^ 64"
    using assms(2) by (auto simp: born_def)
  then have "birth c = birth d" by (rule of_nat_inj_64)
  with b assms(3,4) show ?thesis by (auto simp: births_def inj_on_def)
qed

section \<open>What the streams retain and send\<close>

definition stream_ok :: "config \<Rightarrow> ('fsm, 'opt, httpParser) tcpStream \<Rightarrow> bool" where
  "stream_ok cfg st \<longleftrightarrow> (\<exists>p. parsers st = [p] \<and> parser_inv p \<and>
     headersToExtract p = HTTPHeadersToExtract cfg)"

definition event_ok :: "config \<Rightarrow> Event \<Rightarrow> bool" where
  "event_ok cfg ev \<longleftrightarrow> (\<exists>e. ev = EvHttp e \<and> halves_coherent e \<and>
     (\<forall>r. request e = Some r \<longrightarrow> retained_request (HTTPHeadersToExtract cfg) r) \<and>
     (\<forall>r. response e = Some r \<longrightarrow> retained_response (HTTPHeadersToExtract cfg) r))"

lemma try_parsers_single:
  "try_parsers pf st rid ts c n [p] buf =
     (let r = pf p st rid ts c buf n in ([new_parser r], rest r, sent r))"
  by (auto simp: Let_def split: option.splits)

lemma parse_sends_http: "e \<in> set (sent (parse lib p st rid ts c buf n)) \<Longrightarrow> \<exists>h. e = EvHttp h"
  by (cases "read_message lib p rid ts c buf n")
    (auto simp: parse_failed parse_delivers set_send_match)

lemma parse_event_ok:
  assumes "parser_inv p" and "headersToExtract p = HTTPHeadersToExtract cfg"
    and "e \<in> set (sent (parse lib p st rid ts c buf n))"
  shows "event_ok cfg e"
proof -
  from assms(3) obtain h where e: "e = EvHttp h" using parse_sends_http by blast
  with assms(3) have "EvHttp h \<in> set (sent (parse lib p st rid ts c buf n))" by simp
  from parse_sent_retained [OF assms(1) this] e assms(2) show ?thesis
    by (simp add: event_ok_def)
qed

lemma reassembled_ok:
  assumes "stream_ok cfg st" and "ReassembledSG (parse lib) st sg ac = Inr (st', es)"
  shows "stream_ok cfg st'" and "\<forall>e \<in> set es. event_ok cfg e"
proof -
  from assms(1) obtain p where p: "parsers st = [p]" "parser_inv p"
    "headersToExtract p = HTTPHeadersToExtract cfg" by (auto simp: stream_ok_def)
  from assms(2) obtain ctx where ac: "ac = OwnContext ctx"
    by (cases ac) (auto simp: ReassembledSG_foreign)
  with assms(2) have st': "st' = st\<lparr>buffer := fst (snd (try_sg (parse lib) st sg ctx)),
      parsers := fst (try_sg (parse lib) st sg ctx)\<rparr>"
    and es: "es = snd (snd (try_sg (parse lib) st sg ctx))"
    by (auto simp: ReassembledSG_own Let_def)
  show "stream_ok cfg st'"
    using p by (simp add: st' stream_ok_def try_sg_def try_parsers_single parser_inv_parse
        parse_headers_kept Let_def del: try_parsers.simps)
  show "\<forall>e \<in> set es. event_ok cfg e"
    using p by (auto simp: es try_sg_def try_parsers_single Let_def simp del: try_parsers.simps
        intro: parse_event_ok)
qed

definition registry_ok :: "config \<Rightarrow> Event list \<Rightarrow> ('fsm, 'opt) registry \<Rightarrow> bool" where
  "registry_ok cfg out r \<longleftrightarrow> (\<forall>c st. streams r c = Some st \<longrightarrow> stream_ok cfg st) \<and>
     (\<forall>e \<in> set out. event_ok cfg e)"

lemma stream_ok_parsers: "parsers st' = parsers st \<Longrightarrow> stream_ok cfg st' = stream_ok cfg st"
  by (simp add: stream_ok_def)

lemma registry_ok_step:
  assumes "callback_step g lib r cb es r'" and "factory_config (reg_factory r) = cfg"
    and "registry_ok cfg out r"
  shows "registry_ok cfg (out @ es) r'"
  using assms
proof (cases rule: callback_step.cases)
  case (cb_new c net tr st s)
  have "stream_ok cfg st"
    using factory_New_stats(5) [OF cb_new(5)] assms(2)
    by (simp add: stream_ok_def parser_inv_new) (simp add: newHttpParser_def)
  with cb_new assms(3) show ?thesis by (simp add: registry_ok_def)
next
  case (cb_accept c st tcp ci dir q start v start' st' s)
  with assms(3) stream_ok_parsers [OF Accept_frame(3) [OF cb_accept(5)]] show ?thesis
    by (simp add: registry_ok_def)
next
  case (cb_reassembled c st sg ac st')
  with assms(3) have "stream_ok cfg st" by (auto simp: registry_ok_def)
  with reassembled_ok [OF this cb_reassembled(4)] cb_reassembled assms(3) show ?thesis
    by (auto simp: registry_ok_def)
next
  case (cb_complete c st remove s)
  with assms(3) show ?thesis by (auto simp: registry_ok_def)
qed

lemma run_ok: "registry_run g lib cfg n out r \<Longrightarrow> registry_ok cfg out r"
proof (induction rule: registry_run.induct)
  case run_init
  show ?case by (simp add: registry_ok_def init_registry_def)
next
  case (run_step n out r cb es r')
  then show ?case by (blast intro: registry_ok_step run_factory)
qed

section \<open>A sample environment\<close>

text \<open>Concrete libraries for the witnesses: every check passes, GET lines and HTTP lines parse.\<close>

definition sample_gopacket :: "(unit, unit, unit) gopacket" where
  "sample_gopacket = \<lparr>
     NewTCPSimpleFSM = (\<lambda>_. ()),
     NewTCPOptionCheck = (),
     CheckState = (\<lambda>_ _ _. (True, ())),
     OptionAccept = (\<lambda>_ _ _ _ _ start. (None, (), start)),
     ComputeChecksum = (\<lambda>_. Inr 0)\<rparr>"

definition sample_request :: request where
  "sample_request = \<lparr>Method = ''GET'', RequestURI = ''/'', req_ContentLength = 0,
     req_Header = Some [''User-Agent'' \<mapsto> [''curl'']], req_Body = None\<rparr>"

definition sample_response :: response where
  "sample_response = \<lparr>StatusCode = 200, res_ContentLength = 0, res_Header = Some Map.empty,
     res_Body = Some BodyOpen\<rparr>"

definition sample_http :: http_lib where
  "sample_http = \<lparr>
     ReadRequest = (\<lambda>b. if prefix ''GET '' b then (Inr sample_request, []) else (Inl EOF, b)),
     ReadResponse = (\<lambda>b. if prefix ''HTTP'' b then (Inr sample_response, []) else (Inl EOF, b)),
     CloseBody = (\<lambda>b. [])\<rparr>"

definition sample_flow :: flow where
  "sample_flow = \<lparr>flow_string = ''10.0.0.1->10.0.0.2'', flow_src = ''10.0.0.1'', flow_dst = ''10.0.0.2''\<rparr>"

lemma new_stream_possible:
  assumes "registry_run g lib cfg n out r" and "streams r c = None"
  shows "\<exists>st r'. registry_run g lib cfg (Suc n) out r' \<and> streams r' = (streams r)(c \<mapsto> st)"
proof -
  obtain st s where "factory_New g (reg_factory r) sample_flow sample_flow (reg_stats r) = (st, s)"
    by fastforce
  from run_step [OF assms(1) cb_new [OF assms(2) this]] show ?thesis by fastforce
qed

lemma sample_run:
  "\<exists>r. registry_run sample_gopacket sample_http (NewConfig Map.empty) 2 [] r \<and>
     dom (streams r) = {0, 1}"
proof -
  have 0: "registry_run sample_gopacket sample_http (NewConfig Map.empty) 0 []
      (init_registry (NewConfig Map.empty))" by (rule run_init)
  obtain st r1 where 1: "registry_run sample_gopacket sample_http (NewConfig Map.empty) (Suc 0) [] r1"
    "streams r1 = Map.empty(0 \<mapsto> st)"
    using new_stream_possible [OF 0, of 0] by (auto simp: init_registry_def)
  obtain st' r2 where "registry_run sample_gopacket sample_http (NewConfig Map.empty) (Suc (Suc 0)) [] r2"
    "streams r2 = (streams r1)(1 \<mapsto> st')"
    using new_stream_possible [OF 1(1), of 1] 1(2) by auto
  with 1(2) show ?thesis by (intro exI [of _ r2]) (auto simp: numeral_2_eq_2)
qed

section \<open>Properties\<close>

text \<open>C30: In every run, the identifiers of the streams alive at one time are pairwise distinct, as
  long as fewer than \<open>2 ^ 64\<close> streams were created.\<close>

theorem live_streams_distinct:
  assumes "registry_run g lib cfg n out r" and "n < 2 ^ 64"
  shows "inj_on (\<lambda>c. map_option ident (streams r c)) (dom (streams r))"
  using distinct_idents [OF run_ids [OF assms(1)] assms(2)] by (auto simp: inj_on_def)

theorem live_streams_distinct_witness:
  "\<exists>r. registry_run sample_gopacket sample_http (NewConfig Map.empty) 2 [] r \<and>
     map_option ident (streams r 0) \<noteq> map_option ident (streams r 1)"
proof -
  obtain r where r: "registry_run sample_gopacket sample_http (NewConfig Map.empty) 2 [] r"
    "dom (streams r) = {0, 1}" using sample_run by blast
  with live_streams_distinct [OF r(1)] show ?thesis by (auto simp: inj_on_def)
qed

text \<open>In every run, the counter of streams is the number of streams created and the counter of
  active streams the number of streams alive, both modulo \<open>2 ^ 64\<close>.\<close>

lemma stream_counters:
  assumes "registry_run g lib cfg n out r"
  shows "total_streams (reg_stats r) = of_nat n \<and>
    active_streams (reg_stats r) = of_nat (card (dom (streams r))) \<and> finite (dom (streams r))"
  using run_counters [OF assms] by (simp add: counters_ok_def)

end
