(* ===== verification/Stream_Trace.thy ===== *)
theory Stream_Trace
  imports Stream_Registry
begin

text \<open>
  Interleaved streams, seen one at a time. A trace is the list of callbacks the reassembler
  has made, on all streams and in any order; what one stream sends depends on the payloads
  of that stream alone, so the history of a single stream (Stream_History) describes each
  stream of a run.
\<close>

section \<open>Traces\<close>

inductive callbacks ::
  "('fsm, 'opt, 'tcp) gopacket \<Rightarrow> http_lib \<Rightarrow> ('fsm, 'opt) registry \<Rightarrow> 'tcp callback list
    \<Rightarrow> Event list \<Rightarrow> ('fsm, 'opt) registry \<Rightarrow> bool"
  for g :: "('fsm, 'opt, 'tcp) gopacket" and lib :: http_lib and r0 :: "('fsm, 'opt) registry" where
  no_callbacks: "callbacks g lib r0 [] [] r0"
| one_more: "callbacks g lib r0 cbs out r \<Longrightarrow> callback_step g lib r cb es r' \<Longrightarrow>
     callbacks g lib r0 (cbs @ [cb]) (out @ es) r'"

abbreviation registry_trace ::
  "('fsm, 'opt, 'tcp) gopacket \<Rightarrow> http_lib \<Rightarrow> config \<Rightarrow> 'tcp callback list \<Rightarrow> Event list
    \<Rightarrow> ('fsm, 'opt) registry \<Rightarrow> bool"
  where "registry_trace g lib cfg \<equiv> callbacks g lib (init_registry cfg)"

lemma callbacks_append:
  "callbacks g lib r cbs' out' r' \<Longrightarrow> callbacks g lib r0 cbs out r \<Longrightarrow>
    callbacks g lib r0 (cbs @ cbs') (out @ out') r'"
proof (induction rule: callbacks.induct)
  case (one_more cbs' out' r cb es r')
  then show ?case using callbacks.one_more by (metis append_assoc)
qed simp

definition created :: "'tcp callback list \<Rightarrow> nat" where
  "created cbs = length (filter is_new cbs)"

lemma created_simps [simp]:
  "created [] = 0" "created (cbs @ [cb]) = (if is_new cb then Suc (created cbs) else created cbs)"
  by (simp_all add: created_def)

lemma trace_run: "registry_trace g lib cfg cbs out r \<Longrightarrow> registry_run g lib cfg (created cbs) out r"
proof (induction rule: callbacks.induct)
  case no_callbacks
  show ?case by (simp add: run_init)
next
  case (one_more cbs out r cb es r')
  from run_step [OF one_more.IH one_more.hyps(2)] show ?case by simp
qed

lemma run_trace: "registry_run g lib cfg n out r \<Longrightarrow> \<exists>cbs. registry_trace g lib cfg cbs out r \<and> n = created cbs"
proof (induction rule: registry_run.induct)
  case run_init
  show ?case by (auto intro: no_callbacks)
next
  case (run_step n out r cb es r')
  then obtain cbs where "registry_trace g lib cfg cbs out r" "n = created cbs" by blast
  with one_more [OF this(1) run_step.hyps(2)] show ?case by (intro exI [of _ "cbs @ [cb]"]) simp
qed

text \<open>The payloads the stream of a connection was given since it was created.\<close>

fun receive :: "nat \<Rightarrow> (scatterGather \<times> Context) list \<Rightarrow> 'tcp callback \<Rightarrow> (scatterGather \<times> Context) list"
where
  "receive c xs (CbNew d net tr) = (if d = c then [] else xs)"
| "receive c xs (CbReassembledSG d sg (OwnContext ctx)) = (if d = c then xs @ [(sg, ctx)] else xs)"
| "receive c xs cb = xs"

definition payloads_to :: "nat \<Rightarrow> 'tcp callback list \<Rightarrow> (scatterGather \<times> Context) list" where
  "payloads_to c cbs = foldl (receive c) [] cbs"

lemma payloads_to_simps [simp]:
  "payloads_to c [] = []" "payloads_to c (cbs @ [cb]) = receive c (payloads_to c cbs) cb"
  by (simp_all add: payloads_to_def)

section \<open>One payload\<close>

lemma payload_messages_append [simp]:
  "payload_messages lib p (xs @ ys) = payload_messages lib p xs @ payload_messages lib p ys"
  by (induction xs) (auto split: sum.splits)

lemma reassembled_single:
  assumes "parsers st = [p\<lparr>matcher := m\<rparr>]" and "ReassembledSG (parse lib) st sg ac = Inr (st', es)"
  shows "\<exists>ctx. ac = OwnContext ctx \<and>
    parsers st' = [p\<lparr>matcher := snd (deliver_all m (payload_messages lib p [(sg, ctx)]))\<rparr>] \<and>
    es = map (event_of st) (fst (deliver_all m (payload_messages lib p [(sg, ctx)])))"
proof -
  from assms(2) obtain ctx where ctx: "ac = OwnContext ctx"
    by (cases ac) (auto simp: ReassembledSG_foreign)
  with assms(2) have "feed (parse lib) st (map own [(sg, ctx)]) = Inr (st', es)"
    by (simp add: own_def)
  with feed_http [OF assms(1), of lib "[(sg, ctx)]"] ctx show ?thesis
    by (auto simp: payload_messages_table simp del: payload_messages.simps)
qed

lemma event_of_frame:
  "ident st' = ident st \<Longrightarrow> srcIP st' = srcIP st \<Longrightarrow> dstIP st' = dstIP st \<Longrightarrow>
    event_of st' = event_of st"
  by (simp add: event_of_def match_event_def fun_eq_iff)

lemma event_of_ident [simp]: "StreamIdent (event_of st x) = ident st"
  by (simp add: event_of_def)

section \<open>Which stream an event comes from\<close>

text \<open>Every event names a stream created before it was sent.\<close>

definition origins_ok :: "nat \<Rightarrow> Event list \<Rightarrow> bool" where
  "origins_ok n out \<longleftrightarrow>
     (\<forall>e \<in> set out. \<exists>k net tr. k \<le> n \<and> StreamIdent e = stream_ident net tr (of_nat k))"

lemma origins_mono: "origins_ok n out \<Longrightarrow> n \<le> n' \<Longrightarrow> origins_ok n' out"
  unfolding origins_ok_def by (meson order_trans)

lemma origins_append: "origins_ok n (out @ es) \<longleftrightarrow> origins_ok n out \<and> origins_ok n es"
  by (auto simp: origins_ok_def)

lemma live_origin:
  assumes "ids_ok n m" and "m c = Some st"
  shows "\<exists>k net tr. k \<le> n \<and> ident st = stream_ident net tr (of_nat k)"
proof -
  from assms obtain birth where "birth c \<le> n" "born (birth c) st"
    by (auto simp: ids_ok_def births_def)
  then show ?thesis unfolding born_def by metis
qed

lemma trace_stream_ok:
  "registry_trace g lib cfg cbs out r \<Longrightarrow> streams r c = Some st \<Longrightarrow> stream_ok cfg st"
  by (drule run_ok [OF trace_run]) (simp add: registry_ok_def)

lemma reassembled_idents:
  assumes "stream_ok cfg st" and "ReassembledSG (parse lib) st sg ac = Inr (st', es)"
  shows "\<forall>e \<in> set es. StreamIdent e = ident st"
proof -
  from assms(1) obtain p where "parsers st = [p\<lparr>matcher := matcher p\<rparr>]"
    by (auto simp: stream_ok_def)
  from reassembled_single [OF this assms(2)] show ?thesis by auto
qed

lemma trace_origins: "registry_trace g lib cfg cbs out r \<Longrightarrow> origins_ok (created cbs) out"
proof (induction rule: callbacks.induct)
  case no_callbacks
  show ?case by (simp add: origins_ok_def)
next
  case (one_more cbs out r cb es r')
  note run = trace_run [OF one_more.hyps(1)]
  have "origins_ok (created cbs) es"
    using one_more.hyps(2)
  proof (cases rule: callback_step.cases)
    case (cb_reassembled c st sg ac st')
    have "\<forall>e \<in> set es. StreamIdent e = ident st"
      by (rule reassembled_idents [OF trace_stream_ok [OF one_more.hyps(1) cb_reassembled(3)]
          cb_reassembled(4)])
    with live_origin [OF run_ids [OF run] cb_reassembled(3)] show ?thesis
      by (auto simp: origins_ok_def)
  qed (auto simp: origins_ok_def)
  with one_more.IH show ?case
    by (auto simp: origins_append intro: origins_mono)
qed

lemma fresh_ident:
  assumes "origins_ok n out" and "Suc n < 2 ^ 64"
  shows "filter (\<lambda>e. StreamIdent e = stream_ident net tr (of_nat (Suc n))) out = []"
proof (rule filter_False, rule ballI)
  fix e assume "e \<in> set out"
  with assms(1) obtain k net' tr' where k: "k \<le> n" "StreamIdent e = stream_ident net' tr' (of_nat k)"
    by (auto simp: origins_ok_def)
  have "(of_nat k :: uint64) \<noteq> of_nat (Suc n)"
    using of_nat_inj_64 [of k "Suc n"] k(1) assms(2) by auto
  with k(2) show "StreamIdent e \<noteq> stream_ident net tr (of_nat (Suc n))"
    by (metis stream_ident_inj)
qed

section \<open>Each stream on its own\<close>

text \<open>
  What a trace means for one live stream: it has one parser, which is the parser it was
  created with after the messages of its payloads, and the events that name the stream are
  the matches of those messages.
\<close>

definition stream_history ::
  "http_lib \<Rightarrow> config \<Rightarrow> (scatterGather \<times> Context) list \<Rightarrow> Event list
    \<Rightarrow> ('fsm, 'opt, httpParser) tcpStream \<Rightarrow> bool" where
  "stream_history lib cfg xs out st \<longleftrightarrow>
     (let p = newHttpParser (HTTPHeadersToExtract cfg);
          run = deliver_all newRequestResponseMatcher (payload_messages lib p xs)
      in parsers st = [p\<lparr>matcher := snd run\<rparr>] \<and>
         filter (\<lambda>e. StreamIdent e = ident st) out = map (event_of st) (fst run))"

lemma history_frame:
  assumes "parsers st' = parsers st" "ident st' = ident st" "srcIP st' = srcIP st" "dstIP st' = dstIP st"
  shows "stream_history lib cfg xs out st' = stream_history lib cfg xs out st"
  using assms event_of_frame [of st' st] by (simp add: stream_history_def Let_def)

lemma history_other:
  assumes "\<forall>e \<in> set es. StreamIdent e \<noteq> ident st"
  shows "stream_history lib cfg xs (out @ es) st = stream_history lib cfg xs out st"
  using assms by (simp add: stream_history_def Let_def filter_empty_conv)

lemma history_payload:
  assumes "stream_history lib cfg xs out st"
    and "ReassembledSG (parse lib) st sg ac = Inr (st', es)"
  shows "\<exists>ctx. ac = OwnContext ctx \<and> stream_history lib cfg (xs @ [(sg, ctx)]) (out @ es) st'"
proof -
  let ?p = "newHttpParser (HTTPHeadersToExtract cfg)"
  let ?ms = "payload_messages lib ?p xs"
  let ?run = "deliver_all newRequestResponseMatcher ?ms"
  from assms(1) have st: "parsers st = [?p\<lparr>matcher := snd ?run\<rparr>]"
    "filter (\<lambda>e. StreamIdent e = ident st) out = map (event_of st) (fst ?run)"
    by (simp_all add: stream_history_def Let_def)
  note fr = ReassembledSG_frame [OF assms(2)]
  from reassembled_single [OF st(1) assms(2)]
  obtain ctx where ctx: "ac = OwnContext ctx"
    and st': "parsers st' = [?p\<lparr>matcher := snd (deliver_all (snd ?run) (payload_messages lib ?p [(sg, ctx)]))\<rparr>]"
    and es: "es = map (event_of st) (fst (deliver_all (snd ?run) (payload_messages lib ?p [(sg, ctx)])))"
    by blast
  have "filter (\<lambda>e. StreamIdent e = ident st) es = es" by (simp add: es filter_id_conv)
  moreover have "deliver_all newRequestResponseMatcher (payload_messages lib ?p (xs @ [(sg, ctx)])) =
      (fst ?run @ fst (deliver_all (snd ?run) (payload_messages lib ?p [(sg, ctx)])),
       snd (deliver_all (snd ?run) (payload_messages lib ?p [(sg, ctx)])))"
    by (simp only: payload_messages_append run_with_append split_beta Let_def)
  ultimately show ?thesis
    using ctx st(2) st' fr(2) event_of_frame [OF fr(2-4)]
    unfolding stream_history_def Let_def by (simp add: es)
qed

definition histories ::
  "http_lib \<Rightarrow> config \<Rightarrow> 'tcp callback list \<Rightarrow> Event list \<Rightarrow> ('fsm, 'opt) registry \<Rightarrow> bool" where
  "histories lib cfg cbs out r \<longleftrightarrow>
     (\<forall>c st. streams r c = Some st \<longrightarrow> stream_history lib cfg (payloads_to c cbs) out st)"

lemma histories_step:
  assumes "registry_trace g lib cfg cbs out r" and "callback_step g lib r cb es r'"
    and "created (cbs @ [cb]) < 2 ^ 64" and "histories lib cfg cbs out r"
  shows "histories lib cfg (cbs @ [cb]) (out @ es) r'"
  using assms(2)
proof (cases rule: callback_step.cases)
  case (cb_new c net tr st s)
  note run = trace_run [OF assms(1)]
  note new = factory_New_stats [OF cb_new(5)]
  have "ident st = stream_ident net tr (of_nat (Suc (created cbs)))"
    using new(3,4) run_counters [OF run] by (simp add: counters_ok_def add.commute)
  moreover have "Suc (created cbs) < 2 ^ 64" using assms(3) cb_new(1) by simp
  ultimately have "filter (\<lambda>e. StreamIdent e = ident st) out = []"
    using fresh_ident [OF trace_origins [OF assms(1)]] by simp
  then have "stream_history lib cfg [] out st"
    using new(5) run_factory [OF run] by (simp add: stream_history_def Let_def newHttpParser_def)
  with assms(4) cb_new show ?thesis by (auto simp: histories_def)
next
  case (cb_accept c st tcp ci dir q start v start' st' s)
  have "stream_history lib cfg (payloads_to c cbs) out st"
    using assms(4) cb_accept(4) by (simp add: histories_def)
  with history_frame [OF Accept_frame(3,2,4,5) [OF cb_accept(5)]] assms(4) cb_accept
  show ?thesis by (simp add: histories_def)
next
  case (cb_reassembled c st sg ac st')
  have "stream_history lib cfg (payloads_to c cbs) out st"
    using assms(4) cb_reassembled(3) by (simp add: histories_def)
  from history_payload [OF this cb_reassembled(4)] obtain ctx where ctx: "ac = OwnContext ctx"
    "stream_history lib cfg (payloads_to c cbs @ [(sg, ctx)]) (out @ es) st'" by blast
  have "stream_history lib cfg (payloads_to d cbs) (out @ es) st2"
    if "streams r d = Some st2" "d \<noteq> c" for d st2
  proof -
    note run = trace_run [OF assms(1)]
    have small: "created cbs < 2 ^ 64" using assms(3) cb_reassembled(1) by simp
    have "ident st \<noteq> ident st2"
      using distinct_idents [OF run_ids [OF run] small cb_reassembled(3) that(1)] that(2) by auto
    moreover have "\<forall>e \<in> set es. StreamIdent e = ident st"
      by (rule reassembled_idents [OF trace_stream_ok [OF assms(1) cb_reassembled(3)] cb_reassembled(4)])
    ultimately show ?thesis
      using assms(4) that(1) history_other [of es st2] by (simp add: histories_def)
  qed
  with ctx cb_reassembled show ?thesis by (auto simp: histories_def)
next
  case (cb_complete c st remove s)
  with assms(4) show ?thesis by (auto simp: histories_def)
qed

lemma trace_histories:
  "registry_trace g lib cfg cbs out r \<Longrightarrow> created cbs < 2 ^ 64 \<Longrightarrow> histories lib cfg cbs out r"
proof (induction rule: callbacks.induct)
  case no_callbacks
  show ?case by (simp add: histories_def init_registry_def)
next
  case (one_more cbs out r cb es r')
  have "created cbs < 2 ^ 64" using one_more.prems by (simp split: if_splits)
  with one_more show ?case by (blast intro: histories_step)
qed

lemma streams_isolated:
  assumes "registry_trace g lib cfg cbs out r" and "created cbs < 2 ^ 64" and "streams r c = Some st"
  shows "filter (\<lambda>e. RequestId e = key) (filter (\<lambda>e. StreamIdent e = ident st) out) =
    map (\<lambda>e. EvHttp (match_event st key e)) (pair_up (with_key key
      (payload_messages lib (newHttpParser (HTTPHeadersToExtract cfg)) (payloads_to c cbs))))"
proof -
  have "stream_history lib cfg (payloads_to c cbs) out st"
    using trace_histories [OF assms(1,2)] assms(3) by (simp add: histories_def)
  then show ?thesis by (simp add: stream_history_def Let_def filter_event_of deliver_all_new)
qed

section \<open>The end of a stream\<close>

text \<open>A number that no live stream has, and that is not to be given out again, stays out of use.\<close>

definition retired :: "nat \<Rightarrow> nat \<Rightarrow> ('fsm, 'opt) registry \<Rightarrow> bool" where
  "retired k n r \<longleftrightarrow> k \<le> n \<and> (\<forall>c st. streams r c = Some st \<longrightarrow> id st \<noteq> of_nat k)"

lemma retired_step:
  assumes "callback_step g lib r cb es r'" and "counters_ok n r" and "retired k n r"
    and "(if is_new cb then Suc n else n) < 2 ^ 64"
  shows "retired k (if is_new cb then Suc n else n) r'"
  using assms(1)
proof (cases rule: callback_step.cases)
  case (cb_new c net tr st s)
  have "id st = of_nat (Suc n)"
    using factory_New_stats(3) [OF cb_new(5)] assms(2) by (simp add: counters_ok_def add.commute)
  moreover have "(of_nat (Suc n) :: uint64) \<noteq> of_nat k"
    using of_nat_inj_64 [of "Suc n" k] assms(3,4) cb_new(1) by (auto simp: retired_def)
  ultimately show ?thesis using cb_new assms(3) by (simp add: retired_def)
next
  case (cb_accept c st tcp ci dir q start v start' st' s)
  with assms(3) Accept_frame(1) [OF cb_accept(5)] show ?thesis by (simp add: retired_def)
next
  case (cb_reassembled c st sg ac st')
  with assms(3) ReassembledSG_frame(1) [OF cb_reassembled(4)] show ?thesis by (simp add: retired_def)
next
  case (cb_complete c st remove s)
  with assms(3) show ?thesis by (simp add: retired_def)
qed

lemma created_append: "created (xs @ ys) = created xs + created ys"
  by (simp add: created_def)

lemma created_single:
  "created [cb] = (if is_new cb then 1 else 0)"
  "created (cb # cbs) = (if is_new cb then 1 else 0) + created cbs"
  by (simp_all add: created_def)

lemmas created_sums = created_append created_single

lemma retired_silent:
  assumes "registry_trace g lib cfg cbs out r"
  shows "callbacks g lib r cbs' out' r' \<Longrightarrow> retired k (created cbs) r \<Longrightarrow>
    created (cbs @ cbs') < 2 ^ 64 \<Longrightarrow>
    retired k (created (cbs @ cbs')) r' \<and>
    (\<forall>e \<in> set out'. \<forall>net tr. StreamIdent e \<noteq> stream_ident net tr (of_nat k))"
proof (induction rule: callbacks.induct)
  case (one_more cbs' out' r1 cb es r')
  have "created (cbs @ cbs') < 2 ^ 64" using one_more.prems(2) by (simp add: created_sums)
  with one_more.IH [OF one_more.prems(1)] have ret: "retired k (created (cbs @ cbs')) r1"
    and old: "\<forall>e \<in> set out'. \<forall>net tr. StreamIdent e \<noteq> stream_ident net tr (of_nat k)" by blast+
  have trace: "registry_trace g lib cfg (cbs @ cbs') (out @ out') r1"
    using one_more.hyps(1) assms by (rule callbacks_append)
  note run = trace_run [OF trace]
  have "\<forall>e \<in> set es. \<forall>net tr. StreamIdent e \<noteq> stream_ident net tr (of_nat k)"
    using one_more.hyps(2)
  proof (cases rule: callback_step.cases)
    case (cb_reassembled c st sg ac st')
    from run_ids [OF run] cb_reassembled(3) have "\<exists>net tr. ident st = stream_ident net tr (id st)"
      by (auto simp: ids_ok_def births_def born_def)
    moreover have "id st \<noteq> of_nat k" using ret cb_reassembled(3) by (simp add: retired_def)
    moreover have "\<forall>e \<in> set es. StreamIdent e = ident st"
      by (rule reassembled_idents [OF trace_stream_ok [OF trace cb_reassembled(3)] cb_reassembled(4)])
    ultimately show ?thesis by (metis stream_ident_inj)
  qed simp_all
  moreover have "retired k (created (cbs @ cbs' @ [cb])) r'"
    using retired_step [OF one_more.hyps(2) run_counters [OF run] ret] one_more.prems(2)
    by (cases "is_new cb") (simp_all add: created_sums)
  ultimately show ?case using old by auto
qed simp

lemma completed_retires:
  assumes "registry_trace g lib cfg cbs out r" and "created cbs < 2 ^ 64" and "streams r c = Some st"
    and "callback_step g lib r (CbReassemblyComplete c) es r'"
  obtains k net tr where "retired k (created (cbs @ [CbReassemblyComplete c])) r'"
    and "ident st = stream_ident net tr (of_nat k)" and "es = []"
proof -
  from run_ids [OF trace_run [OF assms(1)]] obtain birth where b: "births (created cbs) (streams r) birth"
    by (auto simp: ids_ok_def)
  from assms(4) have r': "streams r' = (streams r)(c := None)" "es = []"
    by (auto elim!: callback_completeE simp: ReassemblyComplete_def)
  have "id st' \<noteq> of_nat (birth c)" if "streams r d = Some st'" "d \<noteq> c" for d st'
  proof
    assume eq: "id st' = of_nat (birth c)"
    with b that(1) have "(of_nat (birth d) :: uint64) = of_nat (birth c)"
      by (auto simp: births_def born_def)
    moreover have "birth d \<le> created cbs" "birth c \<le> created cbs"
      using b that(1) assms(3) by (auto simp: births_def)
    ultimately have "birth d = birth c"
      using of_nat_inj_64 [of "birth d" "birth c"] assms(2) by linarith
    then show False using b that assms(3) by (auto simp: births_def inj_on_def)
  qed
  then have "retired (birth c) (created cbs) r'"
    using b r' assms(3) by (auto simp: retired_def births_def)
  moreover have "born (birth c) st" using b assms(3) by (simp add: births_def)
  then obtain net tr where "ident st = stream_ident net tr (of_nat (birth c))"
    by (auto simp: born_def)
  ultimately show ?thesis using r'(2) that by simp
qed

section \<open>What is always possible\<close>

text \<open>
  A stream can be created on every connection without one, and a live stream takes every
  payload whose context is the assembler's own: none of its callbacks panics.
\<close>

lemma trace_new:
  assumes "callbacks g lib r0 cbs out r" and "streams r c = None"
  shows "\<exists>st r'. callbacks g lib r0 (cbs @ [CbNew c net tr]) out r' \<and> streams r' = (streams r)(c \<mapsto> st)"
proof -
  obtain st s where "factory_New g (reg_factory r) net tr (reg_stats r) = (st, s)" by fastforce
  from one_more [OF assms(1) cb_new [OF assms(2) this]] show ?thesis by fastforce
qed

lemma trace_payload:
  assumes "callbacks g lib r0 cbs out r" and "streams r c = Some st"
  shows "\<exists>es st' r'. callbacks g lib r0 (cbs @ [CbReassembledSG c sg (OwnContext ctx)]) (out @ es) r' \<and>
    streams r' = (streams r)(c \<mapsto> st')"
proof -
  obtain st' es where "ReassembledSG (parse lib) st sg (OwnContext ctx) = Inr (st', es)"
    by (auto simp: ReassembledSG_own Let_def)
  from one_more [OF assms(1) cb_reassembled [OF assms(2) this]] show ?thesis by fastforce
qed

lemma trace_complete:
  assumes "callbacks g lib r0 cbs out r" and "streams r c = Some st"
  shows "\<exists>r'. callback_step g lib r (CbReassemblyComplete c) [] r' \<and>
    streams r' = (streams r)(c := None)"
proof -
  obtain s where "ReassemblyComplete st (reg_stats r) = (True, s)" by (simp add: ReassemblyComplete_def)
  from cb_complete [OF assms(2) this, of g lib] show ?thesis by fastforce
qed

section \<open>A sample run\<close>

definition payload_of :: "bytes \<Rightarrow> scatterGather" where
  "payload_of b = \<lparr>sg_dir = TCPDirClientToServer, sg_packets = 1, sg_length = length b, Fetch = (\<lambda>_. b)\<rparr>"

definition context_0 :: Context where
  "context_0 = \<lparr>CaptureInfo = \<lparr>Timestamp = 0\<rparr>, seq = 0, ack = 0\<rparr>"

lemma payload_request:
  assumes "ReadRequest lib b = (Inr req, rest')"
  shows "payload_message lib p (payload_of b, context_0) = Inr (ReqMsg 0 0 (clean_request p req) 1)"
  using assms by (simp add: payload_message_def payload_of_def context_0_def sg_key_def
      sg_data_def request_key_def read_message_def)

lemma sample_reads: "ReadRequest sample_http ''GET '' = (Inr sample_request, [])"
  by (simp add: sample_http_def)

definition sample_payload :: "nat \<Rightarrow> unit callback" where
  "sample_payload c = CbReassembledSG c (payload_of ''GET '') (OwnContext context_0)"

text \<open>Two streams, three payloads: the two on the first stream are matched with each other.\<close>

definition sample_callbacks :: "unit callback list" where
  "sample_callbacks = [CbNew 0 sample_flow sample_flow, CbNew 1 sample_flow sample_flow,
     sample_payload 0, sample_payload 1, sample_payload 0]"

lemma sample_fed:
  assumes "callbacks sample_gopacket sample_http r0 cbs out r" and "streams r c \<noteq> None"
  shows "\<exists>out' r'. callbacks sample_gopacket sample_http r0 (cbs @ [sample_payload c]) out' r' \<and>
    (\<forall>d. streams r d \<noteq> None \<longrightarrow> streams r' d \<noteq> None)"
proof -
  from assms(2) obtain st where "streams r c = Some st" by blast
  from trace_payload [OF assms(1) this, of "payload_of ''GET ''" context_0] show ?thesis
    unfolding sample_payload_def by (metis fun_upd_apply option.distinct(1))
qed

lemma sample_opened:
  assumes "callbacks sample_gopacket sample_http r0 cbs out r" and "streams r c = None"
  shows "\<exists>r'. callbacks sample_gopacket sample_http r0 (cbs @ [CbNew c sample_flow sample_flow]) out r' \<and>
    streams r' c \<noteq> None \<and> (\<forall>d. d \<noteq> c \<longrightarrow> streams r' d = streams r d)"
  using trace_new [OF assms, of sample_flow sample_flow] by fastforce

lemma sample_trace:
  "\<exists>out r st. registry_trace sample_gopacket sample_http (NewConfig Map.empty) sample_callbacks out r \<and>
     streams r 0 = Some st"
proof -
  let ?r = "init_registry (NewConfig Map.empty) :: (unit, unit) registry"
  let ?trace = "callbacks sample_gopacket sample_http ?r"
  let ?new = "\<lambda>c. CbNew c sample_flow sample_flow"
  obtain r where 1: "?trace [?new 0] [] r" "streams r 0 \<noteq> None" "streams r 1 = None"
    using sample_opened [OF no_callbacks, of ?r 0] by (auto simp: init_registry_def)
  then obtain r where 2: "?trace [?new 0, ?new 1] [] r" "streams r 0 \<noteq> None" "streams r 1 \<noteq> None"
    using sample_opened [OF 1(1,3)] by auto
  obtain es r where 3: "?trace [?new 0, ?new 1, sample_payload 0] es r"
    "streams r 0 \<noteq> None" "streams r 1 \<noteq> None" using sample_fed [OF 2(1,2)] 2(2,3) by auto
  obtain es r where 4: "?trace [?new 0, ?new 1, sample_payload 0, sample_payload 1] es r"
    "streams r 0 \<noteq> None" using sample_fed [OF 3(1,3)] 3(2) by auto
  obtain es r where 5: "?trace sample_callbacks es r" "streams r 0 \<noteq> None"
    using sample_fed [OF 4] 4(2) by (auto simp: sample_callbacks_def)
  then show ?thesis by blast
qed

text \<open>After the first stream is completed, its connection opens a second one.\<close>

definition sample_later :: "unit callback list" where
  "sample_later = [CbNew 0 sample_flow sample_flow, sample_payload 0, sample_payload 0]"

lemma sample_reopened:
  assumes "streams r 0 = Some st"
  shows "\<exists>r1 out' r'. callback_step sample_gopacket sample_http r (CbReassemblyComplete 0) [] r1 \<and>
    callbacks sample_gopacket sample_http r1 sample_later out' r'"
proof -
  obtain r1 where r1: "callback_step sample_gopacket sample_http r (CbReassemblyComplete 0) [] r1"
    "streams r1 0 = None"
    using trace_complete [OF no_callbacks assms, of sample_gopacket sample_http] by auto
  let ?trace = "callbacks sample_gopacket sample_http r1"
  obtain r2 where 2: "?trace [CbNew 0 sample_flow sample_flow] [] r2" "streams r2 0 \<noteq> None"
    using sample_opened [OF no_callbacks r1(2)] by auto
  obtain es r3 where 3: "?trace [CbNew 0 sample_flow sample_flow, sample_payload 0] es r3"
    "streams r3 0 \<noteq> None" using sample_fed [OF 2] 2(2) by auto
  from sample_fed [OF 3] r1(1) show ?thesis by (auto simp: sample_later_def)
qed

section \<open>Properties\<close>

text \<open>C1: Streams do not interfere: in every run of all streams, with callbacks on different streams
  interleaved in any order, the events that name a live stream are the messages parsed from
  the payloads given to that stream since its creation, two at a time for each key in order of
  arrival; and what the stream keeps in memory is one entry for each key with an odd number of
  messages. (Fewer than \<open>2 ^ 64\<close> streams were created.)\<close>

theorem streams_do_not_interfere:
  assumes "registry_trace g lib cfg cbs out r" and "created cbs < 2 ^ 64" and "streams r c = Some st"
  shows "let ms = payload_messages lib (newHttpParser (HTTPHeadersToExtract cfg)) (payloads_to c cbs)
    in filter (\<lambda>e. RequestId e = key) (filter (\<lambda>e. StreamIdent e = ident st) out) =
         map (\<lambda>e. EvHttp (match_event st key e)) (pair_up (with_key key ms)) \<and>
       (\<exists>p. parsers st = [p] \<and> dom (messages (matcher p)) = {k. odd (length (with_key k ms))})"
proof -
  have "stream_history lib cfg (payloads_to c cbs) out st"
    using trace_histories [OF assms(1,2)] assms(3) by (simp add: histories_def)
  then have "\<exists>p. parsers st = [p] \<and> dom (messages (matcher p)) = {k. odd (length (with_key k
      (payload_messages lib (newHttpParser (HTTPHeadersToExtract cfg)) (payloads_to c cbs))))}"
    by (auto simp: stream_history_def Let_def deliver_all_new leftover_None dom_def
        simp flip: not_None_eq)
  with streams_isolated [OF assms, of key] show ?thesis by (simp add: Let_def)
qed

theorem streams_do_not_interfere_witness:
  "\<exists>out r st. registry_trace sample_gopacket sample_http (NewConfig Map.empty) sample_callbacks out r \<and>
     streams r 0 = Some st \<and>
     length (filter (\<lambda>e. RequestId e = 0) (filter (\<lambda>e. StreamIdent e = ident st) out)) = 1"
proof -
  obtain out r st where r: "registry_trace sample_gopacket sample_http (NewConfig Map.empty)
      sample_callbacks out r" "streams r 0 = Some st" using sample_trace by blast
  have "created sample_callbacks = 2"
    by (simp add: sample_callbacks_def sample_payload_def created_def)
  then have small: "created sample_callbacks < 2 ^ 64" by simp
  let ?p = "newHttpParser (HTTPHeadersToExtract (NewConfig Map.empty))"
  have "payloads_to 0 sample_callbacks = [(payload_of ''GET '', context_0), (payload_of ''GET '', context_0)]"
    by (simp add: sample_callbacks_def sample_payload_def payloads_to_def)
  then have "length (pair_up (with_key 0 (payload_messages sample_http ?p (payloads_to 0 sample_callbacks)))) = 1"
    using payload_request [OF sample_reads] by (simp add: length_pair_up)
  with streams_do_not_interfere [OF r(1) small r(2), of 0] r show ?thesis
    by (intro exI [of _ out] exI [of _ r] exI [of _ st]) (simp add: Let_def)
qed

text \<open>C31: A completed stream is silent: after the reassembler has completed a stream, no event names it,
  whatever streams are created and fed afterwards, as long as fewer than \<open>2 ^ 64\<close> streams are
  created in all.\<close>

theorem completed_stream_silent:
  assumes "registry_trace g lib cfg cbs out r" and "streams r c = Some st"
    and "callback_step g lib r (CbReassemblyComplete c) es r1" and "callbacks g lib r1 cbs' out' r'"
    and "created (cbs @ cbs') < 2 ^ 64"
  shows "filter (\<lambda>e. StreamIdent e = ident st) (es @ out') = []"
proof -
  have "created cbs < 2 ^ 64" using assms(5) by (simp add: created_sums)
  from completed_retires [OF assms(1) this assms(2,3)] obtain k net tr
    where k: "retired k (created (cbs @ [CbReassemblyComplete c])) r1"
    "ident st = stream_ident net tr (of_nat k)" "es = []" .
  have "registry_trace g lib cfg (cbs @ [CbReassemblyComplete c]) (out @ es) r1"
    using assms(1,3) by (rule one_more)
  from retired_silent [OF this assms(4) k(1)] assms(5) k(2,3) show ?thesis
    by (auto simp: filter_empty_conv created_sums)
qed

theorem completed_stream_silent_witness:
  "\<exists>out r st r1 out' r'.
     registry_trace sample_gopacket sample_http (NewConfig Map.empty) sample_callbacks out r \<and>
     streams r 0 = Some st \<and>
     callback_step sample_gopacket sample_http r (CbReassemblyComplete 0) [] r1 \<and>
     callbacks sample_gopacket sample_http r1 sample_later out' r' \<and>
     filter (\<lambda>e. StreamIdent e = ident st) ([] @ out') = []"
proof -
  obtain out r st where r: "registry_trace sample_gopacket sample_http (NewConfig Map.empty)
      sample_callbacks out r" "streams r 0 = Some st" using sample_trace by blast
  obtain r1 out' r' where r1: "callback_step sample_gopacket sample_http r (CbReassemblyComplete 0) [] r1"
    "callbacks sample_gopacket sample_http r1 sample_later out' r'"
    using sample_reopened [OF r(2)] by blast
  have "created (sample_callbacks @ sample_later) < 2 ^ 64"
    by (simp add: sample_callbacks_def sample_later_def sample_payload_def created_def)
  from completed_stream_silent [OF r r1 this] r r1 show ?thesis by blast
qed

end
