(* ===== verification/K8s_Client.thy ===== *)
theory K8s_Client
  imports Go_Std
begin

text \<open>
  \<open>utils/cached_k8s_client.go\<close>: naming the pods and services behind an IP address. The
  informers of client-go are arguments: an \<open>indexer\<close> is its two read operations. What they
  promise about the index functions the code installs is \<open>informer_ok\<close>. The label selector
  of apimachinery is the argument \<open>sel\<close>.
\<close>

section \<open>Objects, informers, the client\<close>

record node =
  node_Name :: string
  node_UID :: string

record pod =
  pod_Name :: string
  pod_Namespace :: string
  pod_UID :: string
  pod_Labels :: "string \<rightharpoonup> string"
  PodIP :: string
  NodeName :: string
  Containers :: "string list"

record service =
  service_Name :: string
  service_Namespace :: string
  service_UID :: string
  Selector :: "(string \<rightharpoonup> string) option"
  ClusterIP :: string

record 'o indexer =
  ByIndex :: "string \<Rightarrow> string \<Rightarrow> string + 'o list"
  StoreList :: "'o list"

record CachedK8sClient =
  nodeInformer :: "node indexer"
  podInformer :: "pod indexer"
  serviceInformer :: "service indexer"

definition byIPIndex :: string where "byIPIndex = ''ipAddr''"
definition nodeByNameIndex :: string where "nodeByNameIndex = ''nodeName''"

text \<open>The index functions the constructor installs on the three informers.\<close>

definition podIndexers :: "string \<rightharpoonup> (pod \<Rightarrow> string list)" where
  "podIndexers = [byIPIndex \<mapsto> (\<lambda>pod. [PodIP pod])]"

definition serviceIndexers :: "string \<rightharpoonup> (service \<Rightarrow> string list)" where
  "serviceIndexers = [byIPIndex \<mapsto> (\<lambda>service. [ClusterIP service])]"

definition nodeIndexers :: "string \<rightharpoonup> (node \<Rightarrow> string list)" where
  "nodeIndexers = [nodeByNameIndex \<mapsto> (\<lambda>node. [node_Name node])]"

text \<open>The constructor; the factory of informers is the three functions from index functions.\<close>

definition NewCachedK8sClient ::
  "((string \<rightharpoonup> (node \<Rightarrow> string list)) \<Rightarrow> node indexer)
    \<Rightarrow> ((string \<rightharpoonup> (pod \<Rightarrow> string list)) \<Rightarrow> pod indexer)
    \<Rightarrow> ((string \<rightharpoonup> (service \<Rightarrow> string list)) \<Rightarrow> service indexer) \<Rightarrow> CachedK8sClient" where
  "NewCachedK8sClient nodes pods services =
     \<lparr>nodeInformer = nodes nodeIndexers, podInformer = pods podIndexers,
      serviceInformer = services serviceIndexers\<rparr>"

text \<open>
  What the client is made from: the informers' constructors, the start of the informers, and
  the wait for their caches, which also says which kinds of objects were synchronised. \<open>Start\<close>
  drops that answer. The wait lasts until the caches are synchronised or the context is
  cancelled, which nothing does before the start is over: \<open>None\<close> is the wait that never ends.
\<close>

record clientset =
  Nodes :: "(string \<rightharpoonup> (node \<Rightarrow> string list)) \<Rightarrow> node indexer"
  Pods :: "(string \<rightharpoonup> (pod \<Rightarrow> string list)) \<Rightarrow> pod indexer"
  Services :: "(string \<rightharpoonup> (service \<Rightarrow> string list)) \<Rightarrow> service indexer"
  factory_Start :: "CachedK8sClient \<Rightarrow> CachedK8sClient"
  WaitForCacheSync :: "CachedK8sClient \<Rightarrow> ((string \<rightharpoonup> bool) \<times> CachedK8sClient) option"

definition Start_k8s :: "clientset \<Rightarrow> CachedK8sClient \<Rightarrow> CachedK8sClient option" where
  "Start_k8s cs c =
     (let c = factory_Start cs c
      in case WaitForCacheSync cs c of
           None \<Rightarrow> None
         | Some (synced, c) \<Rightarrow> Some c)"

text \<open>
  The documented behaviour of \<open>ByIndex\<close>: an installed index is known, and a query returns
  the stored objects whose index function yields the value, in no particular order.
\<close>

definition informer_ok :: "(string \<rightharpoonup> ('o \<Rightarrow> string list)) \<Rightarrow> 'o indexer \<Rightarrow> bool" where
  "informer_ok indexers informer \<longleftrightarrow> (\<forall>name f v. indexers name = Some f \<longrightarrow>
     (\<exists>xs. ByIndex informer name v = Inr xs \<and> set xs = {x \<in> set (StoreList informer). v \<in> set (f x)}))"

section \<open>Lookups\<close>

definition GetPodByIPAddr :: "CachedK8sClient \<Rightarrow> string \<Rightarrow> pod option" where
  "GetPodByIPAddr c ipAddr =
     (case ByIndex (podInformer c) byIPIndex ipAddr of
        Inl e \<Rightarrow> None
      | Inr val \<Rightarrow> (case val of [] \<Rightarrow> None | p # _ \<Rightarrow> Some p))"

definition GetServiceByIPAddr :: "CachedK8sClient \<Rightarrow> string \<Rightarrow> service option" where
  "GetServiceByIPAddr c ipAddr =
     (case ByIndex (serviceInformer c) byIPIndex ipAddr of
        Inl e \<Rightarrow> None
      | Inr val \<Rightarrow> (case val of [] \<Rightarrow> None | s # _ \<Rightarrow> Some s))"

text \<open>The loop over the store: the first service with a selector that matches the labels.\<close>

fun find_service ::
  "((string \<rightharpoonup> string) \<Rightarrow> (string \<rightharpoonup> string) \<Rightarrow> bool) \<Rightarrow> (string \<rightharpoonup> string)
    \<Rightarrow> service list \<Rightarrow> service option" where
  "find_service sel podLabels [] = None"
| "find_service sel podLabels (service # rest) =
     (case Selector service of
        None \<Rightarrow> find_service sel podLabels rest
      | Some selector \<Rightarrow>
          if sel selector podLabels then Some service else find_service sel podLabels rest)"

definition GetServiceForPod ::
  "((string \<rightharpoonup> string) \<Rightarrow> (string \<rightharpoonup> string) \<Rightarrow> bool) \<Rightarrow> CachedK8sClient \<Rightarrow> pod
    \<Rightarrow> service option" where
  "GetServiceForPod sel c pod = find_service sel (pod_Labels pod) (StoreList (serviceInformer c))"

definition GetNodeForPod :: "CachedK8sClient \<Rightarrow> pod \<Rightarrow> node option" where
  "GetNodeForPod c pod =
     (case ByIndex (nodeInformer c) nodeByNameIndex (NodeName pod) of
        Inl e \<Rightarrow> None
      | Inr val \<Rightarrow> (case val of [] \<Rightarrow> None | n # _ \<Rightarrow> Some n))"

section \<open>Attributes of an address\<close>

text \<open>The attribute names; those of \<open>semconv\<close> are the strings the repository's tests expect.\<close>

definition k8sResourceType :: string where "k8sResourceType = ''k8s.resource.type''"
definition k8sResourceTypePod :: string where "k8sResourceTypePod = ''pod''"
definition k8sResourceTypeService :: string where "k8sResourceTypeService = ''service''"
definition k8sServiceName :: string where "k8sServiceName = ''k8s.service.name''"
definition k8sServiceUID :: string where "k8sServiceUID = ''k8s.service.uid''"
definition K8SPodNameKey :: string where "K8SPodNameKey = ''k8s.pod.name''"
definition K8SPodUIDKey :: string where "K8SPodUIDKey = ''k8s.pod.uid''"
definition K8SNamespaceNameKey :: string where "K8SNamespaceNameKey = ''k8s.namespace.name''"
definition K8SContainerNameKey :: string where "K8SContainerNameKey = ''k8s.container.name''"
definition K8SNodeNameKey :: string where "K8SNodeNameKey = ''k8s.node.name''"
definition K8SNodeUIDKey :: string where "K8SNodeUIDKey = ''k8s.node.uid''"

lemmas k8s_key_defs =
  k8sResourceType_def k8sResourceTypePod_def k8sResourceTypeService_def k8sServiceName_def k8sServiceUID_def K8SPodNameKey_def K8SPodUIDKey_def
  K8SNamespaceNameKey_def K8SContainerNameKey_def K8SNodeNameKey_def K8SNodeUIDKey_def

definition pod_attrs ::
  "((string \<rightharpoonup> string) \<Rightarrow> (string \<rightharpoonup> string) \<Rightarrow> bool) \<Rightarrow> CachedK8sClient \<Rightarrow> string \<Rightarrow> pod
    \<Rightarrow> (string \<rightharpoonup> string)" where
  "pod_attrs sel c pre pod =
     (let attrs = Map.empty(
            pre @ k8sResourceType \<mapsto> k8sResourceTypePod,
            pre @ K8SPodNameKey \<mapsto> pod_Name pod,
            pre @ K8SPodUIDKey \<mapsto> pod_UID pod,
            pre @ K8SNamespaceNameKey \<mapsto> pod_Namespace pod);
          attrs = (if 0 < length (Containers pod)
                   then attrs(pre @ K8SContainerNameKey \<mapsto> join '','' (Containers pod))
                   else attrs);
          attrs = (case GetNodeForPod c pod of
                     Some node \<Rightarrow> attrs(pre @ K8SNodeNameKey \<mapsto> node_Name node,
                                        pre @ K8SNodeUIDKey \<mapsto> node_UID node)
                   | None \<Rightarrow> attrs)
      in case GetServiceForPod sel c pod of
           Some service \<Rightarrow> attrs(pre @ k8sServiceName \<mapsto> service_Name service,
                                 pre @ k8sServiceUID \<mapsto> service_UID service)
         | None \<Rightarrow> attrs)"

definition service_attrs :: "string \<Rightarrow> service \<Rightarrow> (string \<rightharpoonup> string)" where
  "service_attrs pre service = Map.empty(
     pre @ k8sResourceType \<mapsto> k8sResourceTypeService,
     pre @ K8SNamespaceNameKey \<mapsto> service_Namespace service,
     pre @ k8sServiceName \<mapsto> service_Name service,
     pre @ k8sServiceUID \<mapsto> service_UID service)"

definition getK8sAttrsForIp ::
  "((string \<rightharpoonup> string) \<Rightarrow> (string \<rightharpoonup> string) \<Rightarrow> bool) \<Rightarrow> CachedK8sClient
    \<Rightarrow> string \<Rightarrow> string \<Rightarrow> string \<Rightarrow> (string \<rightharpoonup> string)" where
  "getK8sAttrsForIp sel c agentIP ip pre =
     (if ip = '''' then Map.empty
      else if ip = agentIP then Map.empty
      else
        (let pre = (if pre \<noteq> '''' then pre @ ''.'' else pre) in
         case GetPodByIPAddr c ip of
           Some pod \<Rightarrow> pod_attrs sel c pre pod
         | None \<Rightarrow>
             (case GetServiceByIPAddr c ip of
                Some service \<Rightarrow> service_attrs pre service
              | None \<Rightarrow> Map.empty)))"

definition GetK8sAttrsForSourceIP ::
  "((string \<rightharpoonup> string) \<Rightarrow> (string \<rightharpoonup> string) \<Rightarrow> bool) \<Rightarrow> CachedK8sClient
    \<Rightarrow> string \<Rightarrow> string \<Rightarrow> (string \<rightharpoonup> string)" where
  "GetK8sAttrsForSourceIP sel c agentIP ip = getK8sAttrsForIp sel c agentIP ip ''source''"

definition GetK8sAttrsForDestinationIP ::
  "((string \<rightharpoonup> string) \<Rightarrow> (string \<rightharpoonup> string) \<Rightarrow> bool) \<Rightarrow> CachedK8sClient
    \<Rightarrow> string \<Rightarrow> string \<Rightarrow> (string \<rightharpoonup> string)" where
  "GetK8sAttrsForDestinationIP sel c agentIP ip = getK8sAttrsForIp sel c agentIP ip ''destination''"

section \<open>What a lookup finds\<close>

definition client_ok :: "CachedK8sClient \<Rightarrow> bool" where
  "client_ok c \<longleftrightarrow> informer_ok nodeIndexers (nodeInformer c) \<and>
     informer_ok podIndexers (podInformer c) \<and> informer_ok serviceIndexers (serviceInformer c)"

lemma first_found:
  "informer_ok fs informer \<Longrightarrow> fs name = Some (\<lambda>x. [f x]) \<Longrightarrow>
    (\<exists>xs. ByIndex informer name v = Inr xs \<and> set xs = {x \<in> set (StoreList informer). f x = v})"
  unfolding informer_ok_def by fastforce

lemma pod_lookup:
  assumes "client_ok c"
  shows "GetPodByIPAddr c ip = Some p \<Longrightarrow> p \<in> set (StoreList (podInformer c)) \<and> PodIP p = ip"
    and "GetPodByIPAddr c ip = None \<longleftrightarrow> (\<forall>p \<in> set (StoreList (podInformer c)). PodIP p \<noteq> ip)"
proof -
  obtain xs where xs: "ByIndex (podInformer c) byIPIndex ip = Inr xs"
    "set xs = {p \<in> set (StoreList (podInformer c)). PodIP p = ip}"
    using first_found [of podIndexers "podInformer c" byIPIndex PodIP ip] assms
    by (auto simp: client_ok_def podIndexers_def)
  show "GetPodByIPAddr c ip = Some p \<Longrightarrow> p \<in> set (StoreList (podInformer c)) \<and> PodIP p = ip"
    using xs by (auto simp: GetPodByIPAddr_def split: list.splits)
  show "GetPodByIPAddr c ip = None \<longleftrightarrow> (\<forall>p \<in> set (StoreList (podInformer c)). PodIP p \<noteq> ip)"
    using xs by (auto simp: GetPodByIPAddr_def split: list.splits)
qed

lemma service_lookup:
  assumes "client_ok c"
  shows "GetServiceByIPAddr c ip = Some s \<Longrightarrow>
      s \<in> set (StoreList (serviceInformer c)) \<and> ClusterIP s = ip"
    and "GetServiceByIPAddr c ip = None \<longleftrightarrow> (\<forall>s \<in> set (StoreList (serviceInformer c)). ClusterIP s \<noteq> ip)"
proof -
  obtain xs where xs: "ByIndex (serviceInformer c) byIPIndex ip = Inr xs"
    "set xs = {s \<in> set (StoreList (serviceInformer c)). ClusterIP s = ip}"
    using first_found [of serviceIndexers "serviceInformer c" byIPIndex ClusterIP ip] assms
    by (auto simp: client_ok_def serviceIndexers_def)
  show "GetServiceByIPAddr c ip = Some s \<Longrightarrow>
      s \<in> set (StoreList (serviceInformer c)) \<and> ClusterIP s = ip"
    using xs by (auto simp: GetServiceByIPAddr_def split: list.splits)
  show "GetServiceByIPAddr c ip = None \<longleftrightarrow> (\<forall>s \<in> set (StoreList (serviceInformer c)). ClusterIP s \<noteq> ip)"
    using xs by (auto simp: GetServiceByIPAddr_def split: list.splits)
qed

lemma node_lookup:
  assumes "client_ok c"
  shows "GetNodeForPod c p = Some n \<Longrightarrow>
      n \<in> set (StoreList (nodeInformer c)) \<and> node_Name n = NodeName p"
    and "GetNodeForPod c p = None \<longleftrightarrow> (\<forall>n \<in> set (StoreList (nodeInformer c)). node_Name n \<noteq> NodeName p)"
proof -
  obtain xs where xs: "ByIndex (nodeInformer c) nodeByNameIndex (NodeName p) = Inr xs"
    "set xs = {n \<in> set (StoreList (nodeInformer c)). node_Name n = NodeName p}"
    using first_found [of nodeIndexers "nodeInformer c" nodeByNameIndex node_Name "NodeName p"] assms
    by (auto simp: client_ok_def nodeIndexers_def)
  show "GetNodeForPod c p = Some n \<Longrightarrow>
      n \<in> set (StoreList (nodeInformer c)) \<and> node_Name n = NodeName p"
    using xs by (auto simp: GetNodeForPod_def split: list.splits)
  show "GetNodeForPod c p = None \<longleftrightarrow> (\<forall>n \<in> set (StoreList (nodeInformer c)). node_Name n \<noteq> NodeName p)"
    using xs by (auto simp: GetNodeForPod_def split: list.splits)
qed

text \<open>
  The start of the cache. The documentation promises that the indices work, and that after the
  wait a kind of objects reported as synchronised is in its store as the cluster has it.
\<close>

definition sync_ok :: "clientset \<Rightarrow> pod set \<Rightarrow> service set \<Rightarrow> CachedK8sClient \<Rightarrow> bool" where
  "sync_ok cs pods services c \<longleftrightarrow>
     (case WaitForCacheSync cs (factory_Start cs c) of
        None \<Rightarrow> True
      | Some (synced, c') \<Rightarrow>
        client_ok c' \<and>
        (synced ''pods'' = Some True \<longrightarrow> set (StoreList (podInformer c')) = pods) \<and>
        (synced ''services'' = Some True \<longrightarrow> set (StoreList (serviceInformer c')) = services))"

definition synced_kinds :: "clientset \<Rightarrow> CachedK8sClient \<Rightarrow> (string \<rightharpoonup> bool)" where
  "synced_kinds cs c =
     (case WaitForCacheSync cs (factory_Start cs c) of None \<Rightarrow> Map.empty | Some (synced, c') \<Rightarrow> synced)"

lemma started_client:
  assumes "sync_ok cs pods services c" and "Start_k8s cs c = Some c'"
  shows "client_ok c'"
    and "synced_kinds cs c ''pods'' = Some True \<Longrightarrow> set (StoreList (podInformer c')) = pods"
    and "synced_kinds cs c ''services'' = Some True \<Longrightarrow> set (StoreList (serviceInformer c')) = services"
  using assms
  by (auto simp: sync_ok_def synced_kinds_def Start_k8s_def Let_def split: option.splits prod.splits)

definition selects ::
  "((string \<rightharpoonup> string) \<Rightarrow> (string \<rightharpoonup> string) \<Rightarrow> bool) \<Rightarrow> service \<Rightarrow> (string \<rightharpoonup> string) \<Rightarrow> bool" where
  "selects sel s labels \<longleftrightarrow> (\<exists>selector. Selector s = Some selector \<and> sel selector labels)"

lemma find_service_find: "find_service sel labels xs = find (\<lambda>s. selects sel s labels) xs"
  by (induction xs) (auto simp: selects_def split: option.splits)

section \<open>Keys\<close>

definition k8s_keys :: "string set" where
  "k8s_keys = {k8sResourceType, k8sServiceName, k8sServiceUID, K8SPodNameKey, K8SPodUIDKey,
     K8SNamespaceNameKey, K8SContainerNameKey, K8SNodeNameKey, K8SNodeUIDKey}"

lemma pod_attrs_keys: "dom (pod_attrs sel c pre pod) \<subseteq> (\<lambda>k. pre @ k) ` k8s_keys"
  by (auto simp: pod_attrs_def k8s_keys_def Let_def split: if_splits option.splits)

lemma service_attrs_keys: "dom (service_attrs pre service) \<subseteq> (\<lambda>k. pre @ k) ` k8s_keys"
  by (auto simp: service_attrs_def k8s_keys_def split: if_splits)

lemma k8s_attr_keys:
  "pre \<noteq> '''' \<Longrightarrow> dom (getK8sAttrsForIp sel c agentIP ip pre) \<subseteq> (\<lambda>k. pre @ ''.'' @ k) ` k8s_keys"
  using pod_attrs_keys [of sel c "pre @ ''.''"] service_attrs_keys [of "pre @ ''.''"]
  by (fastforce simp: getK8sAttrsForIp_def Let_def split: if_splits option.splits)

lemma finite_k8s_keys [simp]: "finite k8s_keys"
  by (simp add: k8s_keys_def)

lemma finite_k8s_attrs: "pre \<noteq> '''' \<Longrightarrow> finite (dom (getK8sAttrsForIp sel c agentIP ip pre))"
  by (rule finite_subset [OF k8s_attr_keys]) simp_all

section \<open>The interface the handlers use\<close>

text \<open>
  The handlers ask for the attributes of the two ends of an event. They rely on the two sets
  of names being prefixed by the role, so that neither can overwrite the other, or anything
  else in the event, and on nothing being said about the agent's own address.
\<close>

locale address_attributes =
  fixes src :: "string \<Rightarrow> string \<Rightarrow> (string \<rightharpoonup> string)"
    and dst :: "string \<Rightarrow> string \<Rightarrow> (string \<rightharpoonup> string)"
  assumes src_keys: "k \<in> dom (src agent ip) \<Longrightarrow> prefix ''source.k8s.'' k"
    and dst_keys: "k \<in> dom (dst agent ip) \<Longrightarrow> prefix ''destination.k8s.'' k"
    and finite_src: "finite (dom (src agent ip))"
    and finite_dst: "finite (dom (dst agent ip))"
    and agent_src: "src agent agent = Map.empty"
    and agent_dst: "dst agent agent = Map.empty"
begin

lemma ends_disjoint: "dom (src agent ip) \<inter> dom (dst agent ip') = {}"
proof -
  have "\<not> (prefix ''source.k8s.'' k \<and> prefix ''destination.k8s.'' k)" for k
    by (cases k) auto
  then show ?thesis using src_keys dst_keys by blast
qed

text \<open>Names without a role prefix are not touched.\<close>

lemma other_keys:
  "\<not> prefix ''source.k8s.'' k \<Longrightarrow> k \<notin> dom (src agent ip)"
  "\<not> prefix ''destination.k8s.'' k \<Longrightarrow> k \<notin> dom (dst agent ip)"
  using src_keys dst_keys by blast+

end

lemma agent_attrs: "getK8sAttrsForIp sel c agent agent pre = Map.empty"
  by (simp add: getK8sAttrsForIp_def)

lemma k8s_keys_prefix: "k \<in> k8s_keys \<Longrightarrow> prefix ''k8s.'' k"
  by (auto simp: k8s_keys_def k8s_key_defs)

interpretation k8s: address_attributes
  "GetK8sAttrsForSourceIP sel c" "GetK8sAttrsForDestinationIP sel c" for sel c
proof
  fix k agent ip
  show "prefix ''source.k8s.'' k" if "k \<in> dom (GetK8sAttrsForSourceIP sel c agent ip)"
    using that k8s_attr_keys [of "''source''" sel c agent ip] k8s_keys_prefix
    by (auto simp: GetK8sAttrsForSourceIP_def)
  show "prefix ''destination.k8s.'' k" if "k \<in> dom (GetK8sAttrsForDestinationIP sel c agent ip)"
    using that k8s_attr_keys [of "''destination''" sel c agent ip] k8s_keys_prefix
    by (auto simp: GetK8sAttrsForDestinationIP_def)
qed (simp_all add: GetK8sAttrsForSourceIP_def GetK8sAttrsForDestinationIP_def finite_k8s_attrs
    agent_attrs)

section \<open>A cache with given contents\<close>

text \<open>An informer that answers from a list, as the documentation says; for the witnesses.\<close>

definition stored :: "'o list \<Rightarrow> (string \<rightharpoonup> ('o \<Rightarrow> string list)) \<Rightarrow> 'o indexer" where
  "stored xs indexers = \<lparr>
     ByIndex = (\<lambda>name v. case indexers name of
       None \<Rightarrow> Inl ''no such index'' | Some f \<Rightarrow> Inr (filter (\<lambda>x. v \<in> set (f x)) xs)),
     StoreList = xs\<rparr>"

lemma stored_ok: "informer_ok indexers (stored xs indexers)"
  by (auto simp: informer_ok_def stored_def)

definition sample_client :: CachedK8sClient where
  "sample_client = NewCachedK8sClient
     (stored [\<lparr>node_Name = ''node-1'', node_UID = ''n1''\<rparr>])
     (stored [\<lparr>pod_Name = ''web'', pod_Namespace = ''shop'', pod_UID = ''p1'',
        pod_Labels = [''app'' \<mapsto> ''web''], PodIP = ''10.0.0.5'', NodeName = ''node-1'',
        Containers = [''nginx'', ''sidecar'']\<rparr>])
     (stored [\<lparr>service_Name = ''web'', service_Namespace = ''shop'', service_UID = ''s1'',
        Selector = Some [''app'' \<mapsto> ''web''], ClusterIP = ''10.1.0.1''\<rparr>])"

lemma sample_client_ok: "client_ok sample_client"
  by (simp add: client_ok_def sample_client_def NewCachedK8sClient_def stored_ok)

text \<open>A clientset whose informers have the sample's objects once they are started.\<close>

definition sample_clientset :: clientset where
  "sample_clientset = \<lparr>Nodes = stored [], Pods = stored [], Services = stored [],
     factory_Start = (\<lambda>c. sample_client),
     WaitForCacheSync = (\<lambda>c. Some ([''pods'' \<mapsto> True, ''services'' \<mapsto> True], c))\<rparr>"

lemma sample_sync_ok:
  "sync_ok sample_clientset (set (StoreList (podInformer sample_client)))
     (set (StoreList (serviceInformer sample_client))) c"
  by (simp add: sync_ok_def sample_clientset_def sample_client_ok)

section \<open>Facts about the attributes\<close>

lemma pod_attrs_values:
  "pod_attrs sel c pre pod (pre @ k8sResourceType) = Some ''pod''"
  "pod_attrs sel c pre pod (pre @ K8SPodNameKey) = Some (pod_Name pod)"
  "pod_attrs sel c pre pod (pre @ K8SNodeNameKey) = map_option node_Name (GetNodeForPod c pod)"
  "pod_attrs sel c pre pod (pre @ k8sServiceName) =
     map_option service_Name (GetServiceForPod sel c pod)"
  by (simp_all add: pod_attrs_def k8s_key_defs Let_def split: option.split)

lemma service_attrs_values:
  "service_attrs pre s (pre @ k8sResourceType) = Some ''service''"
  "service_attrs pre s (pre @ K8SPodNameKey) = None"
  "service_attrs pre s (pre @ k8sServiceName) = Some (service_Name s)"
  by (simp_all add: service_attrs_def k8s_key_defs)

lemma source_attrs:
  assumes "ip \<noteq> ''''" and "ip \<noteq> agentIP"
  shows "GetK8sAttrsForSourceIP sel c agentIP ip =
    (case GetPodByIPAddr c ip of
       Some pod \<Rightarrow> pod_attrs sel c ''source.'' pod
     | None \<Rightarrow> (case GetServiceByIPAddr c ip of
         Some service \<Rightarrow> service_attrs ''source.'' service | None \<Rightarrow> Map.empty))"
  using assms by (simp add: GetK8sAttrsForSourceIP_def getK8sAttrsForIp_def Let_def)

section \<open>Properties\<close>

text \<open>C35: Of a started cache whose pods and services were synchronised, an address other than the
  agent's own is reported as: a pod if the cluster has a pod with that address, else a service
  if it has a service with it, else nothing; and the pod that is named is one with that
  address.\<close>

theorem address_resource:
  assumes "sync_ok cs pods services c" and "Start_k8s cs c = Some started"
    and "synced_kinds cs c ''pods'' = Some True" and "synced_kinds cs c ''services'' = Some True"
    and "ip \<noteq> ''''" and "ip \<noteq> agentIP"
  shows "GetK8sAttrsForSourceIP sel started agentIP ip ''source.k8s.resource.type'' =
      (if \<exists>p \<in> pods. PodIP p = ip then Some ''pod''
       else if \<exists>s \<in> services. ClusterIP s = ip then Some ''service''
       else None) \<and>
    (case GetK8sAttrsForSourceIP sel started agentIP ip ''source.k8s.pod.name'' of
       None \<Rightarrow> \<forall>p \<in> pods. PodIP p \<noteq> ip
     | Some name \<Rightarrow> \<exists>p \<in> pods. PodIP p = ip \<and> pod_Name p = name)"
proof -
  note client = started_client [OF assms(1,2)]
  show ?thesis
    using pod_lookup [OF client(1), of ip] service_lookup [OF client(1), of ip]
      client(2) [OF assms(3)] client(3) [OF assms(4)]
      pod_attrs_values(1,2) [of sel started "''source.''"]
      service_attrs_values(1,2) [of "''source.''"]
    by (auto simp: source_attrs assms(5,6) k8s_key_defs split: option.splits)
qed

theorem address_resource_witness:
  "\<exists>started. Start_k8s sample_clientset sample_client = Some started \<and>
     GetK8sAttrsForSourceIP (\<lambda>selector labels. selector \<subseteq>\<^sub>m labels) started ''10.0.0.9'' ''10.0.0.5''
       ''source.k8s.resource.type'' = Some ''pod''"
proof -
  have "synced_kinds sample_clientset sample_client = [''pods'' \<mapsto> True, ''services'' \<mapsto> True]"
    by (simp add: synced_kinds_def sample_clientset_def)
  moreover have "Start_k8s sample_clientset sample_client = Some sample_client"
    by (simp add: Start_k8s_def sample_clientset_def)
  ultimately show ?thesis
    using address_resource [OF sample_sync_ok, of sample_client sample_client "''10.0.0.5''" "''10.0.0.9''"]
    by (simp add: sample_client_def NewCachedK8sClient_def stored_def)
qed

text \<open>The attributes of the two ends never collide, with each other or with any other name of a
  report: each name is the role, a dot, and one of nine Kubernetes names; and nothing is said
  about the agent's own address.\<close>

lemma end_attributes_separate:
  "dom (GetK8sAttrsForSourceIP sel c agentIP ip) \<subseteq> (\<lambda>k. ''source.'' @ k) ` k8s_keys \<and>
   dom (GetK8sAttrsForDestinationIP sel c agentIP ip') \<subseteq> (\<lambda>k. ''destination.'' @ k) ` k8s_keys \<and>
   dom (GetK8sAttrsForSourceIP sel c agentIP ip) \<inter> dom (GetK8sAttrsForDestinationIP sel c agentIP ip') = {} \<and>
   GetK8sAttrsForSourceIP sel c agentIP agentIP = Map.empty \<and>
   GetK8sAttrsForDestinationIP sel c agentIP agentIP = Map.empty"
  using k8s_attr_keys [of "''source''" sel c agentIP ip]
    k8s_attr_keys [of "''destination''" sel c agentIP ip'] k8s.ends_disjoint [of sel c agentIP ip ip']
  by (simp add: GetK8sAttrsForSourceIP_def GetK8sAttrsForDestinationIP_def agent_attrs)

text \<open>The service named for a pod is the first one in the cache with a selector that matches the
  pod's labels. The namespaces play no part, so it may be a service that cannot select the pod.\<close>

lemma service_for_pod:
  "GetServiceForPod sel c pod =
     find (\<lambda>s. case Selector s of None \<Rightarrow> False | Some selector \<Rightarrow> sel selector (pod_Labels pod))
       (StoreList (serviceInformer c)) \<and>
   GetServiceForPod sel c (pod\<lparr>pod_Namespace := ns\<rparr>) = GetServiceForPod sel c pod"
proof -
  have "(\<lambda>s. selects sel s (pod_Labels pod)) =
      (\<lambda>s. case Selector s of None \<Rightarrow> False | Some selector \<Rightarrow> sel selector (pod_Labels pod))"
    by (rule ext) (auto simp: selects_def split: option.split)
  then show ?thesis by (simp add: GetServiceForPod_def find_service_find)
qed

end
