(* ===== verification/Event_Handler.thy ===== *)
theory Event_Handler
  imports Config Events Telemetry K8s_Client
begin

text \<open>
  \<open>handlers/event_handler.go\<close>: the interface of the handlers, the choice of one, and the
  sanitised names of headers. What the handlers call outside the repository is collected in
  the record \<open>handler_env\<close>: the Unicode case mapping behind \<open>strings.ToLower\<close>,
  \<open>url.ParseRequestURI\<close>, the text form of a time, the label selector of Kubernetes. The
  readings of the clock during one call are a function of their number, and the orders in
  which one call ranges over Go maps are another.
\<close>

record handler_env =
  map_runes :: "string \<Rightarrow> string"
  ParseRequestURI :: "string \<Rightarrow> string option"
  time_String :: "time \<Rightarrow> string"
  selector_matches :: "(string \<rightharpoonup> string) \<Rightarrow> (string \<rightharpoonup> string) \<Rightarrow> bool"

type_synonym clock = "nat \<Rightarrow> time"
type_synonym range_orders = "nat \<Rightarrow> string set \<Rightarrow> string list"

definition orders_ok :: "range_orders \<Rightarrow> bool" where
  "orders_ok ord \<longleftrightarrow> (\<forall>i S. finite S \<longrightarrow> distinct (ord i S) \<and> set (ord i S) = S)"

lemma orders_enumerate: "orders_ok ord \<Longrightarrow> finite (dom m) \<Longrightarrow> enumerates (ord i (dom m)) m"
  by (simp add: orders_ok_def enumerates_def)

section \<open>Choosing a handler\<close>

datatype handler_kind = Libhoney | Otel

definition chosen_handler :: "config \<Rightarrow> handler_kind" where
  "chosen_handler cfg =
     (if EventHandlerType cfg = ''libhoney'' then Libhoney
      else if EventHandlerType cfg = ''otel'' then Otel
      else Libhoney)"

section \<open>Sanitised headers\<close>

definition sanitize_key :: "handler_env \<Rightarrow> bool \<Rightarrow> string \<Rightarrow> string" where
  "sanitize_key env isRequest key =
     (if isRequest then ''http.request.header'' else ''http.response.header'') @ ''.'' @
     to_lower (map_runes env) (replace_byte CHR ''-'' CHR ''_'' key)"

fun sanitize_loop ::
  "handler_env \<Rightarrow> bool \<Rightarrow> header \<Rightarrow> (string \<rightharpoonup> string) \<Rightarrow> string list \<Rightarrow> (string \<rightharpoonup> string)" where
  "sanitize_loop env isRequest h headers [] = headers"
| "sanitize_loop env isRequest h headers (key # keys) =
     (case h key of
        Some values \<Rightarrow>
          sanitize_loop env isRequest h
            (headers(sanitize_key env isRequest key \<mapsto> join '','' values)) keys
      | None \<Rightarrow> sanitize_loop env isRequest h headers keys)"

definition sanitizeHeaders ::
  "handler_env \<Rightarrow> bool \<Rightarrow> http_header \<Rightarrow> string list \<Rightarrow> (string \<rightharpoonup> string)" where
  "sanitizeHeaders env isRequest h keys =
     sanitize_loop env isRequest (header_map h) Map.empty keys"

definition header_prefix :: "bool \<Rightarrow> string" where
  "header_prefix isRequest =
     (if isRequest then ''http.request.header.'' else ''http.response.header.'')"

lemma sanitize_key_prefix: "prefix (header_prefix b) (sanitize_key env b k)"
  by (simp add: header_prefix_def sanitize_key_def)

definition sanitize_pair ::
  "handler_env \<Rightarrow> bool \<Rightarrow> string \<times> string list \<Rightarrow> string \<times> string" where
  "sanitize_pair env b p = (sanitize_key env b (fst p), join '','' (snd p))"

lemma sanitize_loop_write_all:
  "sanitize_loop env b h m keys = write_all m (map (sanitize_pair env b) (pairs_in h keys))"
  by (induction keys arbitrary: m) (auto simp: pairs_in_def sanitize_pair_def split: option.splits)

lemma sanitizeHeaders_write_all:
  "sanitizeHeaders env b h keys =
     write_all Map.empty (map (sanitize_pair env b) (pairs_in (header_map h) keys))"
  by (simp add: sanitizeHeaders_def sanitize_loop_write_all)

lemma sanitizeHeaders_keys:
  "k \<in> dom (sanitizeHeaders env b h keys) \<Longrightarrow> prefix (header_prefix b) k"
  by (auto simp: sanitizeHeaders_write_all dom_write_all sanitize_pair_def sanitize_key_prefix)

text \<open>Every value reported comes from a field of that sanitised name.\<close>

lemma sanitizeHeaders_sound:
  assumes "sanitizeHeaders env b h keys k = Some v"
  shows "\<exists>key vs. header_map h key = Some vs \<and> k = sanitize_key env b key \<and> v = join '','' vs"
proof -
  from assms have "(k, v) \<in> sanitize_pair env b ` set (pairs_in (header_map h) keys)"
    unfolding sanitizeHeaders_write_all by (auto dest!: write_all_in_range)
  then obtain key vs where "(key, vs) \<in> set (pairs_in (header_map h) keys)"
    and "k = sanitize_key env b key" "v = join '','' vs"
    by (auto simp: sanitize_pair_def)
  with pairs_in_sound [OF this(1)] show ?thesis by auto
qed

text \<open>Without two fields of one sanitised name, the result does not depend on the order.\<close>

lemma sanitizeHeaders_complete:
  assumes "enumerates keys (header_map h)" and "inj_on (sanitize_key env b) (dom (header_map h))"
    and "header_map h k = Some vs"
  shows "sanitizeHeaders env b h keys (sanitize_key env b k) = Some (join '','' vs)"
proof -
  have "map fst (map (sanitize_pair env b) (pairs_in (header_map h) keys)) =
      map (sanitize_key env b) (filter (\<lambda>k. header_map h k \<noteq> None) keys)"
    by (simp add: sanitize_pair_def pairs_in_def)
  moreover have "inj_on (sanitize_key env b) (set (filter (\<lambda>k. header_map h k \<noteq> None) keys))"
    using assms(2) by (rule inj_on_subset) auto
  ultimately have "distinct (map fst (map (sanitize_pair env b) (pairs_in (header_map h) keys)))"
    using assms(1) by (simp add: enumerates_def distinct_map)
  moreover have "(sanitize_key env b k, join '','' vs) \<in>
      set (map (sanitize_pair env b) (pairs_in (header_map h) keys))"
    using assms(1,3) by (auto simp: set_pairs_in sanitize_pair_def intro!: image_eqI [of _ _ "(k, vs)"])
  ultimately show ?thesis
    unfolding sanitizeHeaders_write_all by (rule write_all_distinct)
qed

lemma sanitizeHeaders_iff:
  assumes "enumerates keys (header_map h)" and "inj_on (sanitize_key env b) (dom (header_map h))"
  shows "sanitizeHeaders env b h keys k = Some v \<longleftrightarrow>
    (\<exists>key vs. header_map h key = Some vs \<and> k = sanitize_key env b key \<and> v = join '','' vs)"
  using sanitizeHeaders_sound sanitizeHeaders_complete [OF assms] by fastforce

section \<open>The interface of a handler\<close>

text \<open>
  \<open>EventHandler\<close>: the Start loop hands each event to \<open>handleEvent\<close>, which may emit telemetry
  (\<open>'o\<close> is what one call hands to the telemetry library). The calls are numbered, since each
  has readings of the clock, orders of Go's maps and contents of the Kubernetes cache of its
  own. Clients rely on one emission per HTTP event, naming its stream and its request.
\<close>

fun handle_all :: "(nat \<Rightarrow> Event \<Rightarrow> 'o list) \<Rightarrow> nat \<Rightarrow> Event list \<Rightarrow> 'o list" where
  "handle_all handle n [] = []"
| "handle_all handle n (ev # evs) = handle n ev @ handle_all handle (Suc n) evs"

text \<open>
  The loop of \<open>Start\<close>, over the cases its select chooses; it returns at the first choice of the
  context's case. The result says what was handed out and whether the loop has returned.
\<close>

datatype handler_choice = ContextDone | Received Event

fun handler_loop ::
  "(nat \<Rightarrow> Event \<Rightarrow> 'o list) \<Rightarrow> nat \<Rightarrow> handler_choice list \<Rightarrow> 'o list \<times> bool" where
  "handler_loop handle n [] = ([], False)"
| "handler_loop handle n (ContextDone # cs) = ([], True)"
| "handler_loop handle n (Received ev # cs) =
     (let (os, returned) = handler_loop handle (Suc n) cs in (handle n ev @ os, returned))"

definition received_events :: "handler_choice list \<Rightarrow> Event list" where
  "received_events cs = concat (map (\<lambda>c. case c of Received ev \<Rightarrow> [ev] | ContextDone \<Rightarrow> [])
     (takeWhile (\<lambda>c. c \<noteq> ContextDone) cs))"

lemma handler_loop_handles:
  "handler_loop handle n cs = (handle_all handle n (received_events cs), ContextDone \<in> set cs)"
  by (induction handle n cs rule: handler_loop.induct) (simp_all add: received_events_def)

lemma handle_all_append:
  "handle_all handle n (xs @ ys) = handle_all handle n xs @ handle_all handle (n + length xs) ys"
  by (induction xs arbitrary: n) simp_all

locale event_handler =
  fixes handleEvent :: "nat \<Rightarrow> Event \<Rightarrow> 'o list"
    and emitted_ident :: "'o \<Rightarrow> fieldValue option"
    and emitted_request :: "'o \<Rightarrow> fieldValue option"
  assumes one_emission: "length (handleEvent n (EvHttp e)) = 1"
    and names_stream: "x \<in> set (handleEvent n ev) \<Longrightarrow> emitted_ident x = Some (VString (StreamIdent ev))"
    and names_request: "x \<in> set (handleEvent n ev) \<Longrightarrow>
      emitted_request x = Some (VInt (sint (RequestId ev)))"
begin

lemma handled_length:
  "(\<forall>ev \<in> set evs. \<exists>e. ev = EvHttp e) \<Longrightarrow> length (handle_all handleEvent n evs) = length evs"
  by (induction evs arbitrary: n) (auto simp: one_emission)

lemma handled_idents:
  "(\<forall>ev \<in> set evs. \<exists>e. ev = EvHttp e) \<Longrightarrow>
    map (\<lambda>x. (emitted_ident x, emitted_request x)) (handle_all handleEvent n evs) =
    map (\<lambda>ev. (Some (VString (StreamIdent ev)), Some (VInt (sint (RequestId ev))))) evs"
proof (induction evs arbitrary: n)
  case (Cons ev evs)
  then obtain e where "ev = EvHttp e" by auto
  with one_emission [of n e] obtain x where x: "handleEvent n ev = [x]"
    by (auto simp: length_Suc_conv)
  with names_stream [of x n ev] names_request [of x n ev] Cons show ?case by simp
qed simp

text \<open>The loop of \<open>Start\<close> reports each event received before it returns, once and in order.\<close>

lemma loop_idents:
  assumes "\<forall>ev \<in> set (received_events cs). \<exists>e. ev = EvHttp e"
  shows "map emitted_ident (fst (handler_loop handleEvent n cs)) =
    map (\<lambda>ev. Some (VString (StreamIdent ev))) (received_events cs)"
  using arg_cong [OF handled_idents [OF assms], of "map fst"]
  by (simp add: handler_loop_handles comp_def)

end

section \<open>Properties\<close>

text \<open>
  The name the documentation of the function promises: the prefix, then the field's name in
  lower case with underscores for its dashes. The names of header fields are ASCII.
\<close>

definition reported_name :: "bool \<Rightarrow> string \<Rightarrow> string" where
  "reported_name isRequest key =
     (if isRequest then ''http.request.header.'' else ''http.response.header.'') @
     map (\<lambda>c. if c = CHR ''-'' then CHR ''_'' else if is_upper c then char_of (byte_val c + 32) else c) key"

lemma sanitize_key_ascii:
  assumes "list_all is_ascii key"
  shows "sanitize_key env isRequest key = reported_name isRequest key"
proof -
  have "\<not> is_upper CHR ''-''" "is_ascii CHR ''_''" "\<not> is_upper CHR ''_''"
    by (simp_all add: is_upper_def is_ascii_def byte_val_def)
  with assms show ?thesis
    by (auto simp: sanitize_key_def reported_name_def replace_byte_def to_lower_def lower_byte_def list_all_iff)
qed

text \<open>C36: Provided the names of the fields are ASCII and no two of them are reported under one name,
  the sanitised headers are exactly the fields of the message, each under its prefixed
  lower-case name with underscores for dashes and with its values joined by commas, in whatever
  order Go ranges over the map.\<close>

theorem sanitized_headers_exact:
  assumes "enumerates keys (header_map h)" and "\<forall>key \<in> dom (header_map h). list_all is_ascii key"
    and "inj_on (reported_name isRequest) (dom (header_map h))"
  shows "sanitizeHeaders env isRequest h keys k = Some v \<longleftrightarrow>
    (\<exists>key vs. header_map h key = Some vs \<and> k = reported_name isRequest key \<and> v = join '','' vs)"
proof -
  have same: "sanitize_key env isRequest key = reported_name isRequest key"
    if "key \<in> dom (header_map h)" for key
    using that assms(2) by (simp add: sanitize_key_ascii)
  then have "inj_on (sanitize_key env isRequest) (dom (header_map h))"
    using assms(3) by (simp cong: inj_on_cong)
  from sanitizeHeaders_iff [OF assms(1) this, of k v] same show ?thesis by (fastforce simp: dom_def)
qed

definition sample_env :: handler_env where
  "sample_env = \<lparr>map_runes = (\<lambda>s. s), ParseRequestURI = (\<lambda>u. Some u),
     time_String = (\<lambda>t. if t < 0 then ''-'' else decimal (nat t)),
     selector_matches = (\<lambda>selector labels. True)\<rparr>"

theorem sanitized_headers_exact_witness:
  "sanitizeHeaders sample_env True
     (Some [''User-Agent'' \<mapsto> [''curl''], ''Accept'' \<mapsto> [''a'', ''b'']]) [''Accept'', ''User-Agent'']
     ''http.request.header.user_agent'' = Some ''curl''"
proof -
  let ?h = "Some [''User-Agent'' \<mapsto> [''curl''], ''Accept'' \<mapsto> [''a'', ''b'']]"
  have key: "reported_name True ''User-Agent'' = ''http.request.header.user_agent''"
    "reported_name True ''Accept'' = ''http.request.header.accept''" by code_simp+
  have "enumerates [''Accept'', ''User-Agent''] (header_map ?h)" by (auto simp: enumerates_def)
  moreover have "\<forall>key \<in> dom (header_map ?h). list_all is_ascii key" by (simp add: is_ascii_def byte_val_def)
  moreover have "inj_on (reported_name True) (dom (header_map ?h))"
    by (simp add: key)
  ultimately show ?thesis
    by (subst sanitized_headers_exact)
       (auto simp: key intro!: exI [of _ "''User-Agent''"])
qed

text \<open>Two fields that differ only in a dash and an underscore have one sanitised name, and which
  of their values is reported depends on the order in which Go ranges over the map.\<close>

lemma sanitized_headers_collision:
  "sanitizeHeaders env isRequest (Some [''X-Id'' \<mapsto> [a], ''X_Id'' \<mapsto> [b]]) [''X-Id'', ''X_Id'']
     (sanitize_key env isRequest ''X-Id'') = Some b \<and>
   sanitizeHeaders env isRequest (Some [''X-Id'' \<mapsto> [a], ''X_Id'' \<mapsto> [b]]) [''X_Id'', ''X-Id'']
     (sanitize_key env isRequest ''X-Id'') = Some a"
proof -
  have "sanitize_key env isRequest ''X_Id'' = sanitize_key env isRequest ''X-Id''"
    by (simp add: sanitize_key_def replace_byte_def)
  then show ?thesis by (simp add: sanitizeHeaders_def)
qed

end
