(* ===== verification/Libhoney_Handler.thy ===== *)
theory Libhoney_Handler
  imports Event_Handler
begin

text \<open>
  \<open>handlers/libhoney_event_handler.go\<close>: an event becomes one \<open>libhoney.Event\<close>, described by
  the AddField calls made on it.
\<close>

record libhoneyEventHandler =
  lh_config :: config
  lh_k8sClient :: CachedK8sClient

section \<open>Global fields\<close>

record libhoney_init =
  UserAgentAddition :: string
  init_APIKey :: string
  init_Dataset :: string
  init_APIHost :: string
  global_fields :: fields

text \<open>The last argument is the order in which the loop ranges over the additional attributes.\<close>

definition initLibhoney :: "config \<Rightarrow> string \<Rightarrow> string list \<Rightarrow> libhoney_init" where
  "initLibhoney cfg version keys = \<lparr>
     UserAgentAddition = ''hny-network-agent/'' @ version,
     init_APIKey = APIKey cfg,
     init_Dataset = Dataset cfg,
     init_APIHost = Endpoint cfg,
     global_fields =
       [(''honeycomb.agent.name'', VString ''Honeycomb Network Agent''),
        (''honeycomb.agent.version'', VString version)] @
       (if AgentNodeIP cfg \<noteq> '''' then [(''meta.agent.node.ip'', VString (AgentNodeIP cfg))] else []) @
       (if AgentNodeName cfg \<noteq> '''' then [(''meta.agent.node.name'', VString (AgentNodeName cfg))] else []) @
       (if AgentServiceAccount cfg \<noteq> ''''
        then [(''meta.agent.serviceaccount.name'', VString (AgentServiceAccount cfg))] else []) @
       (if AgentPodIP cfg \<noteq> '''' then [(''meta.agent.pod.ip'', VString (AgentPodIP cfg))] else []) @
       (if AgentPodName cfg \<noteq> '''' then [(''meta.agent.pod.name'', VString (AgentPodName cfg))] else []) @
       map (\<lambda>(k, v). (k, VString v)) (pairs_in (AdditionalAttributes cfg) keys)\<rparr>"

text \<open>
  The constructor: the handler, and what libhoney is initialised with. The function
  \<open>initLibhoney\<close> returns is dropped, as it is in the code; \<open>Close\<close> calls the library's own.
\<close>

definition NewLibhoneyEventHandler ::
  "config \<Rightarrow> CachedK8sClient \<Rightarrow> string \<Rightarrow> string list \<Rightarrow> libhoney_init \<times> libhoneyEventHandler" where
  "NewLibhoneyEventHandler cfg client version keys =
     (initLibhoney cfg version keys, \<lparr>lh_config = cfg, lh_k8sClient = client\<rparr>)"

section \<open>Timestamps\<close>

text \<open>
  Each \<open>time.Now\<close> and \<open>time.Since\<close> of the call is the next reading of the clock.
\<close>

definition setTimestampsAndDurationIfValid :: "clock \<Rightarrow> honeyEvent \<Rightarrow> Event \<Rightarrow> honeyEvent" where
  "setTimestampsAndDurationIfValid now ev event =
     (let ev = AddField ''meta.event_handled_at'' (VTime (now 0)) ev;
          req = RequestTimestamp event; res = ResponseTimestamp event
      in if is_zero req \<and> is_zero res then
           SetTimestamp (now 1)
             (AddField ''meta.timestamps_missing'' (VString ''request, response'') ev)
         else if is_zero req then
           AddField ''meta.response.capture_to_handle.latency_ms''
               (VInt (milliseconds (time_sub (now 1) res)))
             (AddField ''http.response.timestamp'' (VTime res)
               (SetTimestamp res
                 (AddField ''meta.timestamps_missing'' (VString ''request'') ev)))
         else if is_zero res then
           AddField ''meta.request.capture_to_handle.latency_ms''
               (VInt (milliseconds (time_sub (now 1) req)))
             (AddField ''http.request.timestamp'' (VTime req)
               (SetTimestamp req
                 (AddField ''meta.timestamps_missing'' (VString ''response'') ev)))
         else
           AddField ''duration_ms'' (VInt (milliseconds (time_sub res req)))
             (AddField ''meta.response.capture_to_handle.latency_ms''
                 (VInt (milliseconds (time_sub (now 2) res)))
               (AddField ''meta.request.capture_to_handle.latency_ms''
                   (VInt (milliseconds (time_sub (now 1) req)))
                 (AddField ''http.response.timestamp'' (VTime res)
                   (AddField ''http.request.timestamp'' (VTime req)
                     (SetTimestamp req ev))))))"

section \<open>HTTP fields\<close>

definition header_fields ::
  "handler_env \<Rightarrow> bool \<Rightarrow> http_header \<Rightarrow> string list \<Rightarrow> (string set \<Rightarrow> string list) \<Rightarrow> fields" where
  "header_fields env isRequest h keys ord =
     (let headers = sanitizeHeaders env isRequest h keys
      in map (\<lambda>(k, v). (k, VString v)) (pairs_in headers (ord (dom headers))))"

definition error_category :: "int \<Rightarrow> string option" where
  "error_category status =
     (if 500 \<le> status then Some ''HTTP server error''
      else if 400 \<le> status then Some ''HTTP client error''
      else None)"

definition add_request_fields ::
  "handler_env \<Rightarrow> config \<Rightarrow> range_orders \<Rightarrow> request option \<Rightarrow> honeyEvent \<Rightarrow> honeyEvent" where
  "add_request_fields env cfg ord req_opt ev =
     (case req_opt of
        Some req \<Rightarrow>
          (let ev = AddField ''name'' (VString (''HTTP '' @ Method req)) ev;
               ev = AddField ''http.request.method'' (VString (Method req)) ev;
               ev = AddField ''user_agent.original''
                      (VString (header_get (req_Header req) ''User-Agent'')) ev;
               ev = AddField ''http.request.body.size'' (VInt (sint (req_ContentLength req))) ev;
               ev = (if IncludeRequestURL cfg then
                       (case ParseRequestURI env (RequestURI req) of
                          Some path \<Rightarrow> AddField ''url.path'' (VString path) ev
                        | None \<Rightarrow> ev)
                     else ev)
           in AddAll (header_fields env True (req_Header req)
                       (ord 0 (dom (header_map (req_Header req)))) (ord 1)) ev)
      | None \<Rightarrow>
          AddField ''http.request.missing'' (VString ''no request on this event'')
            (AddField ''name'' (VString ''HTTP'') ev))"

definition add_response_fields ::
  "handler_env \<Rightarrow> range_orders \<Rightarrow> response option \<Rightarrow> honeyEvent \<Rightarrow> honeyEvent" where
  "add_response_fields env ord res_opt ev =
     (case res_opt of
        Some res \<Rightarrow>
          (let ev = AddField ''http.response.status_code'' (VInt (StatusCode res)) ev;
               ev = (if 500 \<le> StatusCode res
                     then AddField ''error'' (VString ''HTTP server error'') ev
                     else if 400 \<le> StatusCode res
                     then AddField ''error'' (VString ''HTTP client error'') ev
                     else ev);
               ev = AddField ''http.response.body.size'' (VInt (sint (res_ContentLength res))) ev
           in AddAll (header_fields env False (res_Header res)
                       (ord 2 (dom (header_map (res_Header res)))) (ord 3)) ev)
      | None \<Rightarrow>
          AddField ''http.response.missing'' (VString ''no response on this event'') ev)"

definition addHttpFields ::
  "handler_env \<Rightarrow> config \<Rightarrow> range_orders \<Rightarrow> honeyEvent \<Rightarrow> HttpEvent \<Rightarrow> honeyEvent" where
  "addHttpFields env cfg ord ev event =
     add_response_fields env ord (Response event)
       (add_request_fields env cfg ord (Request event) ev)"

section \<open>The handler\<close>

definition string_fields :: "(string \<rightharpoonup> string) \<Rightarrow> string list \<Rightarrow> fields" where
  "string_fields m keys = map (\<lambda>(k, v). (k, VString v)) (pairs_in m keys)"

text \<open>The event handed to \<open>Send\<close>; what \<open>Send\<close> makes of it is the library's.\<close>

definition handleEvent_libhoney ::
  "handler_env \<Rightarrow> libhoneyEventHandler \<Rightarrow> clock \<Rightarrow> range_orders \<Rightarrow> Event \<Rightarrow> honeyEvent" where
  "handleEvent_libhoney env handler now ord event =
     (let ev = setTimestampsAndDurationIfValid now NewEvent event;
          ev = AddField ''meta.stream.ident'' (VString (StreamIdent event)) ev;
          ev = AddField ''meta.seqack'' (VInt (sint (RequestId event))) ev;
          ev = AddField ''meta.request.packet_count'' (VInt (RequestPacketCount event)) ev;
          ev = AddField ''meta.response.packet_count'' (VInt (ResponsePacketCount event)) ev;
          ev = AddField ''client.socket.address'' (VString (SrcIp event)) ev;
          ev = AddField ''server.socket.address'' (VString (DstIp event)) ev;
          ev = (case event of EvHttp e \<Rightarrow> addHttpFields env (lh_config handler) ord ev e | EvOther _ \<Rightarrow> ev);
          src = GetK8sAttrsForSourceIP (selector_matches env) (lh_k8sClient handler)
                  (AgentPodIP (lh_config handler)) (SrcIp event);
          dst = GetK8sAttrsForDestinationIP (selector_matches env) (lh_k8sClient handler)
                  (AgentPodIP (lh_config handler)) (DstIp event)
      in AddAll (string_fields dst (ord 5 (dom dst)))
           (AddAll (string_fields src (ord 4 (dom src))) ev))"

section \<open>Keys of the parts\<close>

lemma keys_of_strings: "field_keys (string_fields m keys) \<subseteq> dom m"
  by (auto simp: string_fields_def field_keys_def dest!: pairs_in_sound)

lemma value_of_strings:
  assumes "enumerates keys m"
  shows "value_of (string_fields m keys) k = map_option VString (m k)"
proof -
  have "map fst (string_fields m keys) = map fst (pairs_in m keys)"
    by (simp add: string_fields_def comp_def split_beta)
  then have "distinct (map fst (string_fields m keys))"
    using assms by (simp add: enumerates_def distinct_pairs_in)
  then have v: "value_of (string_fields m keys) k = Some v \<longleftrightarrow> (k, v) \<in> set (string_fields m keys)" for v
    by (rule value_of_distinct)
  show ?thesis
  proof (cases "m k")
    case None
    then have "k \<notin> field_keys (string_fields m keys)" using keys_of_strings by fastforce
    with None show ?thesis by (simp add: value_of_None)
  next
    case (Some s)
    then have "(k, VString s) \<in> set (string_fields m keys)"
      using assms by (force simp: string_fields_def set_pairs_in)
    with v Some show ?thesis by simp
  qed
qed

lemma header_fields_strings:
  "header_fields env b h keys ord =
     string_fields (sanitizeHeaders env b h keys) (ord (dom (sanitizeHeaders env b h keys)))"
  by (simp add: header_fields_def string_fields_def Let_def)

lemma header_fields_keys:
  "k \<in> field_keys (header_fields env b h keys ord) \<Longrightarrow> prefix (header_prefix b) k"
  unfolding header_fields_strings using keys_of_strings sanitizeHeaders_keys by blast

section \<open>Properties\<close>

text \<open>The times of a libhoney event: the duration is reported exactly when both halves have a
  timestamp, the missing ones are named otherwise, and the event's own timestamp is the
  request's, else the response's, else the time of handling.\<close>

lemma libhoney_times:
  "let ev = setTimestampsAndDurationIfValid now NewEvent e;
       req = RequestTimestamp e; res = ResponseTimestamp e
   in value_of (added ev) ''duration_ms'' =
        (if is_zero req \<or> is_zero res then None else Some (VInt (milliseconds (time_sub res req)))) \<and>
      value_of (added ev) ''meta.timestamps_missing'' =
        (if is_zero req then Some (VString (if is_zero res then ''request, response'' else ''request''))
         else if is_zero res then Some (VString ''response'') else None) \<and>
      ev_timestamp ev =
        Some (if \<not> is_zero req then req else if \<not> is_zero res then res else now 1)"
  by (simp add: setTimestampsAndDurationIfValid_def Let_def value_of_Cons)

text \<open>The additional attributes of the configuration are global fields of the libhoney handler,
  overriding the built-in ones of the same name, in whatever order the map is ranged over.\<close>

lemma additional_attributes_reported:
  assumes "enumerates keys (AdditionalAttributes cfg)" and "AdditionalAttributes cfg k = Some v"
  shows "value_of (global_fields (initLibhoney cfg version keys)) k = Some (VString v)"
proof -
  have "value_of (string_fields (AdditionalAttributes cfg) keys) k = Some (VString v)"
    using assms by (simp add: value_of_strings)
  then show ?thesis
    by (simp add: initLibhoney_def string_fields_def [symmetric] value_of_append value_of_Cons)
qed

end
