(* ===== verification/Otel_Handler.thy ===== *)
theory Otel_Handler
  imports Libhoney_Handler
begin

text \<open>
  \<open>handlers/otel_handler.go\<close>: an HTTP event becomes one span. The model's span records what
  is passed to the OpenTelemetry SDK: the name, the two times, the trace context, and the
  attributes given at the start followed by those set later. The text map propagator is the
  argument \<open>extract\<close>, from the request's headers to a context.
\<close>

text \<open>The tracer is known by its name; the shutdown function is the library's (\<open>'sd\<close>).\<close>

record 'sd otelHandler =
  ot_config :: config
  ot_k8sClient :: CachedK8sClient
  tracer :: string
  otelShutdown :: 'sd

text \<open>The resource attributes of the exporter.\<close>

definition otel_resource :: "config \<Rightarrow> string \<Rightarrow> (string \<rightharpoonup> string)" where
  "otel_resource cfg version = Map.empty(
     ''honeycomb.agent.name'' \<mapsto> ''Honeycomb Network Agent'',
     ''honeycomb.agent.version'' \<mapsto> version,
     ''meta.agent.node.ip'' \<mapsto> AgentNodeIP cfg,
     ''meta.agent.node.name'' \<mapsto> AgentNodeName cfg,
     ''meta.agent.serviceaccount.name'' \<mapsto> AgentServiceAccount cfg,
     ''meta.agent.pod.ip'' \<mapsto> AgentPodIP cfg,
     ''meta.agent.pod.name'' \<mapsto> AgentPodName cfg,
     ''net.component'' \<mapsto> ''proxy'')"

text \<open>The options given to \<open>otelconfig.ConfigureOpenTelemetry\<close>, which may fail.\<close>

record otel_settings =
  WithServiceName :: string
  WithServiceVersion :: string
  WithExporterEndpoint :: string
  WithHeaders :: "string \<rightharpoonup> string"
  WithResourceAttributes :: "string \<rightharpoonup> string"
  WithMetricsEnabled :: bool

definition otel_options :: "config \<Rightarrow> string \<Rightarrow> otel_settings" where
  "otel_options cfg version = \<lparr>
     WithServiceName = Dataset cfg,
     WithServiceVersion = version,
     WithExporterEndpoint = Endpoint cfg,
     WithHeaders = [''x-honeycomb-team'' \<mapsto> APIKey cfg],
     WithResourceAttributes = otel_resource cfg version,
     WithMetricsEnabled = False\<rparr>"

definition NewOtelHandler ::
  "(otel_settings \<Rightarrow> string + 'sd) \<Rightarrow> config \<Rightarrow> CachedK8sClient \<Rightarrow> string
    \<Rightarrow> panic + 'sd otelHandler" where
  "NewOtelHandler ConfigureOpenTelemetry cfg client version =
     (case ConfigureOpenTelemetry (otel_options cfg version) of
        Inl e \<Rightarrow> Inl (LogFatal ''Failed to configure OpenTelemetry'')
      | Inr shutdown \<Rightarrow> Inr \<lparr>ot_config = cfg, ot_k8sClient = client, tracer = Dataset cfg,
          otelShutdown = shutdown\<rparr>)"

record 'ctx span =
  span_tracer :: string
  span_name :: string
  span_context :: 'ctx
  span_start :: time
  span_end :: time
  span_attrs :: fields

section \<open>Times\<close>

definition getEventStartEndTimestamps ::
  "handler_env \<Rightarrow> clock \<Rightarrow> Event \<Rightarrow> time \<times> time \<times> fields" where
  "getEventStartEndTimestamps env now event =
     (let attrs = [(''meta.event_handled_at'', VString (time_String env (now 0)))];
          req = RequestTimestamp event; res = ResponseTimestamp event
      in if is_zero req \<and> is_zero res then
           (now 1, now 1, attrs @ [(''meta.timestamps_missing'', VString ''request, response'')])
         else if is_zero req then
           (res, res, attrs @
              [(''meta.timestamps_missing'', VString ''request''),
               (''http.response.timestamp'', VString (time_String env res)),
               (''meta.response.capture_to_handle.latency_ms'',
                VInt (milliseconds (time_sub (now 1) res)))])
         else if is_zero res then
           (req, req, attrs @
              [(''meta.timestamps_missing'', VString ''response''),
               (''http.request.timestamp'', VString (time_String env req)),
               (''meta.request.capture_to_handle.latency_ms'',
                VInt (milliseconds (time_sub (now 1) req)))])
         else
           (req, res, attrs @
              [(''http.request.timestamp'', VString (time_String env req)),
               (''http.response.timestamp'', VString (time_String env res)),
               (''meta.request.capture_to_handle.latency_ms'',
                VInt (milliseconds (time_sub (now 1) req))),
               (''meta.response.capture_to_handle.latency_ms'',
                VInt (milliseconds (time_sub (now 2) res))),
               (''duration_ms'', VInt (milliseconds (time_sub res req)))]))"

section \<open>HTTP attributes\<close>

definition headerToAttributes ::
  "handler_env \<Rightarrow> bool \<Rightarrow> http_header \<Rightarrow> string list \<Rightarrow> (string set \<Rightarrow> string list) \<Rightarrow> fields" where
  "headerToAttributes env isRequest h keys ord =
     (let headers = sanitizeHeaders env isRequest h keys
      in map (\<lambda>(k, v). (k, VString v)) (pairs_in headers (ord (dom headers))))"

definition resolveHTTPAttributes ::
  "handler_env \<Rightarrow> config \<Rightarrow> range_orders \<Rightarrow> HttpEvent \<Rightarrow> fields" where
  "resolveHTTPAttributes env cfg ord event =
     (case Request event of
        Some req \<Rightarrow>
          [(''http.request.method'', VString (Method req)),
           (''http.method'', VString (Method req)),
           (''http.request.body.size'', VInt (sint (req_ContentLength req))),
           (''http.request_content_length'', VInt (sint (req_ContentLength req)))] @
          headerToAttributes env True (req_Header req)
            (ord 0 (dom (header_map (req_Header req)))) (ord 1) @
          (if IncludeRequestURL cfg then
             (case ParseRequestURI env (RequestURI req) of
                Some path \<Rightarrow> [(''url.path'', VString path), (''http.target'', VString path)]
              | None \<Rightarrow> [])
           else [])
      | None \<Rightarrow> [(''http.request.missing'', VString ''no request on this event'')]) @
     (case Response event of
        Some res \<Rightarrow>
          [(''http.response.status_code'', VInt (StatusCode res)),
           (''http.status_code'', VInt (StatusCode res)),
           (''http.response.body.size'', VInt (sint (res_ContentLength res))),
           (''http.response_content_length'', VInt (sint (res_ContentLength res)))] @
          headerToAttributes env False (res_Header res)
            (ord 2 (dom (header_map (res_Header res)))) (ord 3) @
          (if 500 \<le> StatusCode res then [(''error'', VString ''HTTP server error'')]
           else if 400 \<le> StatusCode res then [(''error'', VString ''HTTP client error'')]
           else [])
      | None \<Rightarrow> [(''http.response.missing'', VString ''no response on this event'')])"

definition getContextFromHTTPEvent ::
  "(http_header option \<Rightarrow> 'ctx) \<Rightarrow> HttpEvent \<Rightarrow> 'ctx" where
  "getContextFromHTTPEvent extract event = extract (map_option req_Header (Request event))"

definition createHTTPSpan ::
  "handler_env \<Rightarrow> (http_header option \<Rightarrow> 'ctx) \<Rightarrow> 'sd otelHandler \<Rightarrow> range_orders \<Rightarrow> HttpEvent
    \<Rightarrow> time \<Rightarrow> time \<Rightarrow> fields \<Rightarrow> 'ctx span" where
  "createHTTPSpan env extract handler ord event startTime endTime incomingAttrs =
     (let spanName = (case Request event of None \<Rightarrow> ''HTTP'' | Some req \<Rightarrow> Method req);
          ev = EvHttp event;
          attrs =
            [(''meta.stream.ident'', VString (StreamIdent ev)),
             (''meta.seqack'', VInt (sint (RequestId ev))),
             (''meta.request.packet_count'', VInt (RequestPacketCount ev)),
             (''meta.response.packet_count'', VInt (ResponsePacketCount ev)),
             (''client.socket.address'', VString (SrcIp ev)),
             (''server.socket.address'', VString (DstIp ev))]
            @ incomingAttrs @ resolveHTTPAttributes env (ot_config handler) ord event;
          src = GetK8sAttrsForSourceIP (selector_matches env) (ot_k8sClient handler)
                  (AgentPodIP (ot_config handler)) (SrcIp ev);
          dst = GetK8sAttrsForDestinationIP (selector_matches env) (ot_k8sClient handler)
                  (AgentPodIP (ot_config handler)) (DstIp ev)
      in \<lparr>span_tracer = tracer handler,
          span_name = spanName,
          span_context = getContextFromHTTPEvent extract event,
          span_start = startTime,
          span_end = endTime,
          span_attrs = attrs @ string_fields src (ord 4 (dom src)) @
            string_fields dst (ord 5 (dom dst))\<rparr>)"

text \<open>An event of another type is logged and dropped.\<close>

definition handleEvent_otel ::
  "handler_env \<Rightarrow> (http_header option \<Rightarrow> 'ctx) \<Rightarrow> 'sd otelHandler \<Rightarrow> clock \<Rightarrow> range_orders \<Rightarrow> Event
    \<Rightarrow> 'ctx span option" where
  "handleEvent_otel env extract handler now ord event =
     (let (startTime, endTime, attrs) = getEventStartEndTimestamps env now event
      in case event of
           EvHttp e \<Rightarrow> Some (createHTTPSpan env extract handler ord e startTime endTime attrs)
         | EvOther _ \<Rightarrow> None)"

section \<open>Properties\<close>

text \<open>The span of an HTTP event ends before it starts only for a response that was captured
  before its request; an event with one timestamp, or none, has a span of no duration.\<close>

lemma span_times_ordered:
  "(case handleEvent_otel env extract h now ord (EvHttp e) of
      None \<Rightarrow> False
    | Some s \<Rightarrow>
        (span_start s \<le> span_end s \<longleftrightarrow>
           is_zero (requestTimestamp e) \<or> is_zero (responseTimestamp e) \<or>
           requestTimestamp e \<le> responseTimestamp e) \<and>
        (if is_zero (requestTimestamp e) \<or> is_zero (responseTimestamp e)
         then span_start s = span_end s
         else span_start s = requestTimestamp e \<and> span_end s = responseTimestamp e))"
  by (simp add: handleEvent_otel_def createHTTPSpan_def getEventStartEndTimestamps_def Let_def)

end
