(* ===== verification/Handler_Agreement.thy ===== *)
theory Handler_Agreement
  imports Otel_Handler "HOL-Library.Char_ord" "HOL-Library.List_Lexorder"
begin

text \<open>
  The two handlers side by side. Each report is a list of writes: fixed fields, the fields of
  the two header maps, and the Kubernetes attributes of the two ends. The variable parts have
  names of their own prefixes, so the report of a name can be read off the part it belongs to;
  the handlers agree on every name but a few that differ by design.
\<close>

section \<open>The report of the libhoney handler in parts\<close>

definition lh_times :: "clock \<Rightarrow> Event \<Rightarrow> fields" where
  "lh_times now ev = added (setTimestampsAndDurationIfValid now NewEvent ev)"

definition base_fields :: "Event \<Rightarrow> fields" where
  "base_fields ev =
     [(''meta.stream.ident'', VString (StreamIdent ev)),
      (''meta.seqack'', VInt (sint (RequestId ev))),
      (''meta.request.packet_count'', VInt (RequestPacketCount ev)),
      (''meta.response.packet_count'', VInt (ResponsePacketCount ev)),
      (''client.socket.address'', VString (SrcIp ev)),
      (''server.socket.address'', VString (DstIp ev))]"

definition lh_request :: "handler_env \<Rightarrow> config \<Rightarrow> request option \<Rightarrow> fields" where
  "lh_request env cfg req_opt =
     (case req_opt of
        Some req \<Rightarrow>
          [(''name'', VString (''HTTP '' @ Method req)),
           (''http.request.method'', VString (Method req)),
           (''user_agent.original'', VString (header_get (req_Header req) ''User-Agent'')),
           (''http.request.body.size'', VInt (sint (req_ContentLength req)))] @
          (if IncludeRequestURL cfg then
             (case ParseRequestURI env (RequestURI req) of
                Some path \<Rightarrow> [(''url.path'', VString path)] | None \<Rightarrow> [])
           else [])
      | None \<Rightarrow> [(''name'', VString ''HTTP''),
                 (''http.request.missing'', VString ''no request on this event'')])"

definition error_fields :: "int \<Rightarrow> fields" where
  "error_fields status =
     (case error_category status of Some c \<Rightarrow> [(''error'', VString c)] | None \<Rightarrow> [])"

definition lh_response :: "response option \<Rightarrow> fields" where
  "lh_response res_opt =
     (case res_opt of
        Some res \<Rightarrow>
          [(''http.response.status_code'', VInt (StatusCode res))] @ error_fields (StatusCode res) @
          [(''http.response.body.size'', VInt (sint (res_ContentLength res)))]
      | None \<Rightarrow> [(''http.response.missing'', VString ''no response on this event'')])"

definition request_headers :: "handler_env \<Rightarrow> range_orders \<Rightarrow> request option \<Rightarrow> fields" where
  "request_headers env ord req_opt =
     (case req_opt of
        Some req \<Rightarrow> header_fields env True (req_Header req)
                     (ord 0 (dom (header_map (req_Header req)))) (ord 1)
      | None \<Rightarrow> [])"

definition response_headers :: "handler_env \<Rightarrow> range_orders \<Rightarrow> response option \<Rightarrow> fields" where
  "response_headers env ord res_opt =
     (case res_opt of
        Some res \<Rightarrow> header_fields env False (res_Header res)
                     (ord 2 (dom (header_map (res_Header res)))) (ord 3)
      | None \<Rightarrow> [])"

definition end_fields ::
  "handler_env \<Rightarrow> config \<Rightarrow> CachedK8sClient \<Rightarrow> range_orders \<Rightarrow> Event \<Rightarrow> fields" where
  "end_fields env cfg client ord ev =
     (let src = GetK8sAttrsForSourceIP (selector_matches env) client (AgentPodIP cfg) (SrcIp ev);
          dst = GetK8sAttrsForDestinationIP (selector_matches env) client (AgentPodIP cfg) (DstIp ev)
      in string_fields src (ord 4 (dom src)) @ string_fields dst (ord 5 (dom dst)))"

lemma added_times:
  "added (setTimestampsAndDurationIfValid now ev e) = added ev @ lh_times now e"
  by (simp add: lh_times_def setTimestampsAndDurationIfValid_def Let_def)

lemma added_request:
  "added (add_request_fields env cfg ord r ev) =
     added ev @ lh_request env cfg r @ request_headers env ord r"
  by (auto simp: add_request_fields_def lh_request_def request_headers_def Let_def
      split: option.splits)

lemma added_response:
  "added (add_response_fields env ord r ev) =
     added ev @ lh_response r @ response_headers env ord r"
  by (auto simp: add_response_fields_def lh_response_def response_headers_def error_fields_def
      error_category_def Let_def split: option.splits)

lemma added_libhoney:
  "added (handleEvent_libhoney env (\<lparr>lh_config = cfg, lh_k8sClient = client\<rparr>) now ord ev) =
     lh_times now ev @ base_fields ev @
     (case ev of
        EvHttp e \<Rightarrow> lh_request env cfg (request e) @ request_headers env ord (request e) @
          lh_response (response e) @ response_headers env ord (response e)
      | EvOther _ \<Rightarrow> []) @
     end_fields env cfg client ord ev"
  by (cases ev) (simp_all add: handleEvent_libhoney_def Let_def added_times addHttpFields_def
      added_request added_response base_fields_def end_fields_def Request_def Response_def)

section \<open>The report of the OpenTelemetry handler in parts\<close>

definition ot_times :: "handler_env \<Rightarrow> clock \<Rightarrow> Event \<Rightarrow> fields" where
  "ot_times env now ev = snd (snd (getEventStartEndTimestamps env now ev))"

definition ot_request1 :: "request option \<Rightarrow> fields" where
  "ot_request1 r = (case r of
     Some req \<Rightarrow>
       [(''http.request.method'', VString (Method req)),
        (''http.method'', VString (Method req)),
        (''http.request.body.size'', VInt (sint (req_ContentLength req))),
        (''http.request_content_length'', VInt (sint (req_ContentLength req)))]
   | None \<Rightarrow> [(''http.request.missing'', VString ''no request on this event'')])"

definition ot_request2 :: "handler_env \<Rightarrow> config \<Rightarrow> request option \<Rightarrow> fields" where
  "ot_request2 env cfg r = (case r of
     Some req \<Rightarrow>
       if IncludeRequestURL cfg then
         (case ParseRequestURI env (RequestURI req) of
            Some path \<Rightarrow> [(''url.path'', VString path), (''http.target'', VString path)]
          | None \<Rightarrow> [])
       else []
   | None \<Rightarrow> [])"

definition ot_response1 :: "response option \<Rightarrow> fields" where
  "ot_response1 r = (case r of
     Some res \<Rightarrow>
       [(''http.response.status_code'', VInt (StatusCode res)),
        (''http.status_code'', VInt (StatusCode res)),
        (''http.response.body.size'', VInt (sint (res_ContentLength res))),
        (''http.response_content_length'', VInt (sint (res_ContentLength res)))]
   | None \<Rightarrow> [(''http.response.missing'', VString ''no response on this event'')])"

definition ot_response2 :: "response option \<Rightarrow> fields" where
  "ot_response2 r = (case r of Some res \<Rightarrow> error_fields (StatusCode res) | None \<Rightarrow> [])"

lemma resolve_parts:
  "resolveHTTPAttributes env cfg ord e =
     ot_request1 (request e) @ request_headers env ord (request e) @
     ot_request2 env cfg (request e) @
     ot_response1 (response e) @ response_headers env ord (response e) @
     ot_response2 (response e)"
  by (auto simp: resolveHTTPAttributes_def ot_request1_def ot_request2_def ot_response1_def
      ot_response2_def request_headers_def response_headers_def headerToAttributes_def
      header_fields_def error_fields_def error_category_def Request_def Response_def
      split: option.splits)

lemma otel_attrs:
  "span_attrs (createHTTPSpan env extract (\<lparr>ot_config = cfg, ot_k8sClient = client, tracer = tr, otelShutdown = sd\<rparr>) ord e
      (fst t) (fst (snd t)) (snd (snd t))) =
     base_fields (EvHttp e) @ snd (snd t) @ resolveHTTPAttributes env cfg ord e @
     end_fields env cfg client ord (EvHttp e)"
  by (simp add: createHTTPSpan_def base_fields_def end_fields_def Let_def)

definition otel_span ::
  "handler_env \<Rightarrow> (http_header option \<Rightarrow> 'ctx) \<Rightarrow> 'sd otelHandler \<Rightarrow> clock \<Rightarrow> range_orders
    \<Rightarrow> HttpEvent \<Rightarrow> 'ctx span" where
  "otel_span env extract h now ord e =
     (let t = getEventStartEndTimestamps env now (EvHttp e)
      in createHTTPSpan env extract h ord e (fst t) (fst (snd t)) (snd (snd t)))"

lemma handleEvent_otel_http:
  "handleEvent_otel env extract h now ord (EvHttp e) = Some (otel_span env extract h now ord e)"
  by (simp add: handleEvent_otel_def otel_span_def split_beta Let_def)

lemma otel_span_attrs:
  "span_attrs (otel_span env extract (\<lparr>ot_config = cfg, ot_k8sClient = client, tracer = tr, otelShutdown = sd\<rparr>) now ord e) =
     base_fields (EvHttp e) @ ot_times env now (EvHttp e) @
     (ot_request1 (request e) @ request_headers env ord (request e) @
      ot_request2 env cfg (request e) @
      ot_response1 (response e) @ response_headers env ord (response e) @
      ot_response2 (response e)) @
     end_fields env cfg client ord (EvHttp e)"
  by (simp add: otel_span_def otel_attrs ot_times_def resolve_parts Let_def)

section \<open>Which names belong to which part\<close>

definition variable_name :: "string \<Rightarrow> bool" where
  "variable_name k \<longleftrightarrow> prefix (header_prefix True) k \<or> prefix (header_prefix False) k \<or>
     prefix ''source.k8s.'' k \<or> prefix ''destination.k8s.'' k"

lemma request_headers_names:
  "k \<in> field_keys (request_headers env ord r) \<Longrightarrow> prefix (header_prefix True) k"
  by (auto simp: request_headers_def dest: header_fields_keys split: option.splits)

lemma response_headers_names:
  "k \<in> field_keys (response_headers env ord r) \<Longrightarrow> prefix (header_prefix False) k"
  by (auto simp: response_headers_def dest: header_fields_keys split: option.splits)

lemma end_fields_names:
  "k \<in> field_keys (end_fields env cfg client ord ev) \<Longrightarrow>
    prefix ''source.k8s.'' k \<or> prefix ''destination.k8s.'' k"
  using keys_of_strings k8s.src_keys k8s.dst_keys
  by (fastforce simp: end_fields_def Let_def)

lemma variable_parts_None:
  assumes "\<not> variable_name k"
  shows "value_of (request_headers env ord r) k = None"
    and "value_of (response_headers env ord s) k = None"
    and "value_of (end_fields env cfg client ord ev) k = None"
  using assms request_headers_names response_headers_names end_fields_names
  unfolding variable_name_def value_of_None by blast+

section \<open>Agreement\<close>

text \<open>
  The names on which the two reports differ by design: the span's own name and timestamps, and
  the older names the OpenTelemetry handler adds.
\<close>

definition differing_names :: "string set" where
  "differing_names =
     {''name'', ''user_agent.original'', ''meta.event_handled_at'',
      ''http.request.timestamp'', ''http.response.timestamp'', ''http.method'',
      ''http.request_content_length'', ''http.target'', ''http.status_code'',
      ''http.response_content_length''}"

definition without :: "string set \<Rightarrow> fields \<Rightarrow> fields" where
  "without D fs = filter (\<lambda>p. fst p \<notin> D) fs"

lemma without_simps [simp]:
  "without D [] = []"
  "without D (p # fs) = (if fst p \<in> D then without D fs else p # without D fs)"
  "without D (fs @ gs) = without D fs @ without D gs"
  by (simp_all add: without_def)

lemma value_of_without: "k \<notin> D \<Longrightarrow> value_of (without D fs) k = value_of fs k"
  by (induction fs) (auto simp: value_of_Cons split: option.splits)

lemma same_without:
  assumes "without D fs = without D gs" and "k \<notin> D"
  shows "value_of fs k = value_of gs k"
  using assms value_of_without by metis

lemma value_of_swap:
  "field_keys xs \<inter> field_keys ys = {} \<Longrightarrow> value_of (xs @ ys) k = value_of (ys @ xs) k"
  by (cases "k \<in> field_keys ys"; cases "k \<in> field_keys xs")
     (auto simp: value_of_disjoint value_of_last value_of_append value_of_None [symmetric]
       split: option.splits)

lemma value_of_cong:
  "value_of xs k = value_of xs' k \<Longrightarrow> value_of ys k = value_of ys' k \<Longrightarrow>
    value_of (xs @ ys) k = value_of (xs' @ ys') k"
  by (simp add: value_of_append split: option.split)

lemma times_agree:
  "without differing_names (lh_times now (EvHttp e)) =
   without differing_names (ot_times env now (EvHttp e))"
  by (simp add: lh_times_def ot_times_def setTimestampsAndDurationIfValid_def
      getEventStartEndTimestamps_def differing_names_def Let_def)

lemma request_agree:
  "without differing_names (lh_request env cfg r) =
   without differing_names (ot_request1 r @ ot_request2 env cfg r)"
  by (simp add: lh_request_def ot_request1_def ot_request2_def differing_names_def
      split: option.splits)

lemma response_agree:
  assumes "k \<notin> differing_names"
  shows "value_of (lh_response r) k = value_of (ot_response1 r @ ot_response2 r) k"
  using assms
  by (auto simp: lh_response_def ot_response1_def ot_response2_def differing_names_def
      error_fields_def value_of_append value_of_Cons split: option.splits)

lemma times_base_disjoint: "field_keys (lh_times now ev) \<inter> field_keys (base_fields ev) = {}"
  by (simp add: lh_times_def base_fields_def setTimestampsAndDurationIfValid_def Let_def)

lemma static_names:
  "variable_name k \<Longrightarrow> value_of (lh_times now ev) k = None"
  "variable_name k \<Longrightarrow> value_of (ot_times env now ev) k = None"
  "variable_name k \<Longrightarrow> value_of (base_fields ev) k = None"
  "variable_name k \<Longrightarrow> value_of (lh_request env cfg r) k = None"
  "variable_name k \<Longrightarrow> value_of (ot_request1 r) k = None"
  "variable_name k \<Longrightarrow> value_of (ot_request2 env cfg r) k = None"
  "variable_name k \<Longrightarrow> value_of (lh_response s) k = None"
  "variable_name k \<Longrightarrow> value_of (ot_response1 s) k = None"
  "variable_name k \<Longrightarrow> value_of (ot_response2 s) k = None"
  by (auto simp: value_of_None variable_name_def header_prefix_def lh_times_def ot_times_def
      setTimestampsAndDurationIfValid_def getEventStartEndTimestamps_def base_fields_def
      lh_request_def ot_request1_def ot_request2_def lh_response_def ot_response1_def
      ot_response2_def error_fields_def Let_def split: option.splits if_splits)

lemma report_static:
  assumes "\<not> variable_name k" and "k \<notin> differing_names"
  shows "value_of (lh_times now (EvHttp e) @ base_fields (EvHttp e) @
      lh_request env cfg (request e) @ lh_response (response e)) k =
    value_of (base_fields (EvHttp e) @ ot_times env now (EvHttp e) @
      (ot_request1 (request e) @ ot_request2 env cfg (request e)) @
      (ot_response1 (response e) @ ot_response2 (response e))) k"
proof -
  have times: "value_of (lh_times now (EvHttp e) @ base_fields (EvHttp e)) k =
      value_of (base_fields (EvHttp e) @ ot_times env now (EvHttp e)) k"
    unfolding value_of_swap [OF times_base_disjoint]
    by (intro value_of_cong refl same_without [OF times_agree assms(2)])
  have "value_of ((lh_times now (EvHttp e) @ base_fields (EvHttp e)) @
      lh_request env cfg (request e) @ lh_response (response e)) k =
    value_of ((base_fields (EvHttp e) @ ot_times env now (EvHttp e)) @
      (ot_request1 (request e) @ ot_request2 env cfg (request e)) @
      (ot_response1 (response e) @ ot_response2 (response e))) k"
    by (intro value_of_cong times same_without [OF request_agree assms(2)]
        response_agree [OF assms(2)])
  then show ?thesis by simp
qed


lemma report_agrees:
  assumes "k \<notin> differing_names"
  shows "value_of (span_attrs
      (otel_span env extract (\<lparr>ot_config = cfg, ot_k8sClient = client, tracer = tr, otelShutdown = sd\<rparr>) now ord e)) k =
    value_of (added (handleEvent_libhoney env
      (\<lparr>lh_config = cfg, lh_k8sClient = client\<rparr>) now ord (EvHttp e))) k"
proof (cases "variable_name k")
  case True
  note static = static_names [OF True]
  show ?thesis
    by (simp add: otel_span_attrs added_libhoney value_of_append static split: option.split)
next
  case False
  note var = variable_parts_None [OF False]
  have "value_of (added (handleEvent_libhoney env
      (\<lparr>lh_config = cfg, lh_k8sClient = client\<rparr>) now ord (EvHttp e))) k =
    value_of (lh_times now (EvHttp e) @ base_fields (EvHttp e) @
      lh_request env cfg (request e) @ lh_response (response e)) k"
    by (simp add: added_libhoney value_of_append var split: option.split)
  moreover have "value_of (span_attrs
      (otel_span env extract (\<lparr>ot_config = cfg, ot_k8sClient = client, tracer = tr, otelShutdown = sd\<rparr>) now ord e)) k =
    value_of (base_fields (EvHttp e) @ ot_times env now (EvHttp e) @
      (ot_request1 (request e) @ ot_request2 env cfg (request e)) @
      (ot_response1 (response e) @ ot_response2 (response e))) k"
    by (simp add: otel_span_attrs value_of_append var split: option.split)
  ultimately show ?thesis using report_static [OF False assms] by simp
qed

section \<open>Both handlers satisfy the interface\<close>

lemma ident_reported:
  assumes "k \<in> {''meta.stream.ident'', ''meta.seqack''}"
  shows "\<not> variable_name k" and "value_of (lh_times now ev) k = None"
    and "value_of (ot_times env now ev) k = None"
    and "value_of (lh_request env cfg r) k = None" and "value_of (lh_response s) k = None"
    and "value_of (ot_request1 r) k = None" and "value_of (ot_request2 env cfg r) k = None"
    and "value_of (ot_response1 s) k = None" and "value_of (ot_response2 s) k = None"
  using assms
  by (auto simp: value_of_None variable_name_def header_prefix_def lh_times_def ot_times_def
      setTimestampsAndDurationIfValid_def getEventStartEndTimestamps_def
      lh_request_def ot_request1_def ot_request2_def lh_response_def ot_response1_def
      ot_response2_def error_fields_def Let_def split: option.splits if_splits)

lemma base_field_values:
  "value_of (base_fields ev) ''meta.stream.ident'' = Some (VString (StreamIdent ev))"
  "value_of (base_fields ev) ''meta.seqack'' = Some (VInt (sint (RequestId ev)))"
  by (simp_all add: base_fields_def value_of_Cons)

lemma libhoney_reports:
  "k \<in> {''meta.stream.ident'', ''meta.seqack''} \<Longrightarrow>
    value_of (added (handleEvent_libhoney env h now ord ev)) k = value_of (base_fields ev) k"
  by (cases h) (auto simp: added_libhoney value_of_append ident_reported variable_parts_None
      split: Event.split option.split)

lemma otel_reports:
  "k \<in> {''meta.stream.ident'', ''meta.seqack''} \<Longrightarrow>
    value_of (span_attrs (otel_span env extract h now ord e)) k = value_of (base_fields (EvHttp e)) k"
  by (cases h) (auto simp: otel_span_attrs value_of_append ident_reported variable_parts_None
      split: option.split)

interpretation libhoney: event_handler
  "\<lambda>n ev. [handleEvent_libhoney env (h n) (now n) (ord n) ev]"
  "\<lambda>x. value_of (added x) ''meta.stream.ident''"
  "\<lambda>x. value_of (added x) ''meta.seqack''" for env h now ord
  by unfold_locales (simp_all add: libhoney_reports base_field_values)

lemma otel_emits:
  "handleEvent_otel env extract h now ord ev =
    (case ev of EvHttp e \<Rightarrow> Some (otel_span env extract h now ord e) | EvOther _ \<Rightarrow> None)"
  by (cases ev) (simp_all add: handleEvent_otel_http, simp add: handleEvent_otel_def split_beta Let_def)

definition emitted :: "'a option \<Rightarrow> 'a list" where
  "emitted x = (case x of Some y \<Rightarrow> [y] | None \<Rightarrow> [])"

lemma set_emitted [simp]: "set (emitted x) = set_option x"
  by (cases x) (simp_all add: emitted_def)

interpretation otel: event_handler
  "\<lambda>n ev. emitted (handleEvent_otel env extract (h n) (now n) (ord n) ev)"
  "\<lambda>x. value_of (span_attrs x) ''meta.stream.ident''"
  "\<lambda>x. value_of (span_attrs x) ''meta.seqack''" for env "extract" h now ord
  by unfold_locales
     (auto simp: otel_emits otel_reports base_field_values emitted_def split: Event.splits)

section \<open>Reported headers\<close>

lemma finite_sanitized: "finite (dom (sanitizeHeaders env b h keys))"
  by (simp add: sanitizeHeaders_write_all dom_write_all)

lemma request_headers_value:
  assumes "orders_ok ord" and "finite (dom (header_map (req_Header req)))"
    and "inj_on (sanitize_key env True) (dom (header_map (req_Header req)))"
    and "header_map (req_Header req) key = Some vs"
  shows "value_of (request_headers env ord (Some req)) (sanitize_key env True key) =
    Some (VString (join '','' vs))"
proof -
  let ?s = "sanitizeHeaders env True (req_Header req) (ord 0 (dom (header_map (req_Header req))))"
  have "?s (sanitize_key env True key) = Some (join '','' vs)"
    using assms by (intro sanitizeHeaders_complete) (simp_all add: orders_enumerate)
  moreover have "enumerates (ord 1 (dom ?s)) ?s"
    using assms(1) finite_sanitized by (rule orders_enumerate)
  ultimately show ?thesis
    by (simp add: request_headers_def header_fields_strings value_of_strings)
qed

lemma request_header_names:
  assumes "prefix (header_prefix True) k"
  shows "variable_name k" and "value_of (response_headers env ord r) k = None"
    and "value_of (end_fields env cfg client ord ev) k = None"
proof -
  show "variable_name k" using assms by (simp add: variable_name_def)
  from assms obtain k' where k: "k = ''http.request.header.'' @ k'"
    by (auto simp: header_prefix_def elim: prefixE)
  show "value_of (response_headers env ord r) k = None"
    using response_headers_names [of k env ord r] by (auto simp: value_of_None k header_prefix_def)
  show "value_of (end_fields env cfg client ord ev) k = None"
    using end_fields_names [of k env cfg client ord ev] by (auto simp: value_of_None k)
qed

lemma libhoney_request_header:
  assumes "orders_ok ord" and "request e = Some req"
    and "finite (dom (header_map (req_Header req)))"
    and "inj_on (sanitize_key env True) (dom (header_map (req_Header req)))"
    and "header_map (req_Header req) key = Some vs"
  shows "value_of (added (handleEvent_libhoney env h now ord (EvHttp e))) (sanitize_key env True key) =
    Some (VString (join '','' vs))"
proof -
  let ?k = "sanitize_key env True key"
  note names = request_header_names [OF sanitize_key_prefix [of True env key]]
  have "value_of (request_headers env ord (Some req)) ?k = Some (VString (join '','' vs))"
    by (rule request_headers_value [OF assms(1,3,4,5)])
  then show ?thesis
    using assms(2) names static_names [OF names(1)]
    by (cases h) (simp add: added_libhoney value_of_append)
qed

section \<open>Properties\<close>

text \<open>C21: The two handlers report the same: on every name outside the listed ones, the attribute the
  OpenTelemetry span ends up with is the field the libhoney event ends up with.\<close>

theorem handlers_agree:
  assumes "k \<notin> differing_names"
  shows "map_option (\<lambda>s. value_of (span_attrs s) k)
      (handleEvent_otel env extract (\<lparr>ot_config = cfg, ot_k8sClient = client, tracer = tr, otelShutdown = sd\<rparr>) now ord (EvHttp e)) =
    Some (value_of (added (handleEvent_libhoney env (\<lparr>lh_config = cfg, lh_k8sClient = client\<rparr>)
      now ord (EvHttp e))) k)"
  using report_agrees [OF assms] by (simp add: handleEvent_otel_http)

definition sample_event :: HttpEvent where
  "sample_event = NewHttpEvent ''s:1'' 200 5 9000005 1 1 ''10.0.0.5'' ''10.0.0.6''
     (Some \<lparr>Method = ''GET'', RequestURI = ''/'', req_ContentLength = 0,
        req_Header = Some [''User-Agent'' \<mapsto> [''curl'']], req_Body = None\<rparr>)
     (Some \<lparr>StatusCode = 503, res_ContentLength = 0, res_Header = Some Map.empty, res_Body = None\<rparr>)"

definition sample_orders :: range_orders where
  "sample_orders i S = sorted_list_of_set S"

lemma sample_orders_ok: "orders_ok sample_orders"
  by (simp add: orders_ok_def sample_orders_def)

theorem handlers_agree_witness:
  "map_option (\<lambda>s. value_of (span_attrs s) ''error'')
      (handleEvent_otel sample_env (\<lambda>_. ())
        (\<lparr>ot_config = NewConfig Map.empty, ot_k8sClient = sample_client, tracer = ''hny'', otelShutdown = ()\<rparr>)
        (\<lambda>n. 10000000 + int n) sample_orders (EvHttp sample_event)) =
    Some (value_of (added (handleEvent_libhoney sample_env
        (\<lparr>lh_config = NewConfig Map.empty, lh_k8sClient = sample_client\<rparr>)
        (\<lambda>n. 10000000 + int n) sample_orders (EvHttp sample_event))) ''error'')"
  by (rule handlers_agree) (simp add: differing_names_def)

text \<open>A field of the request is reported by the libhoney handler under its sanitised name, with
  its values joined, whatever the orders of Go's maps, provided no two fields of the request
  have one sanitised name; nothing else in the event overwrites it.\<close>

lemma request_header_reported:
  assumes "orders_ok ord" and "request e = Some req"
    and "finite (dom (header_map (req_Header req)))"
    and "inj_on (sanitize_key env True) (dom (header_map (req_Header req)))"
    and "header_map (req_Header req) key = Some vs"
  shows "value_of (added (handleEvent_libhoney env h now ord (EvHttp e))) (sanitize_key env True key) =
    Some (VString (join '','' vs))"
  using assms by (rule libhoney_request_header)

text \<open>The error field of a report says whether the response was a server error (500 and above) or
  a client error (400 to 499), and is absent otherwise, and for an event without a response.\<close>

lemma error_field_reported:
  "value_of (added (handleEvent_libhoney env h now ord (EvHttp e))) ''error'' =
    (case response e of
       None \<Rightarrow> None
     | Some res \<Rightarrow>
         if StatusCode res < 400 then None
         else if StatusCode res < 500 then Some (VString ''HTTP client error'')
         else Some (VString ''HTTP server error''))"
proof -
  have var: "\<not> variable_name ''error''" by (simp add: variable_name_def header_prefix_def)
  have "value_of (lh_times now (EvHttp e)) ''error'' = None"
    and "value_of (base_fields (EvHttp e)) ''error'' = None"
    and "value_of (lh_request env (lh_config h) (request e)) ''error'' = None"
    by (auto simp: value_of_None lh_times_def setTimestampsAndDurationIfValid_def base_fields_def
        lh_request_def Let_def split: option.splits)
  moreover have "value_of (lh_response (response e)) ''error'' =
      (case response e of None \<Rightarrow> None | Some res \<Rightarrow> map_option VString (error_category (StatusCode res)))"
    by (simp add: lh_response_def error_fields_def value_of_Cons split: option.split)
  ultimately show ?thesis
    by (cases h) (simp add: added_libhoney value_of_append variable_parts_None [OF var]
        error_category_def split: option.split)
qed

end
