(* ===== verification/Handlers.thy ===== *)
theory Handlers
  imports Handler_Agreement
begin

text \<open>
  The handlers behind their interface: the construction of the one the configuration selects,
  the \<open>Start\<close> loop and \<open>Close\<close> of either, and what is true of the reports of both: one for
  each event, naming it, with values of the types their columns have.
\<close>

section \<open>The selected handler\<close>

datatype 'sd eventHandler =
  LibhoneyHandler libhoney_init libhoneyEventHandler
| OtelHandler "'sd otelHandler"

text \<open>The last argument is the order in which the additional attributes are ranged over.\<close>

definition NewEventHandler ::
  "(otel_settings \<Rightarrow> string + 'sd) \<Rightarrow> config \<Rightarrow> CachedK8sClient \<Rightarrow> string \<Rightarrow> string list
    \<Rightarrow> panic + 'sd eventHandler" where
  "NewEventHandler ConfigureOpenTelemetry cfg client version keys =
     (case chosen_handler cfg of
        Libhoney \<Rightarrow>
          (let (init, handler) = NewLibhoneyEventHandler cfg client version keys
           in Inr (LibhoneyHandler init handler))
      | Otel \<Rightarrow>
          (case NewOtelHandler ConfigureOpenTelemetry cfg client version of
             Inl e \<Rightarrow> Inl e
           | Inr handler \<Rightarrow> Inr (OtelHandler handler)))"

text \<open>
  What a call of \<open>handleEvent\<close> hands to its library. The contents of the Kubernetes cache change
  between calls; a call sees one state of it.
\<close>

datatype 'ctx report = LibhoneyEvent honeyEvent | OtelSpan "'ctx span"

fun with_cache :: "CachedK8sClient \<Rightarrow> 'sd eventHandler \<Rightarrow> 'sd eventHandler" where
  "with_cache c (LibhoneyHandler init h) = LibhoneyHandler init (h\<lparr>lh_k8sClient := c\<rparr>)"
| "with_cache c (OtelHandler h) = OtelHandler (h\<lparr>ot_k8sClient := c\<rparr>)"

fun handleEvent ::
  "handler_env \<Rightarrow> (http_header option \<Rightarrow> 'ctx) \<Rightarrow> 'sd eventHandler \<Rightarrow> clock \<Rightarrow> range_orders \<Rightarrow> Event
    \<Rightarrow> 'ctx report list" where
  "handleEvent env extract (LibhoneyHandler init h) now ord ev =
     [LibhoneyEvent (handleEvent_libhoney env h now ord ev)]"
| "handleEvent env extract (OtelHandler h) now ord ev =
     map OtelSpan (emitted (handleEvent_otel env extract h now ord ev))"

text \<open>What changes from call to call: the cache, the clock, the orders of Go's maps.\<close>

record surroundings =
  cache_at :: CachedK8sClient
  clock_at :: clock
  orders_at :: range_orders

definition handle_call ::
  "handler_env \<Rightarrow> (http_header option \<Rightarrow> 'ctx) \<Rightarrow> 'sd eventHandler \<Rightarrow> (nat \<Rightarrow> surroundings)
    \<Rightarrow> nat \<Rightarrow> Event \<Rightarrow> 'ctx report list" where
  "handle_call env extract h sur n ev =
     handleEvent env extract (with_cache (cache_at (sur n)) h) (clock_at (sur n)) (orders_at (sur n)) ev"

text \<open>\<open>Start\<close> of either handler, and \<open>Close\<close>.\<close>

definition Start_handler ::
  "handler_env \<Rightarrow> (http_header option \<Rightarrow> 'ctx) \<Rightarrow> 'sd eventHandler \<Rightarrow> (nat \<Rightarrow> surroundings)
    \<Rightarrow> handler_choice list \<Rightarrow> 'ctx report list \<times> bool" where
  "Start_handler env extract h sur cs = handler_loop (handle_call env extract h sur) 0 cs"

datatype 'sd close_call = libhoney_Close | otel_Shutdown 'sd

definition Close_libhoney :: "libhoneyEventHandler \<Rightarrow> 'sd close_call" where
  "Close_libhoney handler = libhoney_Close"

definition Close_otel :: "'sd otelHandler \<Rightarrow> 'sd close_call" where
  "Close_otel handler = otel_Shutdown (otelShutdown handler)"

fun Close_handler :: "'sd eventHandler \<Rightarrow> 'sd close_call" where
  "Close_handler (LibhoneyHandler init h) = Close_libhoney h"
| "Close_handler (OtelHandler h) = Close_otel h"

section \<open>Either handler provides the interface\<close>

fun report_value :: "string \<Rightarrow> 'ctx report \<Rightarrow> fieldValue option" where
  "report_value k (LibhoneyEvent x) = value_of (added x) k"
| "report_value k (OtelSpan s) = value_of (span_attrs s) k"

interpretation handler: event_handler "handle_call env extract h sur"
  "report_value ''meta.stream.ident''" "report_value ''meta.seqack''" for env "extract" h sur
proof
  fix n e ev x
  let ?h = "with_cache (cache_at (sur n)) h"
  show "length (handle_call env extract h sur n (EvHttp e)) = 1"
    by (cases ?h) (simp_all add: handle_call_def handleEvent_otel_http emitted_def)
  assume x: "x \<in> set (handle_call env extract h sur n ev)"
  show "report_value ''meta.stream.ident'' x = Some (VString (StreamIdent ev))"
    using x by (cases ?h) (auto simp: handle_call_def libhoney_reports otel_reports base_field_values
        otel_emits split: Event.splits)
  show "report_value ''meta.seqack'' x = Some (VInt (sint (RequestId ev)))"
    using x by (cases ?h) (auto simp: handle_call_def libhoney_reports otel_reports base_field_values
        otel_emits split: Event.splits)
qed

section \<open>The types of the reported values\<close>

datatype column = TextColumn | NumberColumn | TimeColumn

fun column_of :: "fieldValue \<Rightarrow> column" where
  "column_of (VString s) = TextColumn"
| "column_of (VInt i) = NumberColumn"
| "column_of (VInt64 i) = NumberColumn"
| "column_of (VUint64 u) = NumberColumn"
| "column_of (VTime t) = TimeColumn"

definition number_names :: "string list" where
  "number_names =
     [''meta.seqack'', ''meta.request.packet_count'', ''meta.response.packet_count'',
      ''meta.request.capture_to_handle.latency_ms'', ''meta.response.capture_to_handle.latency_ms'',
      ''duration_ms'', ''http.request.body.size'', ''http.response.body.size'',
      ''http.response.status_code'', ''http.request_content_length'', ''http.status_code'',
      ''http.response_content_length'']"

definition time_names :: "string list" where
  "time_names = [''meta.event_handled_at'', ''http.request.timestamp'', ''http.response.timestamp'']"

text \<open>The type of a name; the OpenTelemetry handler reports times as text.\<close>

definition libhoney_column :: "string \<Rightarrow> column" where
  "libhoney_column k =
     (if k \<in> set number_names then NumberColumn
      else if k \<in> set time_names then TimeColumn else TextColumn)"

definition otel_column :: "string \<Rightarrow> column" where
  "otel_column k = (if k \<in> set number_names then NumberColumn else TextColumn)"

definition typed :: "(string \<Rightarrow> column) \<Rightarrow> fields \<Rightarrow> bool" where
  "typed col fs \<longleftrightarrow> list_all (\<lambda>(k, v). column_of v = col k) fs"

lemma typed_simps [simp]:
  "typed col []" "typed col ((k, v) # fs) \<longleftrightarrow> column_of v = col k \<and> typed col fs"
  "typed col (fs @ gs) \<longleftrightarrow> typed col fs \<and> typed col gs"
  by (simp_all add: typed_def)

lemma variable_names_text:
  assumes "variable_name k"
  shows "libhoney_column k = TextColumn" "otel_column k = TextColumn"
proof -
  have "list_all (\<lambda>k. \<not> variable_name k) (number_names @ time_names)"
    by (simp add: number_names_def time_names_def variable_name_def header_prefix_def)
  with assms have "k \<notin> set number_names" "k \<notin> set time_names" by (auto simp: list_all_iff)
  then show "libhoney_column k = TextColumn" "otel_column k = TextColumn"
    by (simp_all add: libhoney_column_def otel_column_def)
qed

lemma typed_text:
  assumes "\<And>k v. (k, v) \<in> set fs \<Longrightarrow> variable_name k \<and> (\<exists>s. v = VString s)"
  shows "typed libhoney_column fs" "typed otel_column fs"
  using assms variable_names_text by (fastforce simp: typed_def list_all_iff)+

lemma string_pairs: "(k, v) \<in> set (map (\<lambda>(k, v). (k, VString v)) ps) \<Longrightarrow> \<exists>s. v = VString s"
  by auto

lemma typed_variable_parts:
  "typed libhoney_column (request_headers env ord r)" "typed otel_column (request_headers env ord r)"
  "typed libhoney_column (response_headers env ord s)" "typed otel_column (response_headers env ord s)"
  "typed libhoney_column (end_fields env cfg client ord ev)"
  "typed otel_column (end_fields env cfg client ord ev)"
proof -
  have key: "(k, v) \<in> set fs \<Longrightarrow> k \<in> field_keys fs" for k v fs
    by (force simp: field_keys_def)
  have "variable_name k \<and> (\<exists>x. v = VString x)" if "(k, v) \<in> set (request_headers env ord r)" for k v
    using that request_headers_names [OF key [OF that]]
    by (auto simp: variable_name_def request_headers_def header_fields_def Let_def split: option.splits)
  from typed_text [OF this] show "typed libhoney_column (request_headers env ord r)"
    "typed otel_column (request_headers env ord r)" by blast+
  have "variable_name k \<and> (\<exists>x. v = VString x)" if "(k, v) \<in> set (response_headers env ord s)" for k v
    using that response_headers_names [OF key [OF that]]
    by (auto simp: variable_name_def response_headers_def header_fields_def Let_def split: option.splits)
  from typed_text [OF this] show "typed libhoney_column (response_headers env ord s)"
    "typed otel_column (response_headers env ord s)" by blast+
  have "variable_name k \<and> (\<exists>x. v = VString x)" if "(k, v) \<in> set (end_fields env cfg client ord ev)" for k v
    using that end_fields_names [OF key [OF that]]
    by (auto simp: variable_name_def end_fields_def string_fields_def Let_def)
  from typed_text [OF this] show "typed libhoney_column (end_fields env cfg client ord ev)"
    "typed otel_column (end_fields env cfg client ord ev)" by blast+
qed

lemmas column_defs = libhoney_column_def otel_column_def number_names_def time_names_def

lemma typed_libhoney_parts:
  "typed libhoney_column (lh_times now ev)" "typed libhoney_column (base_fields ev)"
  "typed libhoney_column (lh_request env cfg r)" "typed libhoney_column (lh_response s)"
  by (simp_all add: column_defs lh_times_def setTimestampsAndDurationIfValid_def base_fields_def
      lh_request_def lh_response_def error_fields_def Let_def split: option.split)

lemma typed_otel_parts:
  "typed otel_column (ot_times env now ev)" "typed otel_column (base_fields ev)"
  "typed otel_column (ot_request1 r)" "typed otel_column (ot_request2 env cfg r)"
  "typed otel_column (ot_response1 s)" "typed otel_column (ot_response2 s)"
  by (simp_all add: column_defs ot_times_def getEventStartEndTimestamps_def base_fields_def
      ot_request1_def ot_request2_def ot_response1_def ot_response2_def error_fields_def Let_def
      split: option.split)

fun typed_report :: "'ctx report \<Rightarrow> bool" where
  "typed_report (LibhoneyEvent x) = typed libhoney_column (added x)"
| "typed_report (OtelSpan s) = typed otel_column (span_attrs s)"

lemma typed_report_case:
  "typed_report = (\<lambda>r. case r of
     LibhoneyEvent x \<Rightarrow> list_all (\<lambda>(k, v). column_of v = libhoney_column k) (added x)
   | OtelSpan s \<Rightarrow> list_all (\<lambda>(k, v). column_of v = otel_column k) (span_attrs s))"
  by (rule ext) (simp add: typed_def split: report.split)

lemma typed_libhoney: "typed libhoney_column (added (handleEvent_libhoney env h now ord ev))"
  by (cases h) (simp add: added_libhoney typed_libhoney_parts typed_variable_parts split: Event.split)

lemma typed_otel: "typed otel_column (span_attrs (otel_span env extract h now ord e))"
  by (cases h) (simp add: otel_span_attrs typed_otel_parts typed_variable_parts)

lemma typed_call: "list_all typed_report (handle_call env extract h sur n ev)"
  by (cases "with_cache (cache_at (sur n)) h")
    (auto simp: handle_call_def typed_libhoney typed_otel otel_emits emitted_def split: Event.split)

lemma typed_all: "list_all typed_report (handle_all (handle_call env extract h sur) n evs)"
  by (induction evs arbitrary: n) (simp_all add: typed_call)

text \<open>The OpenTelemetry handler does not use the additional attributes, in its set-up or its spans.\<close>

lemma otel_ignores_additional:
  "otel_options (cfg\<lparr>AdditionalAttributes := m\<rparr>) version = otel_options cfg version"
  "handleEvent_otel env extract (h\<lparr>ot_config := (ot_config h)\<lparr>AdditionalAttributes := m\<rparr>\<rparr>) now ord ev =
     handleEvent_otel env extract h now ord ev"
proof -
  show "otel_options (cfg\<lparr>AdditionalAttributes := m\<rparr>) version = otel_options cfg version"
    by (simp add: otel_options_def otel_resource_def)
  have "resolveHTTPAttributes env (cfg\<lparr>AdditionalAttributes := m\<rparr>) ord e =
      resolveHTTPAttributes env cfg ord e" for cfg e
    by (simp add: resolveHTTPAttributes_def cong: option.case_cong)
  then show "handleEvent_otel env extract (h\<lparr>ot_config := (ot_config h)\<lparr>AdditionalAttributes := m\<rparr>\<rparr>) now
      ord ev = handleEvent_otel env extract h now ord ev"
    by (simp add: handleEvent_otel_def createHTTPSpan_def Let_def split_beta split: Event.split)
qed

text \<open>What the two handlers say of the agent itself.\<close>

lemma global_names:
  "value_of (global_fields (initLibhoney cfg version [])) k =
     (if k = ''honeycomb.agent.name'' then Some (VString ''Honeycomb Network Agent'')
      else if k = ''honeycomb.agent.version'' then Some (VString version)
      else case map_of
          [(''meta.agent.node.ip'', AgentNodeIP cfg), (''meta.agent.node.name'', AgentNodeName cfg),
           (''meta.agent.serviceaccount.name'', AgentServiceAccount cfg),
           (''meta.agent.pod.ip'', AgentPodIP cfg), (''meta.agent.pod.name'', AgentPodName cfg)] k of
        Some v \<Rightarrow> if v = '''' then None else Some (VString v)
      | None \<Rightarrow> None)"
  by (simp add: initLibhoney_def value_of_append value_of_Cons pairs_in_def)

lemma resource_names:
  "otel_resource cfg version k =
     (if k = ''honeycomb.agent.name'' then Some ''Honeycomb Network Agent''
      else if k = ''honeycomb.agent.version'' then Some version
      else if k = ''net.component'' then Some ''proxy''
      else map_of
          [(''meta.agent.node.ip'', AgentNodeIP cfg), (''meta.agent.node.name'', AgentNodeName cfg),
           (''meta.agent.serviceaccount.name'', AgentServiceAccount cfg),
           (''meta.agent.pod.ip'', AgentPodIP cfg), (''meta.agent.pod.name'', AgentPodName cfg)] k)"
  by (simp add: otel_resource_def)

section \<open>Properties\<close>

text \<open>Both handlers identify the agent alike: apart from the component name that only spans have,
  each resource attribute of the OpenTelemetry handler that is not empty is a global field of
  the libhoney handler with the same value, and there is no other global field without
  additional attributes.\<close>

lemma agent_identity_agrees:
  assumes "version \<noteq> ''''" and "k \<noteq> ''net.component''"
  shows "value_of (global_fields (fst (NewLibhoneyEventHandler cfg client version []))) k =
    (case WithResourceAttributes (otel_options cfg version) k of
       Some v \<Rightarrow> if v = '''' then None else Some (VString v)
     | None \<Rightarrow> None)"
  using assms by (simp add: NewLibhoneyEventHandler_def otel_options_def global_names resource_names)

text \<open>C22: Every value reported for a name has the type of that name's column, in every report of either
  handler's Start loop: counts, sizes, codes and latencies are numbers, times are times (text in
  spans), and whatever stands under a header's or a Kubernetes name is text.\<close>

theorem reports_well_typed:
  "list_all (\<lambda>r. case r of
       LibhoneyEvent x \<Rightarrow> list_all (\<lambda>(k, v). column_of v = libhoney_column k) (added x)
     | OtelSpan s \<Rightarrow> list_all (\<lambda>(k, v). column_of v = otel_column k) (span_attrs s))
   (fst (Start_handler env extract h sur choices))"
  by (simp add: Start_handler_def handler_loop_handles typed_report_case [symmetric] typed_all)

end
