(* ===== verification/Debug_Service.thy ===== *)
theory Debug_Service
  imports Config
begin

text \<open>
  \<open>debug/debug_service.go\<close>: the registration of the debugging handlers and published
  variables, the index and the variable page, and the choice of the address to listen on. A
  handler is any value (\<open>'h\<close>); the state of the runtime that a published function reads is
  \<open>'env\<close>. \<open>http.ServeMux\<close>, \<open>net.SplitHostPort\<close> and \<open>net.JoinHostPort\<close> are the
  standard library's; whether an address can be bound is the argument \<open>ListenAndServe\<close>.
\<close>

datatype ('env, 'v) expvar = Value 'v | Func "'env \<Rightarrow> 'v"

record ('h, 'env, 'v) debugService =
  mux :: "string \<rightharpoonup> 'h"
  urls :: "string list"
  expVars :: "string \<rightharpoonup> ('env, 'v) expvar"
  debug_config :: config

definition newDebugService :: "config \<Rightarrow> ('h, 'env, 'v) debugService" where
  "newDebugService cfg =
     \<lparr>mux = Map.empty, urls = [], expVars = Map.empty, debug_config = cfg\<rparr>"

section \<open>Registration\<close>

text \<open>The multiplexer of Go 1.21: an empty or repeated pattern panics.\<close>

definition mux_Handle :: "string \<Rightarrow> 'h \<Rightarrow> (string \<rightharpoonup> 'h) \<Rightarrow> panic + (string \<rightharpoonup> 'h)" where
  "mux_Handle pattern handler m =
     (if pattern = '''' then Inl (RuntimePanic ''http: invalid pattern'')
      else if m pattern \<noteq> None
      then Inl (RuntimePanic (''http: multiple registrations for '' @ pattern))
      else Inr (m(pattern \<mapsto> handler)))"

definition Handle ::
  "string \<Rightarrow> 'h \<Rightarrow> ('h, 'env, 'v) debugService \<Rightarrow> panic + ('h, 'env, 'v) debugService" where
  "Handle pattern handler s =
     (let s = s\<lparr>urls := urls s @ [pattern]\<rparr>
      in case mux_Handle pattern handler (mux s) of
           Inl e \<Rightarrow> Inl e
         | Inr m \<Rightarrow> Inr (s\<lparr>mux := m\<rparr>))"

text \<open>\<open>HandleFunc\<close> does the same for a function, which is a handler of the model.\<close>

definition HandleFunc ::
  "string \<Rightarrow> 'h \<Rightarrow> ('h, 'env, 'v) debugService \<Rightarrow> panic + ('h, 'env, 'v) debugService" where
  "HandleFunc pattern handler s =
     (let s = s\<lparr>urls := urls s @ [pattern]\<rparr>
      in case mux_Handle pattern handler (mux s) of
           Inl e \<Rightarrow> Inl e
         | Inr m \<Rightarrow> Inr (s\<lparr>mux := m\<rparr>))"

definition Publish ::
  "string \<Rightarrow> ('env, 'v) expvar \<Rightarrow> ('h, 'env, 'v) debugService
    \<Rightarrow> panic + ('h, 'env, 'v) debugService" where
  "Publish name v s =
     (if expVars s name \<noteq> None
      then Inl (LogPanic (''Reuse of exported var name: '' @ name))
      else Inr (s\<lparr>expVars := (expVars s)(name \<mapsto> v)\<rparr>))"

text \<open>A sequence of such calls stops at the first panic.\<close>

fun run_calls :: "('s \<Rightarrow> panic + 's) list \<Rightarrow> 's \<Rightarrow> panic + 's" where
  "run_calls [] s = Inr s"
| "run_calls (c # cs) s = (case c s of Inl e \<Rightarrow> Inl e | Inr s \<Rightarrow> run_calls cs s)"

text \<open>
  The handlers \<open>Start\<close> registers, by the names the code gives them, and the two variables.
\<close>

datatype debug_handler =
  indexHandler | pprof_Index | pprof_Cmdline | pprof_Profile | pprof_Symbol | pprof_Trace
| delta_Heap | delta_Block | delta_Mutex | expvarHandler | exp_ExpHandler

definition Start_debug ::
  "'v \<Rightarrow> ('env \<Rightarrow> 'v) \<Rightarrow> (debug_handler, 'env, 'v) debugService
    \<Rightarrow> panic + (debug_handler, 'env, 'v) debugService" where
  "Start_debug os_Args memstats s =
     (let s = s\<lparr>expVars := Map.empty\<rparr>;
          s = s\<lparr>mux := Map.empty\<rparr>
      in case mux_Handle ''/'' indexHandler (mux s) of
           Inl e \<Rightarrow> Inl e
         | Inr m \<Rightarrow> run_calls
             [HandleFunc ''/debug/pprof/'' pprof_Index,
              HandleFunc ''/debug/pprof/cmdline'' pprof_Cmdline,
              HandleFunc ''/debug/pprof/profile'' pprof_Profile,
              HandleFunc ''/debug/pprof/symbol'' pprof_Symbol,
              HandleFunc ''/debug/pprof/trace'' pprof_Trace,
              HandleFunc ''/debug/pprof/delta_heap'' delta_Heap,
              HandleFunc ''/debug/pprof/delta_block'' delta_Block,
              HandleFunc ''/debug/pprof/delta_mutex'' delta_Mutex,
              HandleFunc ''/debug/vars'' expvarHandler,
              Handle ''/debug/metrics'' exp_ExpHandler,
              Publish ''cmdline'' (Value os_Args),
              Publish ''memstats'' (Func memstats)] (s\<lparr>mux := m\<rparr>))"

section \<open>Pages\<close>

text \<open>The values the variable page encodes, ranging over the variables in the given order.\<close>

fun eval_expvar :: "'env \<Rightarrow> ('env, 'v) expvar \<Rightarrow> 'v" where
  "eval_expvar env (Value v) = v"
| "eval_expvar env (Func f) = f env"

definition expvar_values ::
  "'env \<Rightarrow> ('h, 'env, 'v) debugService \<Rightarrow> string list \<Rightarrow> (string \<rightharpoonup> 'v)" where
  "expvar_values env s keys =
     foldl (\<lambda>vals (k, v). vals(k \<mapsto> eval_expvar env v)) Map.empty (pairs_in (expVars s) keys)"

text \<open>The rows of the index: one per URL, in the order of registration.\<close>

definition index_row :: "(string \<Rightarrow> string) \<Rightarrow> (string \<Rightarrow> string) \<Rightarrow> string \<Rightarrow> string" where
  "index_row attr_escape html_escape url =
     CHR 0x0A # ''<tr><td><a href='' @ [CHR 0x22] @ attr_escape url @ ''?debug=1'' @ [CHR 0x22] @
     ''>'' @ html_escape url @ ''</a>'' @ [CHR 0x0A]"

definition index_rows ::
  "(string \<Rightarrow> string) \<Rightarrow> (string \<Rightarrow> string) \<Rightarrow> ('h, 'env, 'v) debugService \<Rightarrow> string" where
  "index_rows attr_escape html_escape s =
     concat (map (index_row attr_escape html_escape) (urls s))"

section \<open>Addresses\<close>

text \<open>
  \<open>net.SplitHostPort\<close>; \<open>None\<close> is an error. The port stands behind the last colon; a host
  in brackets may contain colons.
\<close>

definition SplitHostPort :: "string \<Rightarrow> (string \<times> string) option" where
  "SplitHostPort hostport =
     (if CHR '':'' \<notin> set hostport then None
      else
        (let port = rev (takeWhile (\<lambda>c. c \<noteq> CHR '':'') (rev hostport));
             head = take (length hostport - length port - 1) hostport
         in if head \<noteq> [] \<and> hd head = CHR ''['' then
              (let host = tl (takeWhile (\<lambda>c. c \<noteq> CHR '']'') head)
               in if head = CHR ''['' # host @ [CHR '']''] \<and> CHR ''['' \<notin> set host \<and>
                     CHR ''['' \<notin> set port \<and> CHR '']'' \<notin> set port
                  then Some (host, port) else None)
            else if CHR '':'' \<in> set head \<or> CHR ''['' \<in> set hostport \<or> CHR '']'' \<in> set hostport
            then None
            else Some (head, port)))"

definition JoinHostPort :: "string \<Rightarrow> string \<Rightarrow> string" where
  "JoinHostPort host port =
     (if CHR '':'' \<in> set host then ''['' @ host @ '']:'' @ port else host @ '':'' @ port)"

text \<open>The code ignores the error of the split and goes on with the empty strings.\<close>

definition split_ignoring_error :: "string \<Rightarrow> string \<times> string" where
  "split_ignoring_error a = (case SplitHostPort a of None \<Rightarrow> ([], []) | Some hp \<Rightarrow> hp)"

definition addr :: string where
  "addr = ''0.0.0.0:6060''"

section \<open>Listening\<close>

text \<open>
  \<open>ListenAndServe\<close> always returns an error: at once when the address is in use, or another
  one, at once or when the server ends.
\<close>

datatype serve_error = AddressInUse | OtherServeError

text \<open>The addresses the fallback loop tries, for the remaining values of its counter.\<close>

fun listen_loop :: "(string \<Rightarrow> serve_error) \<Rightarrow> nat list \<Rightarrow> string list" where
  "listen_loop ListenAndServe [] = []"
| "listen_loop ListenAndServe (i # is) =
     (let (host, portStr) = split_ignoring_error addr;
          port = read_decimal portStr + i;
          a = JoinHostPort host (decimal port)
      in case ListenAndServe a of
           AddressInUse \<Rightarrow> a # listen_loop ListenAndServe is
         | OtherServeError \<Rightarrow> [a])"

definition listen_addresses :: "(string \<Rightarrow> serve_error) \<Rightarrow> config \<Rightarrow> string list" where
  "listen_addresses ListenAndServe cfg =
     (if DebugAddress cfg \<noteq> '''' then
        (let (host, portStr) = split_ignoring_error (DebugAddress cfg)
         in [JoinHostPort host portStr])
      else listen_loop ListenAndServe [0..<10])"

section \<open>Facts about registration\<close>

lemma HandleFunc_Handle: "HandleFunc = Handle"
  by (simp add: fun_eq_iff Handle_def HandleFunc_def)

text \<open>Every link of the index is served, and was registered once.\<close>

definition index_inv :: "('h, 'env, 'v) debugService \<Rightarrow> bool" where
  "index_inv s \<longleftrightarrow> distinct (urls s) \<and> set (urls s) \<subseteq> dom (mux s)"

lemma Handle_Inr:
  "Handle p h s = Inr s' \<longleftrightarrow> p \<noteq> '''' \<and> mux s p = None \<and>
     s' = s\<lparr>urls := urls s @ [p], mux := (mux s)(p \<mapsto> h)\<rparr>"
  by (auto simp: Handle_def mux_Handle_def Let_def)

lemma index_inv_Handle [inv_intros]: "index_inv s \<Longrightarrow> Handle p h s = Inr s' \<Longrightarrow> index_inv s'"
  by (auto simp: index_inv_def Handle_Inr)

lemma index_inv_Publish [inv_intros]: "index_inv s \<Longrightarrow> Publish n v s = Inr s' \<Longrightarrow> index_inv s'"
  by (auto simp: index_inv_def Publish_def split: if_splits)

lemma Publish_Inr:
  "Publish n v s = Inr s' \<longleftrightarrow> expVars s n = None \<and> s' = s\<lparr>expVars := (expVars s)(n \<mapsto> v)\<rparr>"
  by (auto simp: Publish_def)

definition start_urls :: "string list" where
  "start_urls =
     [''/debug/pprof/'', ''/debug/pprof/cmdline'', ''/debug/pprof/profile'',
      ''/debug/pprof/symbol'', ''/debug/pprof/trace'', ''/debug/pprof/delta_heap'',
      ''/debug/pprof/delta_block'', ''/debug/pprof/delta_mutex'', ''/debug/vars'',
      ''/debug/metrics'']"

lemma run_calls_Inr:
  "c s = Inr s' \<Longrightarrow> run_calls (c # cs) s = run_calls cs s'"
  by simp

lemma Start_debug_ok:
  "\<exists>s'. Start_debug args mem s = Inr s' \<and> urls s' = urls s @ start_urls \<and>
     dom (mux s') = insert ''/'' (set start_urls) \<and>
     expVars s' = Map.empty(''cmdline'' \<mapsto> Value args, ''memstats'' \<mapsto> Func mem)"
  by (auto simp: Start_debug_def HandleFunc_def Handle_def mux_Handle_def Publish_def start_urls_def
      Let_def)

lemma expvar_values_eq:
  assumes "enumerates keys (expVars s)"
  shows "expvar_values env s keys = map_option (eval_expvar env) \<circ> expVars s"
proof -
  have "expvar_values env s keys =
      write_all Map.empty (map (\<lambda>(k, v). (k, eval_expvar env v)) (pairs_in (expVars s) keys))"
    by (simp add: expvar_values_def write_all_def foldl_map split_def)
  also have "map (\<lambda>(k, v). (k, eval_expvar env v)) (pairs_in (expVars s) keys) =
      pairs_in (map_option (eval_expvar env) \<circ> expVars s) keys"
    by (auto simp: pairs_in_def)
  also have "write_all Map.empty \<dots> = map_option (eval_expvar env) \<circ> expVars s"
    using assms by (subst write_all_pairs_in) (auto simp: enumerates_def dom_def)
  finally show ?thesis .
qed

section \<open>Facts about addresses\<close>

lemma last_colon:
  "CHR '':'' \<notin> set p \<Longrightarrow> rev (takeWhile (\<lambda>c. c \<noteq> CHR '':'') (rev (h @ CHR '':'' # p))) = p"
  by (simp add: takeWhile_tail, subst takeWhile_eq_all_conv [THEN iffD2]) auto

lemma takeWhile_other: "c \<notin> set xs \<Longrightarrow> takeWhile (\<lambda>x. x \<noteq> c) xs = xs"
  by (auto simp: takeWhile_eq_all_conv)

lemma split_join_host_port:
  assumes "CHR '':'' \<notin> set port" "CHR ''['' \<notin> set port" "CHR '']'' \<notin> set port"
    "CHR ''['' \<notin> set host" "CHR '']'' \<notin> set host"
  shows "SplitHostPort (JoinHostPort host port) = Some (host, port)"
proof (cases "CHR '':'' \<in> set host")
  case True
  have "JoinHostPort host port = (''['' @ host @ '']'') @ CHR '':'' # port"
    using True by (simp add: JoinHostPort_def)
  with assms show ?thesis
    using last_colon [OF assms(1), of "''['' @ host @ '']''"]
    by (simp add: SplitHostPort_def Let_def takeWhile_tail takeWhile_other)
next
  case False
  have "JoinHostPort host port = host @ CHR '':'' # port"
    using False by (simp add: JoinHostPort_def)
  with assms False show ?thesis
    using last_colon [OF assms(1), of host]
    by (cases host) (auto simp: SplitHostPort_def Let_def)
qed

lemma split_addr: "split_ignoring_error addr = (''0.0.0.0'', ''6060'')"
  by (simp add: split_ignoring_error_def addr_def SplitHostPort_def)

lemma read_6060: "read_decimal ''6060'' = 6060"
  by (simp add: read_decimal_def byte_val_def)

lemma listen_loop_Cons:
  "listen_loop serve (i # is) =
     (let a = ''0.0.0.0:'' @ decimal (6060 + i)
      in if serve a = AddressInUse then a # listen_loop serve is else [a])"
  by (simp add: split_addr read_6060 JoinHostPort_def Let_def split: serve_error.split)

text \<open>
  The loop tries consecutive addresses up to the first one that is not in use, which it tries
  last.
\<close>

lemma listen_loop_addresses:
  "listen_loop serve is =
     (let addrs = map (\<lambda>i. ''0.0.0.0:'' @ decimal (6060 + i)) is;
          used = takeWhile (\<lambda>a. serve a = AddressInUse) addrs
      in take (Suc (length used)) addrs)"
  by (induction "is") (simp_all add: listen_loop_Cons Let_def del: listen_loop.simps(2))

text \<open>
  The default of the debug address is not empty, and an empty variable counts as unset: with a
  configuration from the environment the fallback loop is never entered.
\<close>

lemma fallback_not_reached: "\<exists>a. listen_addresses serve (NewConfig env) = [a]"
  by (auto simp: listen_addresses_def NewConfig_def LookupEnvOrString_def Let_def split_beta)

text \<open>An address without a port is silently replaced by the empty host and port.\<close>

lemma missing_port: "CHR '':'' \<notin> set a \<Longrightarrow> a \<noteq> '''' \<Longrightarrow>
    listen_addresses serve (cfg\<lparr>DebugAddress := a\<rparr>) = ['':'']"
  by (simp add: listen_addresses_def split_ignoring_error_def SplitHostPort_def JoinHostPort_def)

section \<open>Properties\<close>

text \<open>Starting a new debug service succeeds; the index then lists ten pages, each once, and every
  page it lists is served; the two published variables are there, and publishing one of those
  names again panics.\<close>

lemma debug_index_served:
  fixes args :: 'a and mem :: "'b \<Rightarrow> 'a"
  shows "\<exists>s. Start_debug args mem (newDebugService cfg) = Inr s \<and>
     urls s = start_urls \<and> length start_urls = 10 \<and> distinct (urls s) \<and>
     set (urls s) \<subseteq> dom (mux s) \<and> dom (expVars s) = {''cmdline'', ''memstats''} \<and>
     Publish ''memstats'' v s = Inl (LogPanic ''Reuse of exported var name: memstats'')"
proof -
  let ?new = "newDebugService cfg :: (debug_handler, 'b, 'a) debugService"
  obtain s where s: "Start_debug args mem ?new = Inr s"
    "urls s = urls ?new @ start_urls" "dom (mux s) = insert ''/'' (set start_urls)"
    "expVars s = Map.empty(''cmdline'' \<mapsto> Value args, ''memstats'' \<mapsto> Func mem)"
    using Start_debug_ok [of args mem ?new] by blast
  have "length start_urls = 10" and "distinct start_urls" by (simp_all add: start_urls_def)
  moreover have "dom (expVars s) = {''cmdline'', ''memstats''}"
    unfolding s(4) dom_fun_upd by (simp add: insert_commute)
  moreover have "urls s = start_urls" using s(2) by (simp add: newDebugService_def)
  moreover have "set start_urls \<subseteq> dom (mux s)" unfolding s(3) by (rule subset_insertI)
  moreover have "Publish ''memstats'' v s = Inl (LogPanic ''Reuse of exported var name: memstats'')"
    by (simp add: Publish_def s(4))
  ultimately show ?thesis using s(1) by (intro exI [of _ s]) (simp only: simp_thms)
qed

end
