(* ===== verification/Events_Channel.thy ===== *)
theory Events_Channel
  imports Events
begin

text \<open>
  The channel between the assembler and the event handler (\<open>main.go\<close>): a Go channel of a
  given capacity. A send on a full channel and a receive on an empty one block, which is
  \<open>None\<close> here. The interface states what the two sides rely on: first in, first out, and
  never more than the capacity.
\<close>

locale bounded_fifo =
  fixes enq :: "'q \<Rightarrow> 'e \<Rightarrow> 'q option"
    and deq :: "'q \<Rightarrow> ('e \<times> 'q) option"
    and contents :: "'q \<Rightarrow> 'e list"
    and bound :: "'q \<Rightarrow> nat"
  assumes enq_contents: "enq q e = Some q' \<Longrightarrow>
      contents q' = contents q @ [e] \<and> bound q' = bound q"
    and enq_blocks: "enq q e = None \<longleftrightarrow> bound q \<le> length (contents q)"
    and deq_contents: "deq q = Some (e, q') \<Longrightarrow>
      contents q = e # contents q' \<and> bound q' = bound q"
    and deq_blocks: "deq q = None \<longleftrightarrow> contents q = []"
begin

text \<open>
  A history of the two sides: \<open>Some e\<close> sends, \<open>None\<close> receives; the result is what was
  received, and \<open>None\<close> if one of the operations blocks.
\<close>

fun operate :: "'q \<Rightarrow> 'e option list \<Rightarrow> ('e list \<times> 'q) option" where
  "operate q [] = Some ([], q)"
| "operate q (Some e # ops) =
     (case enq q e of None \<Rightarrow> None | Some q' \<Rightarrow> operate q' ops)"
| "operate q (None # ops) =
     (case deq q of
        None \<Rightarrow> None
      | Some (e, q') \<Rightarrow> map_option (\<lambda>(es, q''). (e # es, q'')) (operate q' ops))"

definition sends :: "'e option list \<Rightarrow> 'e list" where
  "sends ops = map the (filter (\<lambda>x. x \<noteq> None) ops)"

lemma sends_simps [simp]:
  "sends [] = []" "sends (Some e # ops) = e # sends ops" "sends (None # ops) = sends ops"
  by (simp_all add: sends_def)

text \<open>Nothing is lost, duplicated or reordered between the two sides.\<close>

lemma fifo: "operate q ops = Some (got, q') \<Longrightarrow> got @ contents q' = contents q @ sends ops"
proof (induction q ops arbitrary: got rule: operate.induct)
  case (2 q e ops)
  then show ?case by (auto split: option.splits dest!: enq_contents)
next
  case (3 q ops)
  then show ?case by (fastforce split: option.splits dest!: deq_contents)
qed simp

lemma send_within: "enq q e = Some q' \<Longrightarrow> length (contents q') \<le> bound q'"
  using enq_contents [of q e q'] enq_blocks [of q e] by auto

text \<open>The capacity is kept.\<close>

lemma bounded:
  "operate q ops = Some (got, q') \<Longrightarrow> length (contents q) \<le> bound q \<Longrightarrow>
    length (contents q') \<le> bound q' \<and> bound q' = bound q"
proof (induction q ops arbitrary: got rule: operate.induct)
  case (2 q e ops)
  then obtain q1 where "enq q e = Some q1" "operate q1 ops = Some (got, q')"
    by (auto split: option.splits)
  with 2(1) [of q1 got] enq_contents [of q e q1] send_within [of q e q1] show ?case by simp
next
  case (3 q ops)
  then show ?case by (fastforce split: option.splits dest!: deq_contents)
qed simp

text \<open>Of two goroutines that only use the channel, one is never blocked, unless nothing fits.\<close>

lemma not_both_blocked: "0 < bound q \<Longrightarrow> enq q e = None \<Longrightarrow> deq q \<noteq> None"
  using enq_blocks [of q e] deq_blocks [of q] by auto

end

section \<open>The channel of the program\<close>

record events_channel =
  capacity :: nat
  queued :: "Event list"

definition make_chan :: "nat \<Rightarrow> events_channel" where
  "make_chan n = \<lparr>capacity = n, queued = []\<rparr>"

definition chan_send :: "events_channel \<Rightarrow> Event \<Rightarrow> events_channel option" where
  "chan_send ch e =
     (if length (queued ch) < capacity ch then Some (ch\<lparr>queued := queued ch @ [e]\<rparr>) else None)"

definition chan_receive :: "events_channel \<Rightarrow> (Event \<times> events_channel) option" where
  "chan_receive ch =
     (case queued ch of [] \<Rightarrow> None | e # es \<Rightarrow> Some (e, ch\<lparr>queued := es\<rparr>))"

interpretation events_chan: bounded_fifo chan_send chan_receive queued capacity
  by unfold_locales
     (auto simp: chan_send_def chan_receive_def split: if_splits list.splits)

end
