(* ===== verification/Agent.thy ===== *)
theory Agent
  imports Stream_Trace Handlers Debug_Service Events_Channel
begin

text \<open>
  \<open>main.go\<close> and the goroutines it starts: the start of the agent, the event handler's and the
  assembler's loops with the channel between them, and the shutdown. The goroutines interleave
  freely: the agent is a step relation whose steps are one callback, one send, one receive or
  one action of the shutdown.
\<close>

section \<open>Logging\<close>

text \<open>The levels of zerolog, in its order.\<close>

datatype level =
  TraceLevel | DebugLevel | InfoLevel | WarnLevel | ErrorLevel | FatalLevel | PanicLevel | NoLevel
| DisabledLevel

fun level_number :: "level \<Rightarrow> int" where
  "level_number TraceLevel = - 1"
| "level_number DebugLevel = 0"
| "level_number InfoLevel = 1"
| "level_number WarnLevel = 2"
| "level_number ErrorLevel = 3"
| "level_number FatalLevel = 4"
| "level_number PanicLevel = 5"
| "level_number NoLevel = 6"
| "level_number DisabledLevel = 7"

lemma level_number_inj: "level_number a = level_number b \<longleftrightarrow> a = b"
  by (cases a; cases b; simp)

instantiation level :: linorder
begin

definition less_eq_level :: "level \<Rightarrow> level \<Rightarrow> bool" where
  "less_eq_level a b \<longleftrightarrow> level_number a \<le> level_number b"

definition less_level :: "level \<Rightarrow> level \<Rightarrow> bool" where
  "less_level a b \<longleftrightarrow> level_number a < level_number b"

instance
  by standard (auto simp: less_eq_level_def less_level_def level_number_inj)

end

text \<open>\<open>ParseLevel\<close> is zerolog's; a name it rejects means the level INFO.\<close>

record logging =
  GlobalLevel :: level
  pretty :: bool

definition setupLogging :: "(string \<Rightarrow> string + level) \<Rightarrow> config \<Rightarrow> logging" where
  "setupLogging ParseLevel c =
     (let level = (case ParseLevel (LogLevel c) of Inl e \<Rightarrow> InfoLevel | Inr l \<Rightarrow> l)
      in \<lparr>GlobalLevel = level, pretty = (level = DebugLevel)\<rparr>)"

section \<open>Starting\<close>

definition Version :: string where
  "Version = ''0.2.1-beta''"

text \<open>
  The libraries \<open>main\<close> calls on the way: the remote checks and connections that may fail, and
  the order in which Go ranges over the additional attributes.
\<close>

record ('h, 'sd) start_lib =
  lib_ParseLevel :: "string \<Rightarrow> string + level"
  VerifyAPIKey :: "string \<Rightarrow> bool"
  InClusterConfig :: "string option"
  NewForConfig :: "string + clientset"
  ConfigureOpenTelemetry :: "otel_settings \<Rightarrow> string + 'sd"
  attribute_order :: "string list"
  lib_pcap :: "'h pcap_lib"

text \<open>\<open>None\<close> is a start that never ends: it waits for the caches.\<close>

definition setupK8s :: "('h, 'sd) start_lib \<Rightarrow> (panic + CachedK8sClient) option" where
  "setupK8s lib =
     (case InClusterConfig lib of
        Some e \<Rightarrow> Some (Inl (LogFatal ''Failed to get kubernetes cluster config''))
      | None \<Rightarrow>
          (case NewForConfig lib of
             Inl e \<Rightarrow> Some (Inl (LogFatal ''Failed to create kubernetes client''))
           | Inr clientset \<Rightarrow>
               (case Start_k8s clientset
                       (NewCachedK8sClient (Nodes clientset) (Pods clientset) (Services clientset)) of
                  None \<Rightarrow> None
                | Some client \<Rightarrow> Some (Inr client))))"

record ('h, 'sd) started =
  st_config :: config
  st_logging :: logging
  st_debug :: "(debug_handler, unit, unit) debugService option"
  st_k8s :: CachedK8sClient
  st_channel :: events_channel
  st_handler :: "'sd eventHandler"
  st_assembler :: "'h tcpAssembler"

definition start_debug_service ::
  "config \<Rightarrow> panic + (debug_handler, unit, unit) debugService option" where
  "start_debug_service cfg =
     (if Debug cfg
      then (case Start_debug () (\<lambda>_. ()) (newDebugService cfg) of
              Inl p \<Rightarrow> Inl p | Inr s \<Rightarrow> Inr (Some s))
      else Inr None)"

definition main_start :: "('h, 'sd) start_lib \<Rightarrow> environ \<Rightarrow> (panic + ('h, 'sd) started) option" where
  "main_start lib env =
     (let cfg = NewConfig env;
          logging = setupLogging (lib_ParseLevel lib) cfg
      in case Validate (VerifyAPIKey lib) cfg of
           Some e \<Rightarrow> Some (Inl (LogFatal ''Config validation failed''))
         | None \<Rightarrow>
             (case start_debug_service cfg of
                Inl p \<Rightarrow> Some (Inl p)
              | Inr debug \<Rightarrow>
                  (case setupK8s lib of
                     None \<Rightarrow> None
                   | Some (Inl p) \<Rightarrow> Some (Inl p)
                   | Some (Inr client) \<Rightarrow>
                       if ChannelBufferSize cfg < 0
                       then Some (Inl (RuntimePanic ''makechan: size out of range''))
                       else
                         (let channel = make_chan (channel_size cfg)
                          in case NewEventHandler (ConfigureOpenTelemetry lib) cfg client Version
                                    (attribute_order lib) of
                               Inl p \<Rightarrow> Some (Inl p)
                             | Inr handler \<Rightarrow>
                                 (case NewTcpAssembler (lib_pcap lib) cfg of
                                    Inl p \<Rightarrow> Some (Inl p)
                                  | Inr assembler \<Rightarrow> Some (Inr \<lparr>
                                      st_config = cfg, st_logging = logging, st_debug = debug,
                                      st_k8s = client, st_channel = channel,
                                      st_handler = handler, st_assembler = assembler\<rparr>))))))"

section \<open>The assembler's timers and its stop\<close>

text \<open>The ticker's period; \<open>NewTicker\<close> panics on one that is not positive.\<close>

definition flush_ticker :: "config \<Rightarrow> panic + duration" where
  "flush_ticker cfg =
     (let period = StreamFlushTimeout cfg sdiv 4
      in if period \<le> 0 then Inl (RuntimePanic ''non-positive interval for NewTicker'')
         else Inr period)"

text \<open>The flush options: pages older than \<open>T\<close> are flushed, connections idle since \<open>TC\<close> closed.\<close>

record flush_options =
  opt_T :: time
  opt_TC :: time

definition flush_options_at :: "config \<Rightarrow> time \<Rightarrow> time \<Rightarrow> flush_options" where
  "flush_options_at cfg now1 now2 =
     \<lparr>opt_T = now1 - StreamFlushTimeout cfg, opt_TC = now2 - StreamCloseTimeout cfg\<rparr>"

datatype stop_output = PoolDump | StatsEvent honeyEvent

definition Stop_outputs ::
  "logging \<Rightarrow> config \<Rightarrow> stats \<Rightarrow> time \<Rightarrow> time \<Rightarrow> nat \<Rightarrow> int \<Rightarrow> stop_output list" where
  "Stop_outputs log cfg s startedAt now queue goroutines =
     (if DebugLevel \<le> GlobalLevel log then [PoolDump] else []) @
     [StatsEvent (logAssemblerStats cfg s startedAt now queue goroutines)]"

section \<open>The goroutines\<close>

datatype assembler_mode = Capturing | FlushingAll | AssemblerDone
datatype main_pc = Serving | WaitingForServices | ClosingHandler | SignallingExit | Exited

text \<open>
  \<open>pending\<close> is what the callback in progress has still to send: the assembler's goroutine
  does nothing else until it is sent. \<open>produced\<close> and \<open>handled\<close> are histories.
\<close>

record ('fsm, 'opt) agent =
  reg :: "('fsm, 'opt) registry"
  asm_mode :: assembler_mode
  pending :: "Event list"
  channel :: events_channel
  handler_running :: bool
  ctx_done :: bool
  wg_count :: nat
  closed :: bool
  main_at :: main_pc
  produced :: "Event list"
  handled_events :: "Event list"

definition init_agent :: "config \<Rightarrow> ('fsm, 'opt) agent" where
  "init_agent cfg =
     \<lparr>reg = init_registry cfg, asm_mode = Capturing, pending = [],
      channel = make_chan (channel_size cfg), handler_running = True, ctx_done = False,
      wg_count = 2, closed = False, main_at = Serving, produced = [], handled_events = []\<rparr>"

text \<open>
  The assembler's goroutine (\<open>tcpAssembler.Start\<close> and \<open>Stop\<close>): while nothing is waiting to be
  sent it may run a callback of the reassembler, see the cancelled context, or, when everything
  is flushed, return. The selects choose any ready case, so both services may go on after the
  context is done.
\<close>

inductive assembler_step ::
  "('fsm, 'opt, 'tcp) gopacket \<Rightarrow> http_lib \<Rightarrow> ('fsm, 'opt) agent \<Rightarrow> ('fsm, 'opt) agent \<Rightarrow> bool"
  for g :: "('fsm, 'opt, 'tcp) gopacket" and lib :: http_lib where
  asm_capture: "asm_mode a \<noteq> AssemblerDone \<Longrightarrow> pending a = [] \<Longrightarrow>
     callback_step g lib (reg a) cb es r' \<Longrightarrow>
     assembler_step g lib a (a\<lparr>reg := r', pending := es, produced := produced a @ es\<rparr>)"
| asm_send: "pending a = e # es \<Longrightarrow> chan_send (channel a) e = Some ch \<Longrightarrow>
     assembler_step g lib a (a\<lparr>pending := es, channel := ch\<rparr>)"
| asm_cancelled: "asm_mode a = Capturing \<Longrightarrow> pending a = [] \<Longrightarrow> ctx_done a \<Longrightarrow>
     assembler_step g lib a (a\<lparr>asm_mode := FlushingAll\<rparr>)"
| asm_returns: "asm_mode a = FlushingAll \<Longrightarrow> pending a = [] \<Longrightarrow>
     assembler_step g lib a (a\<lparr>asm_mode := AssemblerDone, wg_count := wg_count a - 1\<rparr>)"

text \<open>The handler's goroutine (\<open>Start\<close> of either handler).\<close>

inductive handler_step :: "('fsm, 'opt) agent \<Rightarrow> ('fsm, 'opt) agent \<Rightarrow> bool" where
  hdl_receive: "handler_running a \<Longrightarrow> chan_receive (channel a) = Some (e, ch) \<Longrightarrow>
     handler_step a (a\<lparr>channel := ch, handled_events := handled_events a @ [e]\<rparr>)"
| hdl_returns: "handler_running a \<Longrightarrow> ctx_done a \<Longrightarrow>
     handler_step a (a\<lparr>handler_running := False, wg_count := wg_count a - 1\<rparr>)"

text \<open>The goroutine of the shutdown, and \<open>main\<close>, which waits for it.\<close>

inductive main_step :: "('fsm, 'opt) agent \<Rightarrow> ('fsm, 'opt) agent \<Rightarrow> bool" where
  main_signal: "main_at a = Serving \<Longrightarrow>
     main_step a (a\<lparr>ctx_done := True, main_at := WaitingForServices\<rparr>)"
| main_wait: "main_at a = WaitingForServices \<Longrightarrow> wg_count a = 0 \<Longrightarrow>
     main_step a (a\<lparr>main_at := ClosingHandler\<rparr>)"
| main_close: "main_at a = ClosingHandler \<Longrightarrow>
     main_step a (a\<lparr>closed := True, main_at := SignallingExit\<rparr>)"
| main_exit: "main_at a = SignallingExit \<Longrightarrow>
     main_step a (a\<lparr>main_at := Exited\<rparr>)"

text \<open>
  The agent: one of the goroutines takes a step, or, on a channel without a buffer, sender and
  receiver take one together.
\<close>

inductive agent_step ::
  "('fsm, 'opt, 'tcp) gopacket \<Rightarrow> http_lib \<Rightarrow> ('fsm, 'opt) agent \<Rightarrow> ('fsm, 'opt) agent \<Rightarrow> bool"
  for g :: "('fsm, 'opt, 'tcp) gopacket" and lib :: http_lib where
  of_assembler: "assembler_step g lib a a' \<Longrightarrow> agent_step g lib a a'"
| of_handler: "handler_step a a' \<Longrightarrow> agent_step g lib a a'"
| of_main: "main_step a a' \<Longrightarrow> agent_step g lib a a'"
| rendezvous: "pending a = e # es \<Longrightarrow> capacity (channel a) = 0 \<Longrightarrow> handler_running a \<Longrightarrow>
     agent_step g lib a (a\<lparr>pending := es, handled_events := handled_events a @ [e]\<rparr>)"

lemmas capture = of_assembler [OF asm_capture]
lemmas send = of_assembler [OF asm_send]
lemmas assembler_cancelled = of_assembler [OF asm_cancelled]
lemmas assembler_returns = of_assembler [OF asm_returns]
lemmas receive = of_handler [OF hdl_receive]
lemmas handler_returns = of_handler [OF hdl_returns]
lemmas os_signal = of_main [OF main_signal]
lemmas wg_wait = of_main [OF main_wait]
lemmas close_handler = of_main [OF main_close]
lemmas shutdown_now = of_main [OF main_exit]

inductive_cases assembler_stepE: "assembler_step g lib a a'"
inductive_cases handler_stepE: "handler_step a a'"
inductive_cases main_stepE: "main_step a a'"
inductive_cases agent_stepE: "agent_step g lib a a'"

lemmas agent_stepEs = agent_stepE assembler_stepE handler_stepE main_stepE

inductive agent_reachable ::
  "('fsm, 'opt, 'tcp) gopacket \<Rightarrow> http_lib \<Rightarrow> config \<Rightarrow> ('fsm, 'opt) agent \<Rightarrow> bool"
  for g :: "('fsm, 'opt, 'tcp) gopacket" and lib :: http_lib and cfg :: config where
  agent_init: "agent_reachable g lib cfg (init_agent cfg)"
| agent_run: "agent_reachable g lib cfg a \<Longrightarrow> agent_step g lib a a' \<Longrightarrow>
     agent_reachable g lib cfg a'"

section \<open>The events' way\<close>

lemmas chan_laws = events_chan.enq_contents events_chan.deq_contents events_chan.send_within

text \<open>Every event is handled, queued or about to be sent, in the order of production.\<close>

definition events_flow :: "config \<Rightarrow> ('fsm, 'opt) agent \<Rightarrow> bool" where
  "events_flow cfg a \<longleftrightarrow>
     produced a = handled_events a @ queued (channel a) @ pending a \<and>
     capacity (channel a) = channel_size cfg \<and>
     length (queued (channel a)) \<le> capacity (channel a)"

lemma events_flow_step [inv_intros]:
  assumes "agent_step g lib a a'" and "events_flow cfg a"
  shows "events_flow cfg a'"
  using assms(1)
proof (elim agent_stepEs)
  fix e es ch
  assume "pending a = e # es" "chan_send (channel a) e = Some ch"
    and a': "a' = a\<lparr>pending := es, channel := ch\<rparr>"
  with assms(2) chan_laws(1) [of "channel a" e ch] chan_laws(3) [of "channel a" e ch]
  show ?thesis by (simp add: events_flow_def)
next
  fix e ch
  assume "chan_receive (channel a) = Some (e, ch)"
    and a': "a' = a\<lparr>channel := ch, handled_events := handled_events a @ [e]\<rparr>"
  with assms(2) chan_laws(2) [of "channel a" e ch] show ?thesis by (simp add: events_flow_def)
qed (use assms(2) in \<open>auto simp: events_flow_def\<close>)

lemma agent_flow: "agent_reachable g lib cfg a \<Longrightarrow> events_flow cfg a"
proof (induction rule: agent_reachable.induct)
  case agent_init
  show ?case by (simp add: events_flow_def init_agent_def make_chan_def)
qed (blast intro: events_flow_step)

text \<open>The agent's registry is a run of the registry.\<close>

lemma agent_registry: "agent_reachable g lib cfg a \<Longrightarrow> \<exists>n. registry_run g lib cfg n (produced a) (reg a)"
proof (induction rule: agent_reachable.induct)
  case agent_init
  show ?case by (auto simp: init_agent_def intro: registry_run.intros)
next
  case (agent_run a a')
  from agent_run.hyps(2) agent_run.IH show ?case
    by (elim agent_stepEs) (auto intro: registry_run.intros)
qed

section \<open>The shutdown\<close>

definition services :: "('fsm, 'opt) agent \<Rightarrow> nat" where
  "services a = (if handler_running a then 1 else 0) + (if asm_mode a = AssemblerDone then 0 else 1)"

definition shutdown_order :: "('fsm, 'opt) agent \<Rightarrow> bool" where
  "shutdown_order a \<longleftrightarrow>
     wg_count a = services a \<and>
     (ctx_done a \<longleftrightarrow> main_at a \<noteq> Serving) \<and>
     (\<not> handler_running a \<longrightarrow> ctx_done a) \<and>
     (asm_mode a \<noteq> Capturing \<longrightarrow> ctx_done a) \<and>
     (asm_mode a = AssemblerDone \<longrightarrow> pending a = []) \<and>
     (main_at a \<in> {ClosingHandler, SignallingExit, Exited} \<longrightarrow> services a = 0) \<and>
     (closed a \<longleftrightarrow> main_at a \<in> {SignallingExit, Exited})"

lemma shutdown_order_step [inv_intros]:
  assumes "agent_step g lib a a'" and "shutdown_order a"
  shows "shutdown_order a'"
  using assms
  by (elim agent_stepEs) (auto simp: shutdown_order_def services_def split: if_splits)

lemma agent_shutdown: "agent_reachable g lib cfg a \<Longrightarrow> shutdown_order a"
proof (induction rule: agent_reachable.induct)
  case agent_init
  show ?case by (simp add: shutdown_order_def services_def init_agent_def)
qed (blast intro: shutdown_order_step)

text \<open>
  The state in which the shutdown hangs: the handler has returned and the assembler's flush
  has an event that does not fit.
\<close>

definition hangs :: "('fsm, 'opt) agent \<Rightarrow> bool" where
  "hangs a \<longleftrightarrow> \<not> handler_running a \<and> asm_mode a \<noteq> AssemblerDone \<and> pending a \<noteq> [] \<and>
     capacity (channel a) \<le> length (queued (channel a)) \<and> 0 < wg_count a \<and>
     main_at a = WaitingForServices"

lemma hangs_stuck: "hangs a \<Longrightarrow> \<not> agent_step g lib a a'"
  using events_chan.enq_blocks [of "channel a"]
  by (auto simp: hangs_def elim!: agent_stepEs)

section \<open>Facts about the start\<close>

lemma start_debug_service_ok: "\<exists>d. start_debug_service cfg = Inr d"
  using Start_debug_ok [of "()" "\<lambda>_ :: unit. ()" "newDebugService cfg"]
  by (auto simp: start_debug_service_def)

lemma NewEventHandler_ok:
  "(\<exists>h. NewEventHandler configure cfg client version keys = Inr h) \<longleftrightarrow>
     (chosen_handler cfg = Otel \<longrightarrow> (\<exists>sd. configure (otel_options cfg version) = Inr sd))"
  by (auto simp: NewEventHandler_def NewOtelHandler_def split: handler_kind.split sum.split prod.split)

text \<open>The clientset, when the cluster gives one, and whether the wait for its caches ends.\<close>

definition available_clientset :: "('h, 'sd) start_lib \<Rightarrow> clientset option" where
  "available_clientset lib =
     (if InClusterConfig lib = None
      then (case NewForConfig lib of Inl e \<Rightarrow> None | Inr cs \<Rightarrow> Some cs) else None)"

definition caches_sync :: "clientset \<Rightarrow> bool" where
  "caches_sync cs \<longleftrightarrow>
     WaitForCacheSync cs (factory_Start cs (NewCachedK8sClient (Nodes cs) (Pods cs) (Services cs))) \<noteq> None"

lemma setupK8s_ok:
  "(\<exists>c. setupK8s lib = Some (Inr c)) \<longleftrightarrow> (\<exists>cs. available_clientset lib = Some cs \<and> caches_sync cs)"
  "setupK8s lib = None \<longleftrightarrow> (\<exists>cs. available_clientset lib = Some cs \<and> \<not> caches_sync cs)"
  by (auto simp: setupK8s_def available_clientset_def caches_sync_def Start_k8s_def Let_def
      split: option.split sum.split)

lemma newPcapPacketSource_ok:
  "(\<exists>h. newPcapPacketSource pcap (NewConfig env) = Inr h) \<longleftrightarrow>
     (\<exists>h h'. OpenLive pcap ''any'' 262144 True = Inr h \<and> SetBPFFilter pcap h buildBpfFilter = Inr h')"
proof -
  have "buildBpfFilter \<noteq> ''''" using new_config_consistent [of env] by (simp add: NewConfig_def)
  then show ?thesis by (auto simp: newPcapPacketSource_def NewConfig_def split: sum.split)
qed

lemma Validate_ok:
  "Validate verify c = None \<longleftrightarrow>
     (if Endpoint c = ''https://api.honeycomb.io'' then APIKey c \<noteq> '''' \<and> verify (APIKey c) else True)"
  by (auto simp: Validate_def errors_join_def Let_def)

lemma NewTcpAssembler_ok:
  "PacketSource cfg = ''pcap'' \<Longrightarrow>
    (\<exists>a. NewTcpAssembler pcap cfg = Inr a) \<longleftrightarrow> (\<exists>h. newPcapPacketSource pcap cfg = Inr h)"
  by (auto simp: NewTcpAssembler_def split: sum.split)

lemma PacketSource_NewConfig: "PacketSource (NewConfig env) = ''pcap''"
  by (simp add: NewConfig_def)

lemma flush_ticker_default: "flush_ticker (NewConfig env) = Inr 2500000000"
  by (simp add: flush_ticker_def NewConfig_def second_def signed_divide_int_def)

text \<open>zerolog orders its levels by severity, so the dump is left out at the most verbose level only.\<close>

lemma Stop_dumps:
  "PoolDump \<in> set (Stop_outputs log cfg s t0 now q n) \<longleftrightarrow> GlobalLevel log \<noteq> TraceLevel"
  by (cases "GlobalLevel log") (auto simp: Stop_outputs_def less_eq_level_def)

section \<open>Properties\<close>

text \<open>C37: The agent starts exactly when the configuration is valid (for the default endpoint, a key
  that the remote check accepts), the cluster's configuration and client are available and its
  caches synchronise, the chosen handler is not \<open>otel\<close> or its exporter can be configured with
  the dataset, the endpoint and the key, and the capture can be opened on every interface with
  the HTTP filter. It hangs exactly when it waits for caches that never synchronise, and an
  invalid configuration is reported before anything else is tried.\<close>

theorem agent_starts_iff:
  "let cfg = NewConfig env;
       valid = (if Endpoint cfg = ''https://api.honeycomb.io''
                then APIKey cfg \<noteq> '''' \<and> VerifyAPIKey lib (APIKey cfg) else True);
       exporter = \<lparr>WithServiceName = Dataset cfg, WithServiceVersion = ''0.2.1-beta'',
         WithExporterEndpoint = Endpoint cfg, WithHeaders = [''x-honeycomb-team'' \<mapsto> APIKey cfg],
         WithResourceAttributes = [
           ''honeycomb.agent.name'' \<mapsto> ''Honeycomb Network Agent'',
           ''honeycomb.agent.version'' \<mapsto> ''0.2.1-beta'',
           ''meta.agent.node.ip'' \<mapsto> AgentNodeIP cfg, ''meta.agent.node.name'' \<mapsto> AgentNodeName cfg,
           ''meta.agent.serviceaccount.name'' \<mapsto> AgentServiceAccount cfg,
           ''meta.agent.pod.ip'' \<mapsto> AgentPodIP cfg, ''meta.agent.pod.name'' \<mapsto> AgentPodName cfg,
           ''net.component'' \<mapsto> ''proxy''],
         WithMetricsEnabled = False\<rparr>
   in (\<exists>st. main_start lib env = Some (Inr st)) =
        (valid \<and> (\<exists>cs. available_clientset lib = Some cs \<and> caches_sync cs) \<and>
         (if EventHandlerType cfg = ''otel''
          then \<exists>sd. ConfigureOpenTelemetry lib exporter = Inr sd else True) \<and>
         (\<exists>h h'. OpenLive (lib_pcap lib) ''any'' 262144 True = Inr h \<and>
            SetBPFFilter (lib_pcap lib) h buildBpfFilter = Inr h')) \<and>
      (main_start lib env = None) =
        (valid \<and> (\<exists>cs. available_clientset lib = Some cs \<and> \<not> caches_sync cs)) \<and>
      (if valid then True
       else main_start lib env = Some (Inl (LogFatal ''Config validation failed'')))"
proof (cases "Validate (VerifyAPIKey lib) (NewConfig env)")
  case None
  obtain d where d: "start_debug_service (NewConfig env) = Inr d"
    using start_debug_service_ok by blast
  have otel: "chosen_handler (NewConfig env) = Otel \<longleftrightarrow> EventHandlerType (NewConfig env) = ''otel''"
    by (simp add: chosen_handler_def)
  have size: "\<not> ChannelBufferSize (NewConfig env) < 0" by (simp add: NewConfig_def)
  have "(\<exists>st. main_start lib env = Some (Inr st)) \<longleftrightarrow>
      (\<exists>c. setupK8s lib = Some (Inr c) \<and> (\<exists>h. NewEventHandler (ConfigureOpenTelemetry lib) (NewConfig env) c
         Version (attribute_order lib) = Inr h)) \<and>
      (\<exists>a. NewTcpAssembler (lib_pcap lib) (NewConfig env) = Inr a)"
    using None d size by (auto simp: main_start_def Let_def split: sum.split option.split)
  then have "(\<exists>st. main_start lib env = Some (Inr st)) \<longleftrightarrow> (\<exists>c. setupK8s lib = Some (Inr c)) \<and>
      (EventHandlerType (NewConfig env) = ''otel'' \<longrightarrow>
         (\<exists>sd. ConfigureOpenTelemetry lib (otel_options (NewConfig env) Version) = Inr sd)) \<and>
      (\<exists>h. newPcapPacketSource (lib_pcap lib) (NewConfig env) = Inr h)"
    by (simp only: NewEventHandler_ok otel NewTcpAssembler_ok [OF PacketSource_NewConfig]) blast
  moreover have "main_start lib env = None \<longleftrightarrow> setupK8s lib = None"
    using None d size by (auto simp: main_start_def Let_def split: sum.split option.split)
  ultimately show ?thesis
    using None unfolding setupK8s_ok newPcapPacketSource_ok Validate_ok
    by (auto simp: otel_options_def otel_resource_def Version_def Let_def)
next
  case (Some e)
  then have "Validate (VerifyAPIKey lib) (NewConfig env) \<noteq> None" by simp
  then have "\<not> (if Endpoint (NewConfig env) = ''https://api.honeycomb.io''
      then APIKey (NewConfig env) \<noteq> '''' \<and> VerifyAPIKey lib (APIKey (NewConfig env)) else True)"
    unfolding Validate_ok .
  moreover have "main_start lib env = Some (Inl (LogFatal ''Config validation failed''))"
    using Some by (simp add: main_start_def Let_def)
  ultimately show ?thesis by (simp add: Let_def)
qed




end
