(* ===== verification/Assembler_Loop.thy ===== *)
theory Assembler_Loop
  imports Agent
begin

text \<open>
  \<open>tcpAssembler.Start\<close> and \<open>Stop\<close> as a function: the loop over the cases its select chooses,
  with everything each case does, the calls on gopacket's assembler and the telemetry. Which
  case is ready, the readings of the clock, and which callbacks gopacket makes during a call
  are the input. The loop refines the runs of the registry, so what is shown of those holds
  for it.
\<close>

section \<open>Callbacks as a function\<close>

text \<open>
  A callback panics, or it is one the reassembler's documentation does not allow (on a
  connection without a stream, or a second stream on one connection).
\<close>

datatype stop = Panicked panic | NotAllowed

fun do_callback ::
  "('fsm, 'opt, 'tcp) gopacket \<Rightarrow> http_lib \<Rightarrow> ('fsm, 'opt) registry \<Rightarrow> 'tcp callback
    \<Rightarrow> stop + Event list \<times> ('fsm, 'opt) registry" where
  "do_callback g lib r (CbNew c net tr) =
     (case streams r c of
        Some _ \<Rightarrow> Inl NotAllowed
      | None \<Rightarrow>
          (let (st, s) = factory_New g (reg_factory r) net tr (reg_stats r)
           in Inr ([], r\<lparr>reg_stats := s, streams := (streams r)(c \<mapsto> st)\<rparr>)))"
| "do_callback g lib r (CbAccept c tcp ci dir q start) =
     (case streams r c of
        None \<Rightarrow> Inl NotAllowed
      | Some st \<Rightarrow>
          (let (verdict, start', st', s) = Accept g st (reg_stats r) tcp ci dir q start
           in Inr ([], r\<lparr>reg_stats := s, streams := (streams r)(c \<mapsto> st')\<rparr>)))"
| "do_callback g lib r (CbReassembledSG c sg ac) =
     (case streams r c of
        None \<Rightarrow> Inl NotAllowed
      | Some st \<Rightarrow>
          (case ReassembledSG (parse lib) st sg ac of
             Inl p \<Rightarrow> Inl (Panicked p)
           | Inr (st', es) \<Rightarrow> Inr (es, r\<lparr>streams := (streams r)(c \<mapsto> st')\<rparr>)))"
| "do_callback g lib r (CbReassemblyComplete c) =
     (case streams r c of
        None \<Rightarrow> Inl NotAllowed
      | Some st \<Rightarrow>
          (let (remove, s) = ReassemblyComplete st (reg_stats r)
           in Inr ([], r\<lparr>reg_stats := s,
                streams := (if remove then (streams r)(c := None) else streams r)\<rparr>)))"

fun do_callbacks ::
  "('fsm, 'opt, 'tcp) gopacket \<Rightarrow> http_lib \<Rightarrow> ('fsm, 'opt) registry \<Rightarrow> 'tcp callback list
    \<Rightarrow> stop + Event list \<times> ('fsm, 'opt) registry" where
  "do_callbacks g lib r [] = Inr ([], r)"
| "do_callbacks g lib r (cb # cbs) =
     (case do_callback g lib r cb of
        Inl e \<Rightarrow> Inl e
      | Inr (es, r) \<Rightarrow>
          (case do_callbacks g lib r cbs of
             Inl e \<Rightarrow> Inl e
           | Inr (fs, r) \<Rightarrow> Inr (es @ fs, r)))"

text \<open>The function computes the step relation of the registry.\<close>

lemma do_callback_step: "callback_step g lib r cb es r' \<longleftrightarrow> do_callback g lib r cb = Inr (es, r')"
proof
  assume "callback_step g lib r cb es r'"
  then show "do_callback g lib r cb = Inr (es, r')" by cases simp_all
next
  assume "do_callback g lib r cb = Inr (es, r')"
  then show "callback_step g lib r cb es r'"
    by (cases cb) (auto split: option.splits prod.splits sum.splits intro: callback_step.intros)
qed

lemma do_callbacks_trace:
  "do_callbacks g lib r cbs = Inr (es, r') \<Longrightarrow> callbacks g lib r0 made out r \<Longrightarrow>
    callbacks g lib r0 (made @ cbs) (out @ es) r'"
proof (induction cbs arbitrary: r es made out)
  case (Cons cb cbs)
  from Cons.prems(1) obtain es1 r1 es2 where 1: "do_callback g lib r cb = Inr (es1, r1)"
    "do_callbacks g lib r1 cbs = Inr (es2, r')" "es = es1 @ es2"
    by (auto split: sum.splits prod.splits)
  have "callbacks g lib r0 (made @ [cb]) (out @ es1) r1"
    using one_more [OF Cons.prems(2)] 1(1) by (simp add: do_callback_step)
  from Cons.IH [OF 1(2) this] 1(3) show ?case by simp
qed simp

lemma do_callbacks_single:
  "do_callbacks g lib r [] = Inr ([], r)"
  "do_callback g lib r cb = Inr (es, r') \<Longrightarrow> do_callbacks g lib r [cb] = Inr (es, r')"
  by simp_all

lemma do_callbacks_append:
  "do_callbacks g lib r xs = Inr (es, r1) \<Longrightarrow> do_callbacks g lib r1 ys = Inr (fs, r2) \<Longrightarrow>
    do_callbacks g lib r (xs @ ys) = Inr (es @ fs, r2)"
  by (induction xs arbitrary: r es) (auto split: sum.splits prod.splits)

lemma trace_do_callbacks: "callbacks g lib r cbs out r' \<Longrightarrow> do_callbacks g lib r cbs = Inr (out, r')"
proof (induction rule: callbacks.induct)
  case (one_more cbs out r cb es r')
  then have "do_callbacks g lib r [cb] = Inr (es, r')" by (simp add: do_callback_step)
  with one_more.IH show ?case by (rule do_callbacks_append)
qed simp

section \<open>The loop\<close>

text \<open>
  The cases of the select. \<open>PacketIn\<close> is a packet from the source; when the source's channel is
  closed, receiving from it is always ready and yields a nil packet. Each case that calls
  gopacket's assembler comes with the callbacks made during the call. \<open>PcapTick\<close> is not a case
  but a round of the other goroutine, \<open>logPcapHandleStats\<close>, between two rounds of the loop.
\<close>

datatype ('pkt, 'tcp) choice =
  CtxDone "'tcp callback list" time nat int
| FlushTick time time "'tcp callback list"
| StatsTick time nat int
| PacketIn 'pkt "'tcp callback list"
| SourceClosed
| PcapTick "string + pcap_stats"

datatype 'tcp asm_output =
  AssembleWithContext flow 'tcp Context
| FlushWithOptions flush_options
| FlushAll
| Sent stop_output

record ('fsm, 'opt, 'tcp, 'd) loop_state =
  lp_reg :: "('fsm, 'opt) registry"
  lp_defragger :: 'd
  lp_made :: "'tcp callback list"
  lp_events :: "Event list"
  lp_outputs :: "'tcp asm_output list"
  lp_returned :: bool

definition emit ::
  "'tcp asm_output list \<Rightarrow> ('fsm, 'opt, 'tcp, 'd) loop_state \<Rightarrow> ('fsm, 'opt, 'tcp, 'd) loop_state" where
  "emit os st = st\<lparr>lp_outputs := lp_outputs st @ os\<rparr>"

definition make_callbacks ::
  "('fsm, 'opt, 'tcp) gopacket \<Rightarrow> http_lib \<Rightarrow> 'tcp callback list \<Rightarrow> ('fsm, 'opt, 'tcp, 'd) loop_state
    \<Rightarrow> stop + ('fsm, 'opt, 'tcp, 'd) loop_state" where
  "make_callbacks g lib cbs st =
     (case do_callbacks g lib (lp_reg st) cbs of
        Inl e \<Rightarrow> Inl e
      | Inr (es, r) \<Rightarrow>
          Inr (st\<lparr>lp_reg := r, lp_made := lp_made st @ cbs, lp_events := lp_events st @ es\<rparr>))"

text \<open>What the loop is given: gopacket, the reading of messages, the configuration, its start.\<close>

record ('fsm, 'opt, 'tcp, 'pkt, 'net, 'ip, 'd) loop_env =
  le_gopacket :: "('fsm, 'opt, 'tcp) gopacket"
  le_http :: http_lib
  le_packets :: "('pkt, 'net, 'ip, 'tcp, 'd) packet_lib"
  le_logging :: logging
  le_config :: config
  startedAt :: time

definition Stop ::
  "('fsm, 'opt, 'tcp, 'pkt, 'net, 'ip, 'd) loop_env \<Rightarrow> 'tcp callback list \<Rightarrow> time \<Rightarrow> nat \<Rightarrow> int
    \<Rightarrow> ('fsm, 'opt, 'tcp, 'd) loop_state \<Rightarrow> stop + ('fsm, 'opt, 'tcp, 'd) loop_state" where
  "Stop env cbs now queue goroutines st =
     (case make_callbacks (le_gopacket env) (le_http env) cbs (emit [FlushAll] st) of
        Inl e \<Rightarrow> Inl e
      | Inr st \<Rightarrow>
          Inr (emit (map Sent (Stop_outputs (le_logging env) (le_config env)
            (reg_stats (lp_reg st)) (startedAt env) now queue goroutines)) st))"

fun select_case ::
  "('fsm, 'opt, 'tcp, 'pkt, 'net, 'ip, 'd) loop_env \<Rightarrow> ('pkt, 'tcp) choice
    \<Rightarrow> ('fsm, 'opt, 'tcp, 'd) loop_state \<Rightarrow> stop + ('fsm, 'opt, 'tcp, 'd) loop_state" where
  "select_case env (CtxDone cbs now queue goroutines) st =
     (case Stop env cbs now queue goroutines st of
        Inl e \<Rightarrow> Inl e
      | Inr st \<Rightarrow> Inr (st\<lparr>lp_returned := True\<rparr>))"
| "select_case env (FlushTick now1 now2 cbs) st =
     make_callbacks (le_gopacket env) (le_http env) cbs
       (emit [FlushWithOptions (flush_options_at (le_config env) now1 now2)] st)"
| "select_case env (StatsTick now queue goroutines) st =
     Inr (emit [Sent (StatsEvent (logAssemblerStats (le_config env) (reg_stats (lp_reg st))
       (startedAt env) now queue goroutines))] st)"
| "select_case env (PacketIn packet cbs) st =
     (case handle_packet (le_packets env) (le_config env) (reg_stats (lp_reg st)) (lp_defragger st) packet of
        Inl e \<Rightarrow> Inl (Panicked e)
      | Inr (outcome, s, d) \<Rightarrow>
          (let st = st\<lparr>lp_reg := (lp_reg st)\<lparr>reg_stats := s\<rparr>, lp_defragger := d\<rparr>
           in case outcome of
                Assemble net tcp ctx \<Rightarrow>
                  make_callbacks (le_gopacket env) (le_http env) cbs
                    (emit [AssembleWithContext net tcp ctx] st)
              | _ \<Rightarrow> Inr st))"
| "select_case env SourceClosed st = Inl (Panicked NilDereference)"
| "select_case env (PcapTick figures) st =
     Inr (st\<lparr>lp_reg := (lp_reg st)\<lparr>reg_stats := pcap_stats_tick (reg_stats (lp_reg st)) figures\<rparr>\<rparr>)"

fun Start_loop ::
  "('fsm, 'opt, 'tcp, 'pkt, 'net, 'ip, 'd) loop_env \<Rightarrow> ('pkt, 'tcp) choice list
    \<Rightarrow> ('fsm, 'opt, 'tcp, 'd) loop_state \<Rightarrow> stop + ('fsm, 'opt, 'tcp, 'd) loop_state" where
  "Start_loop env [] st = Inr st"
| "Start_loop env (c # cs) st =
     (case select_case env c st of
        Inl e \<Rightarrow> Inl e
      | Inr st \<Rightarrow> if lp_returned st then Inr st else Start_loop env cs st)"

text \<open>The start: the tickers, of which the first may panic, the start time, the defragmenter.\<close>

definition Start_assembler ::
  "('fsm, 'opt, 'tcp, 'pkt, 'net, 'ip, 'd) loop_env \<Rightarrow> 'd \<Rightarrow> ('pkt, 'tcp) choice list
    \<Rightarrow> stop + ('fsm, 'opt, 'tcp, 'd) loop_state" where
  "Start_assembler env defragger cs =
     (case flush_ticker (le_config env) of
        Inl e \<Rightarrow> Inl (Panicked e)
      | Inr period \<Rightarrow>
          Start_loop env cs
            \<lparr>lp_reg = init_registry (le_config env), lp_defragger = defragger, lp_made = [],
             lp_events = [], lp_outputs = [], lp_returned = False\<rparr>)"


section \<open>The loop refines the runs of the registry\<close>

text \<open>
  The counters the packets and libpcap write are not read by any callback; without them, the
  registry of the loop is the registry after the callbacks made.
\<close>

definition own_counters :: "stats \<Rightarrow> stats" where
  "own_counters s = s\<lparr>ipdefrag := 0, totalsz := 0, source_received := 0, source_dropped := 0,
     source_if_dropped := 0\<rparr>"

definition streams_only :: "('fsm, 'opt) registry \<Rightarrow> ('fsm, 'opt) registry" where
  "streams_only r = r\<lparr>reg_stats := own_counters (reg_stats r)\<rparr>"

lemma streams_only_simps [simp]:
  "streams (streams_only r) = streams r" "reg_factory (streams_only r) = reg_factory r"
  "reg_stats (streams_only r) = own_counters (reg_stats r)"
  "streams_only (r\<lparr>reg_stats := s\<rparr>) = r\<lparr>reg_stats := own_counters s\<rparr>"
  "streams_only (r\<lparr>streams := m\<rparr>) = (streams_only r)\<lparr>streams := m\<rparr>"
  by (simp_all add: streams_only_def)

lemma streams_only_init: "streams_only (init_registry cfg) = init_registry cfg"
  by (simp add: streams_only_def own_counters_def init_registry_def zero_stats_def)

lemma factory_New_own:
  "factory_New g f net tr (own_counters s) =
     (let (st, s) = factory_New g f net tr s in (st, own_counters s))"
  by (simp add: factory_New_def NewTcpStream_def IncrementStreamCount_def
      IncrementActiveStreamCount_def own_counters_def Let_def)

lemma own_counters_frame:
  "own_counters (s\<lparr>rejectFsm := a\<rparr>) = (own_counters s)\<lparr>rejectFsm := a\<rparr>"
  "own_counters (s\<lparr>rejectConnFsm := a\<rparr>) = (own_counters s)\<lparr>rejectConnFsm := a\<rparr>"
  "own_counters (s\<lparr>rejectOpt := a\<rparr>) = (own_counters s)\<lparr>rejectOpt := a\<rparr>"
  "rejectFsm (own_counters s) = rejectFsm s" "rejectConnFsm (own_counters s) = rejectConnFsm s"
  "rejectOpt (own_counters s) = rejectOpt s"
  by (simp_all add: own_counters_def)

lemma Accept_own:
  "Accept g st (own_counters s) tcp ci dir q start =
     (let (v, start', st', s) = Accept g st s tcp ci dir q start in (v, start', st', own_counters s))"
proof -
  obtain fsm_ok fsm where "CheckState g (tcpstate st) tcp dir = (fsm_ok, fsm)" by fastforce
  moreover obtain opt_err opt start' where
    "OptionAccept g (optchecker st) tcp ci dir q start = (opt_err, opt, start')" by (metis prod_cases3)
  ultimately show ?thesis
    by (cases fsm_ok; cases "fsmerr st"; cases "Ignorefsmerr (stream_config st)"; cases opt_err)
      (simp_all add: Accept_def Let_def own_counters_frame)
qed

lemma complete_own:
  "ReassemblyComplete st (own_counters s) =
     (let (remove, s) = ReassemblyComplete st s in (remove, own_counters s))"
  by (simp add: ReassemblyComplete_def DecrementActiveStreamCount_def own_counters_def)

lemma do_callback_own:
  "do_callback g lib r cb = Inr (es, r') \<Longrightarrow>
    do_callback g lib (streams_only r) cb = Inr (es, streams_only r')"
  by (cases cb) (auto simp: factory_New_own Accept_own complete_own streams_only_def Let_def
      split: option.splits prod.splits sum.splits)

lemma do_callbacks_own:
  "do_callbacks g lib r cbs = Inr (es, r') \<Longrightarrow>
    do_callbacks g lib (streams_only r) cbs = Inr (es, streams_only r')"
proof (induction cbs arbitrary: r es)
  case (Cons cb cbs)
  then obtain es1 r1 es2 where 1: "do_callback g lib r cb = Inr (es1, r1)"
    "do_callbacks g lib r1 cbs = Inr (es2, r')" "es = es1 @ es2"
    by (auto split: sum.splits prod.splits)
  with do_callback_own [OF 1(1)] Cons.IH [OF 1(2)] show ?case by simp
qed simp

lemma defrag_counters: "defrag plib s d pkt = Inr (r, s', d') \<Longrightarrow> own_counters s' = own_counters s"
  by (auto simp: defrag_def own_counters_def split: option.splits prod.splits sum.splits if_splits)

lemma process_counters:
  "process_tcp plib cfg s pkt = Inr (outcome, s') \<Longrightarrow> own_counters s' = own_counters s"
  by (auto simp: process_tcp_def own_counters_def Let_def split: option.splits sum.splits if_splits)

lemma packet_counters:
  "handle_packet plib cfg s d pkt = Inr (outcome, s', d') \<Longrightarrow> own_counters s' = own_counters s"
  unfolding handle_packet_def
  by (auto split: if_splits sum.splits prod.splits dest!: defrag_counters process_counters)

lemma pcap_counters: "own_counters (pcap_stats_tick s figures) = own_counters s"
  by (cases figures) (simp_all add: own_counters_def)

definition loop_trace ::
  "('fsm, 'opt, 'tcp, 'pkt, 'net, 'ip, 'd) loop_env \<Rightarrow> ('fsm, 'opt, 'tcp, 'd) loop_state \<Rightarrow> bool" where
  "loop_trace env st \<longleftrightarrow>
     registry_trace (le_gopacket env) (le_http env) (le_config env) (lp_made st) (lp_events st)
       (streams_only (lp_reg st))"

lemma emit_trace [simp]: "loop_trace env (emit os st) = loop_trace env st"
  by (simp add: loop_trace_def emit_def)

lemma make_callbacks_trace:
  "make_callbacks (le_gopacket env) (le_http env) cbs st = Inr st' \<Longrightarrow> loop_trace env st \<Longrightarrow>
    loop_trace env st'"
  by (auto simp: make_callbacks_def loop_trace_def split: sum.splits prod.splits
      intro!: do_callbacks_trace dest: do_callbacks_own)

lemma packet_trace:
  "handle_packet plib cfg (reg_stats (lp_reg st)) d pkt = Inr (outcome, s, d') \<Longrightarrow>
    loop_trace env (st\<lparr>lp_reg := (lp_reg st)\<lparr>reg_stats := s\<rparr>, lp_defragger := d'\<rparr>) = loop_trace env st"
  using packet_counters [of plib cfg "reg_stats (lp_reg st)" d pkt outcome s d']
  by (simp add: loop_trace_def) (simp add: streams_only_def)

lemma case_trace:
  "select_case env c st = Inr st' \<Longrightarrow> loop_trace env st \<Longrightarrow> loop_trace env st'"
proof (cases c)
  case (CtxDone cbs now queue goroutines)
  assume "select_case env c st = Inr st'" "loop_trace env st"
  with CtxDone show ?thesis
    by (auto simp: Stop_def loop_trace_def emit_def split: sum.splits
        dest: make_callbacks_trace [unfolded loop_trace_def])
next
  case (PacketIn pkt cbs)
  assume "select_case env c st = Inr st'" "loop_trace env st"
  with PacketIn packet_trace show ?thesis
    by (fastforce simp: Let_def split: sum.splits prod.splits packet_outcome.splits
        dest: make_callbacks_trace)
next
  case (PcapTick figures)
  assume "select_case env c st = Inr st'" "loop_trace env st"
  with PcapTick show ?thesis by (auto simp: loop_trace_def pcap_counters streams_only_def)
qed (auto dest: make_callbacks_trace)

lemma start_loop_trace: "Start_loop env cs st = Inr st' \<Longrightarrow> loop_trace env st \<Longrightarrow> loop_trace env st'"
proof (induction cs arbitrary: st)
  case (Cons c cs)
  then obtain st1 where "select_case env c st = Inr st1" by (auto split: sum.splits)
  moreover from this Cons.prems have "loop_trace env st1" by (blast intro: case_trace)
  ultimately show ?case using Cons by (auto split: if_splits)
qed simp

section \<open>Which packets reach gopacket's assembler\<close>

text \<open>
  A packet is dropped if it has no network layer, if it is a fragment that does not complete a
  datagram or that the defragmenter rejects, or if there is no TCP segment in it that can be
  checked; a datagram completed by a fragment is looked at once it is decoded again.
\<close>

definition no_segment :: "('pkt, 'net, 'ip, 'tcp, 'd) packet_lib \<Rightarrow> config \<Rightarrow> 'pkt \<Rightarrow> bool" where
  "no_segment plib cfg pkt \<longleftrightarrow>
     (case TCPLayer plib pkt of
        None \<Rightarrow> True
      | Some tcp \<Rightarrow> Checksum cfg \<and>
          (\<exists>e. SetNetworkLayerForChecksum plib tcp (NetworkLayer plib pkt) = Inl e))"

definition dropped_packet :: "('pkt, 'net, 'ip, 'tcp, 'd) packet_lib \<Rightarrow> config \<Rightarrow> 'd \<Rightarrow> 'pkt \<Rightarrow> bool" where
  "dropped_packet plib cfg d pkt \<longleftrightarrow>
     NetworkLayer plib pkt = None \<or>
     (case IPv4Layer plib pkt of
        None \<Rightarrow> no_segment plib cfg pkt
      | Some ip \<Rightarrow>
          (case fst (DefragIPv4 plib d ip) of
             Inl e \<Rightarrow> True
           | Inr None \<Rightarrow> True
           | Inr (Some whole) \<Rightarrow>
               if IPv4Length plib whole = IPv4Length plib ip then no_segment plib cfg pkt
               else (case DecodeNext plib whole pkt (IsPacketBuilder plib pkt) of
                       Inl e \<Rightarrow> False
                     | Inr pkt' \<Rightarrow> no_segment plib cfg pkt')))"

definition defragger_after :: "('pkt, 'net, 'ip, 'tcp, 'd) packet_lib \<Rightarrow> 'd \<Rightarrow> 'pkt \<Rightarrow> 'd" where
  "defragger_after plib d pkt =
     (if NetworkLayer plib pkt = None then d
      else (case IPv4Layer plib pkt of None \<Rightarrow> d | Some ip \<Rightarrow> snd (DefragIPv4 plib d ip)))"

text \<open>
  The callbacks gopacket gets to make over the cases chosen, up to the one that returns: those
  of each flush, and those of each packet that is not dropped.
\<close>

fun calls_made ::
  "('pkt, 'net, 'ip, 'tcp, 'd) packet_lib \<Rightarrow> config \<Rightarrow> 'd \<Rightarrow> ('pkt, 'tcp) choice list
    \<Rightarrow> 'tcp callback list" where
  "calls_made plib cfg d [] = []"
| "calls_made plib cfg d (CtxDone cbs now queue goroutines # cs) = cbs"
| "calls_made plib cfg d (FlushTick now1 now2 cbs # cs) = cbs @ calls_made plib cfg d cs"
| "calls_made plib cfg d (PacketIn pkt cbs # cs) =
     (if dropped_packet plib cfg d pkt then [] else cbs) @
     calls_made plib cfg (defragger_after plib d pkt) cs"
| "calls_made plib cfg d (SourceClosed # cs) = []"
| "calls_made plib cfg d (_ # cs) = calls_made plib cfg d cs"

lemma process_segment:
  "process_tcp plib cfg s pkt = Inr (outcome, s') \<Longrightarrow>
    (\<exists>net tcp ctx. outcome = Assemble net tcp ctx) \<longleftrightarrow> \<not> no_segment plib cfg pkt"
  by (auto simp: process_tcp_def no_segment_def Let_def split: option.splits sum.splits if_splits)

lemma handled_packet:
  assumes "handle_packet plib cfg s d pkt = Inr (outcome, s', d')"
  shows "d' = defragger_after plib d pkt"
    and "(\<exists>net tcp ctx. outcome = Assemble net tcp ctx) \<longleftrightarrow> \<not> dropped_packet plib cfg d pkt"
  using assms
  by (auto simp: handle_packet_def defrag_def defragger_after_def dropped_packet_def
      split: if_splits option.splits sum.splits prod.splits dest: process_segment)

lemma make_callbacks_made:
  "make_callbacks g lib cbs st = Inr st' \<Longrightarrow>
    lp_made st' = lp_made st @ cbs \<and> lp_defragger st' = lp_defragger st \<and> lp_returned st' = lp_returned st"
  by (auto simp: make_callbacks_def split: sum.splits prod.splits)

lemma emit_made [simp]:
  "lp_made (emit os st) = lp_made st" "lp_defragger (emit os st) = lp_defragger st"
  "lp_returned (emit os st) = lp_returned st"
  by (simp_all add: emit_def)

lemma case_made:
  assumes "select_case env c st = Inr st'" and "\<not> lp_returned st"
  shows "lp_made st' @ (if lp_returned st' then [] else
      calls_made (le_packets env) (le_config env) (lp_defragger st') cs) =
    lp_made st @ calls_made (le_packets env) (le_config env) (lp_defragger st) (c # cs)"
proof (cases c)
  case (CtxDone cbs now queue goroutines)
  with assms show ?thesis by (auto simp: Stop_def split: sum.splits dest: make_callbacks_made)
next
  case (PacketIn pkt cbs)
  with assms(1) obtain outcome s d where h: "handle_packet (le_packets env) (le_config env)
      (reg_stats (lp_reg st)) (lp_defragger st) pkt = Inr (outcome, s, d)"
    by (auto split: sum.splits)
  note h_facts = handled_packet [OF h]
  show ?thesis
  proof (cases outcome)
    case (Assemble net tcp ctx)
    with assms PacketIn h have "make_callbacks (le_gopacket env) (le_http env) cbs
        (emit [AssembleWithContext net tcp ctx] (st\<lparr>lp_reg := (lp_reg st)\<lparr>reg_stats := s\<rparr>, lp_defragger := d\<rparr>)) = Inr st'"
      by simp
    from make_callbacks_made [OF this] h_facts Assemble PacketIn assms(2) show ?thesis by simp
  qed (use assms PacketIn h h_facts in auto)
qed (use assms in \<open>auto dest: make_callbacks_made\<close>)

lemma loop_made:
  "Start_loop env cs st = Inr st' \<Longrightarrow> \<not> lp_returned st \<Longrightarrow>
    lp_made st' = lp_made st @ calls_made (le_packets env) (le_config env) (lp_defragger st) cs"
proof (induction cs arbitrary: st)
  case (Cons c cs)
  then obtain st1 where st1: "select_case env c st = Inr st1" by (auto split: sum.splits)
  note made = case_made [OF st1 Cons.prems(2), of cs]
  show ?case
  proof (cases "lp_returned st1")
    case True
    with Cons.prems(1) st1 made show ?thesis by simp
  next
    case False
    with Cons.prems(1) st1 have "Start_loop env cs st1 = Inr st'" by simp
    from Cons.IH [OF this False] made False show ?thesis by simp
  qed
qed simp

section \<open>What the loop hands out\<close>

lemma callback_totals:
  "do_callback g lib r cb = Inr (es, r') \<Longrightarrow> totalsz (reg_stats r') = totalsz (reg_stats r)"
proof (cases cb)
  case (CbAccept c tcp ci dir q start)
  assume "do_callback g lib r cb = Inr (es, r')"
  with CbAccept obtain st v start' st' s where a: "streams r c = Some st" "Accept g st (reg_stats r) tcp ci dir q start =
      (v, start', st', s)" "reg_stats r' = s"
    by (auto split: option.splits prod.splits)
  then show ?thesis
    using accepted_stats_frame(4) [of g st "reg_stats r" tcp ci dir q start]
    by (simp add: accepted_stats_def)
qed (auto simp: factory_New_def NewTcpStream_def IncrementStreamCount_def ReassemblyComplete_def
    IncrementActiveStreamCount_def DecrementActiveStreamCount_def Let_def
    split: option.splits prod.splits sum.splits)

lemma callbacks_totals:
  "do_callbacks g lib r cbs = Inr (es, r') \<Longrightarrow> totalsz (reg_stats r') = totalsz (reg_stats r)"
  by (induction cbs arbitrary: r es)
    (auto split: sum.splits prod.splits dest: callback_totals)

definition assembled_bytes ::
  "('pkt, 'net, 'ip, 'tcp, 'd) packet_lib \<Rightarrow> 'tcp asm_output list \<Rightarrow> 64 word" where
  "assembled_bytes plib os =
     sum_list (map (\<lambda>out. case out of
       AssembleWithContext net tcp ctx \<Rightarrow> of_nat (length (tcp_Payload plib tcp)) | _ \<Rightarrow> 0) os)"

fun is_stats :: "'tcp asm_output \<Rightarrow> bool" where
  "is_stats (Sent (StatsEvent e)) = True"
| "is_stats _ = False"

text \<open>
  The counter of bytes is what was assembled; everything is flushed once, at the return, and
  only statistics follow.
\<close>

definition loop_outputs ::
  "('fsm, 'opt, 'tcp, 'pkt, 'net, 'ip, 'd) loop_env \<Rightarrow> ('fsm, 'opt, 'tcp, 'd) loop_state \<Rightarrow> bool" where
  "loop_outputs env st \<longleftrightarrow>
     totalsz (reg_stats (lp_reg st)) = assembled_bytes (le_packets env) (lp_outputs st) \<and>
     (if lp_returned st
      then \<exists>before last. lp_outputs st = before @ FlushAll # map Sent last \<and> FlushAll \<notin> set before \<and>
             last \<noteq> []
      else FlushAll \<notin> set (lp_outputs st))"

lemma make_callbacks_frame:
  assumes "make_callbacks g lib cbs st = Inr st'"
  shows "lp_outputs st' = lp_outputs st" "lp_returned st' = lp_returned st"
    "totalsz (reg_stats (lp_reg st')) = totalsz (reg_stats (lp_reg st))"
  using assms by (auto simp: make_callbacks_def callbacks_totals split: sum.splits prod.splits)

lemma emit_fields [simp]:
  "lp_outputs (emit os st) = lp_outputs st @ os" "lp_returned (emit os st) = lp_returned st"
  "lp_reg (emit os st) = lp_reg st"
  by (simp_all add: emit_def)

lemma assembled_bytes_simps [simp]:
  "assembled_bytes plib [] = 0"
  "assembled_bytes plib (os @ os') = assembled_bytes plib os + assembled_bytes plib os'"
  "assembled_bytes plib [AssembleWithContext net tcp ctx] = of_nat (length (tcp_Payload plib tcp))"
  "assembled_bytes plib [FlushWithOptions f] = 0" "assembled_bytes plib [FlushAll] = 0"
  "assembled_bytes plib [Sent x] = 0" "assembled_bytes plib (map Sent xs) = 0"
  by (simp_all add: assembled_bytes_def comp_def)

lemma Stop_outputs_nonempty: "Stop_outputs log cfg s t now q n \<noteq> []"
  by (simp add: Stop_outputs_def)

lemma case_outputs:
  assumes "select_case env c st = Inr st'" and "loop_outputs env st" and "\<not> lp_returned st"
  shows "loop_outputs env st' \<and> (lp_returned st' \<longleftrightarrow> (\<exists>cbs now q n. c = CtxDone cbs now q n))"
proof (cases c)
  case (CtxDone cbs now queue goroutines)
  with assms(1) obtain st1 where st1: "make_callbacks (le_gopacket env) (le_http env) cbs
      (emit [FlushAll] st) = Inr st1"
    "st' = (emit (map Sent (Stop_outputs (le_logging env) (le_config env) (reg_stats (lp_reg st1))
       (startedAt env) now queue goroutines)) st1)\<lparr>lp_returned := True\<rparr>"
    by (auto simp: Stop_def split: sum.splits)
  note fr = make_callbacks_frame [OF st1(1)]
  have "lp_outputs st' = lp_outputs st @ FlushAll # map Sent (Stop_outputs (le_logging env)
      (le_config env) (reg_stats (lp_reg st1)) (startedAt env) now queue goroutines)"
    using fr by (simp add: st1(2))
  moreover have "totalsz (reg_stats (lp_reg st')) = totalsz (reg_stats (lp_reg st))"
    using fr by (simp add: st1(2))
  moreover have "assembled_bytes (le_packets env) (FlushAll # map Sent xs) = 0" for xs
    using assembled_bytes_simps(2) [of _ "[FlushAll]" "map Sent xs"] by simp
  ultimately show ?thesis
    using CtxDone assms(2,3) Stop_outputs_nonempty by (fastforce simp: loop_outputs_def st1(2))
next
  case (FlushTick now1 now2 cbs)
  with assms make_callbacks_frame show ?thesis by (fastforce simp: loop_outputs_def)
next
  case (PacketIn pkt cbs)
  with assms(1) obtain outcome s d where h: "handle_packet (le_packets env) (le_config env)
      (reg_stats (lp_reg st)) (lp_defragger st) pkt = Inr (outcome, s, d)"
    by (auto split: sum.splits)
  note stats = handle_packet_stats [OF h]
  let ?st = "st\<lparr>lp_reg := (lp_reg st)\<lparr>reg_stats := s\<rparr>, lp_defragger := d\<rparr>"
  show ?thesis
  proof (cases outcome)
    case (Assemble net tcp ctx)
    with assms(1) PacketIn h have "make_callbacks (le_gopacket env) (le_http env) cbs
        (emit [AssembleWithContext net tcp ctx] ?st) = Inr st'" by simp
    from make_callbacks_frame [OF this] stats Assemble PacketIn assms(2,3) show ?thesis
      by (simp add: loop_outputs_def payload_size_def)
  qed (use assms PacketIn h stats in \<open>auto simp: loop_outputs_def payload_size_def\<close>)
next
  case (PcapTick figures)
  with assms show ?thesis by (cases figures) (auto simp: loop_outputs_def)
qed (use assms in \<open>auto simp: loop_outputs_def\<close>)

lemma loop_stops:
  "Start_loop env cs st = Inr st' \<Longrightarrow> loop_outputs env st \<Longrightarrow> \<not> lp_returned st \<Longrightarrow>
    loop_outputs env st' \<and>
    (lp_returned st' \<longleftrightarrow> (\<exists>c \<in> set cs. \<exists>cbs now q n. c = CtxDone cbs now q n))"
proof (induction cs arbitrary: st)
  case (Cons c cs)
  then obtain st1 where st1: "select_case env c st = Inr st1" by (auto split: sum.splits)
  note step = case_outputs [OF st1 Cons.prems(2,3)]
  show ?case
  proof (cases "lp_returned st1")
    case True
    with Cons.prems(1) st1 have "st' = st1" by simp
    with True step show ?thesis by auto
  next
    case False
    with Cons.prems(1) st1 have "Start_loop env cs st1 = Inr st'" by simp
    from Cons.IH [OF this] step False show ?thesis by auto
  qed
qed simp

text \<open>Nothing is read from the select behind the case that returns.\<close>

lemma loop_ignores_rest:
  assumes "Start_loop env cs st = Inr st'" and "lp_returned st'" and "\<not> lp_returned st"
  shows "Start_loop env (cs @ ds) st = Inr st'"
  using assms by (induction cs arbitrary: st) (auto split: sum.splits if_splits)

section \<open>Panics\<close>

text \<open>
  A packet on which the loop panics: it completes a datagram of another length, and decoding
  that into the packet panics, or leaves a TCP segment without a network layer, which the code
  asks for its flow. Nothing is assumed of gopacket here; that it is otherwise safe is shown.
\<close>

definition fatal_packet :: "('pkt, 'net, 'ip, 'tcp, 'd) packet_lib \<Rightarrow> config \<Rightarrow> 'd \<Rightarrow> 'pkt \<Rightarrow> bool" where
  "fatal_packet plib cfg d pkt \<longleftrightarrow>
     NetworkLayer plib pkt \<noteq> None \<and>
     (\<exists>ip whole d'. IPv4Layer plib pkt = Some ip \<and> DefragIPv4 plib d ip = (Inr (Some whole), d') \<and>
        IPv4Length plib whole \<noteq> IPv4Length plib ip \<and>
        (case DecodeNext plib whole pkt (IsPacketBuilder plib pkt) of
           Inl e \<Rightarrow> True
         | Inr pkt' \<Rightarrow> NetworkLayer plib pkt' = None \<and> \<not> no_segment plib cfg pkt'))"

fun own_context :: "'tcp callback \<Rightarrow> bool" where
  "own_context (CbReassembledSG c sg ac) = (ac \<noteq> ForeignContext)"
| "own_context _ = True"

text \<open>gopacket passes to its callbacks the context it was given with the segment.\<close>

fun own_contexts :: "('pkt, 'tcp) choice \<Rightarrow> bool" where
  "own_contexts (CtxDone cbs now q n) = list_all own_context cbs"
| "own_contexts (FlushTick now1 now2 cbs) = list_all own_context cbs"
| "own_contexts (PacketIn pkt cbs) = list_all own_context cbs"
| "own_contexts _ = True"

fun fatal_choice ::
  "('fsm, 'opt, 'tcp, 'pkt, 'net, 'ip, 'd) loop_env \<Rightarrow> 'd \<Rightarrow> ('pkt, 'tcp) choice \<Rightarrow> bool" where
  "fatal_choice env d SourceClosed = True"
| "fatal_choice env d (PacketIn pkt cbs) = fatal_packet (le_packets env) (le_config env) d pkt"
| "fatal_choice env d _ = False"

lemma safe_callback: "own_context cb \<Longrightarrow> do_callback g lib r cb \<noteq> Inl (Panicked p)"
proof (cases cb)
  case (CbReassembledSG c sg ac)
  moreover assume "own_context cb"
  ultimately show ?thesis
    by (cases ac) (auto simp: ReassembledSG_own Let_def split: option.splits)
qed (auto split: option.splits prod.splits)

lemma safe_callbacks: "list_all own_context cbs \<Longrightarrow> do_callbacks g lib r cbs \<noteq> Inl (Panicked p)"
  by (induction cbs arbitrary: r) (auto simp: safe_callback split: sum.splits prod.splits)

lemma safe_make: "list_all own_context cbs \<Longrightarrow> make_callbacks g lib cbs st \<noteq> Inl (Panicked p)"
  using safe_callbacks [of cbs g lib "lp_reg st" p] by (auto simp: make_callbacks_def split: sum.splits)

lemma process_panics:
  "(\<exists>e. process_tcp plib cfg s pkt = Inl e) \<longleftrightarrow> NetworkLayer plib pkt = None \<and> \<not> no_segment plib cfg pkt"
  by (auto simp: process_tcp_def no_segment_def Let_def split: option.splits sum.splits if_splits)

lemma packet_panics:
  "(\<exists>e. handle_packet plib cfg s d pkt = Inl e) \<longleftrightarrow> fatal_packet plib cfg d pkt"
proof (cases "NetworkLayer plib pkt")
  case None
  then show ?thesis by (simp add: handle_packet_def fatal_packet_def)
next
  case (Some net)
  have panics: "(\<exists>e. handle_packet plib cfg s d pkt = Inl e) \<longleftrightarrow>
      (case defrag plib s d pkt of
         Inl e \<Rightarrow> True
       | Inr (Inl reason, s, d) \<Rightarrow> False
       | Inr (Inr pkt', s, d) \<Rightarrow> NetworkLayer plib pkt' = None \<and> \<not> no_segment plib cfg pkt')"
  proof (cases "defrag plib s d pkt")
    case (Inr r)
    obtain q s' d' where r: "r = (q, s', d')" by (cases r)
    show ?thesis
    proof (cases q)
      case (Inr pkt')
      with \<open>defrag plib s d pkt = Inr r\<close> r Some show ?thesis
        using process_panics [of plib cfg s' pkt']
        by (auto simp: handle_packet_def split: sum.splits prod.splits)
    qed (use Some \<open>defrag plib s d pkt = Inr r\<close> r in \<open>simp add: handle_packet_def\<close>)
  qed (use Some in \<open>simp add: handle_packet_def\<close>)
  show ?thesis
  proof (cases "IPv4Layer plib pkt")
    case (Some ip)
    obtain r d' where r: "DefragIPv4 plib d ip = (r, d')" by (cases "DefragIPv4 plib d ip")
    consider e where "r = Inl e" | "r = Inr None" | whole where "r = Inr (Some whole)"
      by (cases r) auto
    then show ?thesis
    proof cases
      case (3 whole)
      with Some r \<open>NetworkLayer plib pkt = Some net\<close> show ?thesis
        by (cases "DecodeNext plib whole pkt (IsPacketBuilder plib pkt)")
          (simp_all add: panics defrag_def fatal_packet_def)
    qed (use Some r in \<open>simp_all add: panics defrag_def fatal_packet_def\<close>)
  qed (use Some in \<open>simp add: panics defrag_def fatal_packet_def\<close>)
qed

lemma choice_panics:
  assumes "own_contexts c"
  shows "(\<exists>p. select_case env c st = Inl (Panicked p)) \<longleftrightarrow> fatal_choice env (lp_defragger st) c"
proof (cases c)
  case (CtxDone cbs now q n)
  with assms show ?thesis by (auto simp: Stop_def safe_make split: sum.splits)
next
  case (PacketIn pkt cbs)
  have "(\<exists>p. select_case env c st = Inl (Panicked p)) \<longleftrightarrow>
      (\<exists>e. handle_packet (le_packets env) (le_config env) (reg_stats (lp_reg st)) (lp_defragger st) pkt = Inl e)"
    using PacketIn assms by (auto simp: safe_make Let_def split: sum.splits prod.splits packet_outcome.splits)
  with PacketIn packet_panics show ?thesis by simp
qed (use assms in \<open>simp_all add: safe_make\<close>)

text \<open>The first case that panics, and the state it is chosen in.\<close>

lemma loop_panics:
  assumes "\<forall>c \<in> set cs. own_contexts c" and "\<not> lp_returned st"
  shows "(\<exists>p. Start_loop env cs st = Inl (Panicked p)) \<longleftrightarrow>
    (\<exists>before c after st'. cs = before @ c # after \<and> Start_loop env before st = Inr st' \<and>
       \<not> lp_returned st' \<and> fatal_choice env (lp_defragger st') c)"
  using assms
proof (induction cs arbitrary: st)
  case (Cons c cs)
  note first = choice_panics [of c env st]
  show ?case (is "?panics \<longleftrightarrow> ?cause (c # cs) st")
  proof (cases "select_case env c st")
    case (Inl e)
    have "?cause (c # cs) st \<longleftrightarrow> fatal_choice env (lp_defragger st) c"
    proof
      assume "?cause (c # cs) st"
      then obtain before c' after st' where b: "c # cs = before @ c' # after"
        "Start_loop env before st = Inr st'" "fatal_choice env (lp_defragger st') c'" by blast
      with Inl have "before = []" by (cases before) auto
      with b show "fatal_choice env (lp_defragger st) c" by simp
    next
      assume "fatal_choice env (lp_defragger st) c"
      with Cons.prems(2) show "?cause (c # cs) st" by (intro exI [of _ "[]"] exI [of _ c] exI [of _ cs]) simp
    qed
    with Inl first Cons.prems(1) show ?thesis by simp
  next
    case (Inr st1)
    with first Cons.prems(1) have not_first: "\<not> fatal_choice env (lp_defragger st) c" by simp
    show ?thesis
    proof (cases "lp_returned st1")
      case True
      have "\<not> ?cause (c # cs) st"
      proof
        assume "?cause (c # cs) st"
        then obtain before c' after st' where b: "c # cs = before @ c' # after"
          "Start_loop env before st = Inr st'" "\<not> lp_returned st'" "fatal_choice env (lp_defragger st') c'" by blast
        with Inr True not_first show False by (cases before) auto
      qed
      with Inr True show ?thesis by simp
    next
      case False
      have "?cause (c # cs) st \<longleftrightarrow> ?cause cs st1"
      proof
        assume "?cause (c # cs) st"
        then obtain before c' after st' where b: "c # cs = before @ c' # after"
          "Start_loop env before st = Inr st'" "\<not> lp_returned st'" "fatal_choice env (lp_defragger st') c'" by blast
        with Inr False not_first show "?cause cs st1" by (cases before) auto
      next
        assume "?cause cs st1"
        then obtain before c' after st' where b: "cs = before @ c' # after"
          "Start_loop env before st1 = Inr st'" "\<not> lp_returned st'" "fatal_choice env (lp_defragger st') c'" by blast
        with Inr False show "?cause (c # cs) st"
          by (intro exI [of _ "c # before"] exI [of _ c'] exI [of _ after] exI [of _ st']) simp
      qed
      with Cons.IH [OF _ False] Cons.prems(1) Inr False show ?thesis by simp
    qed
  qed
qed simp

lemma flush_ticker_positive:
  "4 \<le> StreamFlushTimeout cfg \<Longrightarrow> \<exists>period. flush_ticker cfg = Inr period"
  by (auto simp: flush_ticker_def signed_divide_int_def Let_def)

lemma flush_ticker_small:
  "StreamFlushTimeout cfg < 4 \<Longrightarrow>
    flush_ticker cfg = Inl (RuntimePanic ''non-positive interval for NewTicker'')"
proof -
  assume "StreamFlushTimeout cfg < 4"
  then have "sgn (StreamFlushTimeout cfg) * (\<bar>StreamFlushTimeout cfg\<bar> div 4) \<le> 0"
    by (cases "StreamFlushTimeout cfg < 0") simp_all
  then show ?thesis by (simp add: flush_ticker_def signed_divide_int_def Let_def)
qed

text \<open>A closed source is not noticed.\<close>

lemma closed_source_panics: "Start_loop env (SourceClosed # cs) st = Inl (Panicked NilDereference)"
  by simp

section \<open>A sample run\<close>

definition sample_loop :: "(unit, unit, unit, bytes, unit, unit, unit) loop_env" where
  "sample_loop = \<lparr>le_gopacket = sample_gopacket, le_http = sample_http,
     le_packets = \<lparr>NetworkLayer = (\<lambda>_. Some ()), NetworkFlow = (\<lambda>_. sample_flow),
       IPv4Layer = (\<lambda>_. None), TCPLayer = (\<lambda>_. Some ()), PacketCI = (\<lambda>_. \<lparr>Timestamp = 1\<rparr>),
       IPv4Length = (\<lambda>_. 0), DefragIPv4 = (\<lambda>d ip. (Inr (Some ip), d)),
       IsPacketBuilder = (\<lambda>_. True), DecodeNext = (\<lambda>_ p _. Inr p),
       SetNetworkLayerForChecksum = (\<lambda>t _. Inr t), tcp_Seq = (\<lambda>_. 100), tcp_Ack = (\<lambda>_. 200),
       tcp_Payload = (\<lambda>_. ''GET '')\<rparr>,
     le_logging = \<lparr>GlobalLevel = InfoLevel, pretty = False\<rparr>, le_config = NewConfig Map.empty,
     startedAt = 0\<rparr>"

definition sample_choices :: "(bytes, unit) choice list" where
  "sample_choices =
     [PacketIn ''a'' [CbNew 0 sample_flow sample_flow, sample_payload 0, sample_payload 0],
      StatsTick 5 0 3, FlushTick 6 6 [], CtxDone [CbReassemblyComplete 0] 7 1 3, SourceClosed]"

lemma sample_first_callbacks:
  assumes "streams r 0 = None"
  shows "\<exists>out r'. do_callbacks sample_gopacket sample_http r
      [CbNew 0 sample_flow sample_flow, sample_payload 0, sample_payload 0] = Inr (out, r') \<and>
    streams r' 0 \<noteq> None"
proof -
  obtain r1 where 1: "callbacks sample_gopacket sample_http r [CbNew 0 sample_flow sample_flow] [] r1"
    "streams r1 0 \<noteq> None" using sample_opened [OF no_callbacks assms] by auto
  obtain out r2 where 2: "callbacks sample_gopacket sample_http r
      [CbNew 0 sample_flow sample_flow, sample_payload 0] out r2" "streams r2 0 \<noteq> None"
    using sample_fed [OF 1] 1(2) by auto
  obtain out r3 where "callbacks sample_gopacket sample_http r
      [CbNew 0 sample_flow sample_flow, sample_payload 0, sample_payload 0] out r3" "streams r3 0 \<noteq> None"
    using sample_fed [OF 2] 2(2) by auto
  then show ?thesis by (blast dest: trace_do_callbacks)
qed

lemma sample_packet:
  "handle_packet (le_packets sample_loop) cfg s () pkt =
     Inr (Assemble sample_flow () \<lparr>CaptureInfo = \<lparr>Timestamp = 1\<rparr>, seq = 100, ack = 200\<rparr>,
       s\<lparr>totalsz := totalsz s + 4\<rparr>, ())"
  by (simp add: handle_packet_def defrag_def process_tcp_def packet_context_def sample_loop_def)

lemma sample_loop_runs:
  "\<exists>st. Start_assembler sample_loop () sample_choices = Inr st \<and> lp_returned st \<and>
     totalsz (reg_stats (lp_reg st)) = 4"
proof -
  have env: "le_gopacket sample_loop = sample_gopacket" "le_http sample_loop = sample_http"
    "le_config sample_loop = NewConfig Map.empty" by (simp_all add: sample_loop_def)
  obtain period where "flush_ticker (NewConfig Map.empty) = Inr period"
    using flush_ticker_default by blast
  let ?r = "(init_registry (NewConfig Map.empty) :: (unit, unit) registry)\<lparr>reg_stats :=
      zero_stats\<lparr>totalsz := 4\<rparr>\<rparr>"
  obtain out r1 where r1: "do_callbacks sample_gopacket sample_http ?r
      [CbNew 0 sample_flow sample_flow, sample_payload 0, sample_payload 0] = Inr (out, r1)"
    "streams r1 0 \<noteq> None"
    using sample_first_callbacks [of ?r] by (auto simp: init_registry_def)
  then obtain r2 where r2: "do_callback sample_gopacket sample_http r1 (CbReassemblyComplete 0) = Inr ([], r2)"
    by (auto simp: ReassemblyComplete_def)
  from callbacks_totals [OF r1(1)] callback_totals [OF r2] have "totalsz (reg_stats r2) = 4" by simp
  with r1 r2 env sample_packet \<open>flush_ticker (NewConfig Map.empty) = Inr period\<close> show ?thesis
    by (simp add: Start_assembler_def sample_choices_def make_callbacks_def Stop_def Let_def
        init_registry_def zero_stats_def do_callbacks_single emit_def
        del: do_callbacks.simps do_callback.simps)
qed

section \<open>Properties\<close>

text \<open>C18: The loop of the assembler refines the runs of the stream registry: whatever cases its select
  chooses, and whatever callbacks gopacket makes in each call, the events it sends are those of
  one run of all streams over these callbacks, and the streams it leaves are those of the run.
  The callbacks are those of the flushes and of the packets that are not dropped, each case's
  once and in order: a packet without a network layer, an incomplete or rejected fragment, and
  a packet without a TCP segment that can be checked get none.\<close>

theorem assembler_loop_refines:
  assumes "Start_assembler env defragger choices = Inr st"
  shows "registry_trace (le_gopacket env) (le_http env) (le_config env)
    (calls_made (le_packets env) (le_config env) defragger choices) (lp_events st) (streams_only (lp_reg st))"
proof -
  let ?init = "\<lparr>lp_reg = init_registry (le_config env), lp_defragger = defragger, lp_made = [],
    lp_events = [], lp_outputs = [], lp_returned = False\<rparr>"
  have run: "Start_loop env choices ?init = Inr st"
    using assms by (simp add: Start_assembler_def split: sum.splits)
  have "loop_trace env ?init" by (simp add: loop_trace_def streams_only_init no_callbacks)
  with run have "loop_trace env st" by (rule start_loop_trace)
  moreover have "lp_made st = calls_made (le_packets env) (le_config env) defragger choices"
    using loop_made [OF run] by simp
  ultimately show ?thesis by (simp add: loop_trace_def)
qed

theorem assembler_loop_refines_witness:
  "\<exists>st. Start_assembler sample_loop () sample_choices = Inr st \<and>
     registry_trace sample_gopacket sample_http (NewConfig Map.empty)
       [CbNew 0 sample_flow sample_flow, sample_payload 0, sample_payload 0, CbReassemblyComplete 0]
       (lp_events st) (streams_only (lp_reg st))"
proof -
  obtain st where st: "Start_assembler sample_loop () sample_choices = Inr st"
    using sample_loop_runs by blast
  have "calls_made (le_packets sample_loop) (le_config sample_loop) () sample_choices =
      [CbNew 0 sample_flow sample_flow, sample_payload 0, sample_payload 0, CbReassemblyComplete 0]"
    by (simp add: sample_choices_def sample_loop_def dropped_packet_def no_segment_def NewConfig_def)
  with assembler_loop_refines [OF st] st show ?thesis
    by (intro exI [of _ st]) (simp add: sample_loop_def)
qed

text \<open>C25: A run of the assembler's loop accounts for what it hands out: the byte counter is the size of
  the segments passed to gopacket's assembler, modulo \<open>2 ^ 64\<close>; the loop returns exactly when
  the context's case was chosen; on the return everything is flushed, once, and after that only
  the last statistics are sent.\<close>

theorem assembler_loop_accounts:
  assumes "Start_assembler env defragger choices = Inr st"
  shows "totalsz (reg_stats (lp_reg st)) = assembled_bytes (le_packets env) (lp_outputs st) \<and>
    (lp_returned st \<longleftrightarrow> (\<exists>c \<in> set choices. \<exists>cbs now q n. c = CtxDone cbs now q n)) \<and>
    (if lp_returned st
     then \<exists>before last. lp_outputs st = before @ FlushAll # map Sent last \<and> FlushAll \<notin> set before \<and>
            last \<noteq> []
     else FlushAll \<notin> set (lp_outputs st))"
proof -
  let ?init = "\<lparr>lp_reg = init_registry (le_config env), lp_defragger = defragger, lp_made = [],
    lp_events = [], lp_outputs = [], lp_returned = False\<rparr>"
  have "loop_outputs env ?init" by (simp add: loop_outputs_def init_registry_def zero_stats_def)
  moreover have "Start_loop env choices ?init = Inr st"
    using assms by (simp add: Start_assembler_def split: sum.splits)
  ultimately show ?thesis using loop_stops [of env choices ?init st] by (simp add: loop_outputs_def)
qed

theorem assembler_loop_accounts_witness:
  "\<exists>st before last. Start_assembler sample_loop () sample_choices = Inr st \<and>
     totalsz (reg_stats (lp_reg st)) = 4 \<and>
     assembled_bytes (le_packets sample_loop) (lp_outputs st) = 4 \<and>
     lp_outputs st = before @ FlushAll # map Sent last \<and> FlushAll \<notin> set before"
proof -
  obtain st where st: "Start_assembler sample_loop () sample_choices = Inr st" "lp_returned st"
    "totalsz (reg_stats (lp_reg st)) = 4" using sample_loop_runs by blast
  from assembler_loop_accounts [OF st(1)] st show ?thesis by auto
qed

text \<open>C24: When the loop of the assembler panics, given that the callbacks get the loop's own contexts:
  exactly for a flush timeout below four nanoseconds, or when, before it has returned, it
  receives from a source that is closed, or a fragment that completes a datagram which cannot
  be decoded into the packet without a panic or which leaves a TCP segment without a network
  layer; and on no other packet.\<close>

theorem assembler_loop_panics:
  assumes "\<forall>c \<in> set choices. own_contexts c"
  shows "(\<exists>p. Start_assembler env defragger choices = Inl (Panicked p)) \<longleftrightarrow>
    StreamFlushTimeout (le_config env) < 4 \<or>
    (\<exists>before c after st. choices = before @ c # after \<and> Start_assembler env defragger before = Inr st \<and>
       \<not> lp_returned st \<and>
       (case c of
          SourceClosed \<Rightarrow> True
        | PacketIn pkt cbs \<Rightarrow> fatal_packet (le_packets env) (le_config env) (lp_defragger st) pkt
        | _ \<Rightarrow> False))"
proof (cases "StreamFlushTimeout (le_config env) < 4")
  case True
  then show ?thesis by (simp add: Start_assembler_def flush_ticker_small)
next
  case False
  then obtain period where "flush_ticker (le_config env) = Inr period"
    using flush_ticker_positive [of "le_config env"] by auto
  moreover have "(case c of SourceClosed \<Rightarrow> True
      | PacketIn pkt cbs \<Rightarrow> fatal_packet (le_packets env) (le_config env) d pkt | _ \<Rightarrow> False) =
    fatal_choice env d c" for c d by (cases c) simp_all
  moreover note loop_panics [OF assms, of "\<lparr>lp_reg = init_registry (le_config env),
    lp_defragger = defragger, lp_made = [], lp_events = [], lp_outputs = [], lp_returned = False\<rparr>" env]
  ultimately show ?thesis using False by (simp add: Start_assembler_def)
qed

theorem assembler_loop_panics_witness:
  "\<exists>p. Start_assembler sample_loop () [SourceClosed] = Inl (Panicked p)"
proof -
  obtain period where "flush_ticker (NewConfig Map.empty) = Inr period"
    using flush_ticker_default by blast
  then obtain st where "Start_assembler sample_loop () [] = Inr st" "\<not> lp_returned st"
    by (simp add: Start_assembler_def sample_loop_def)
  then show ?thesis
    using assembler_loop_panics [of "[SourceClosed]" sample_loop "()"] by fastforce
qed

end
