(* ===== verification/Shutdown.thy ===== *)
theory Shutdown
  imports Agent
begin

text \<open>
  The end of the agent (\<open>main.go\<close> with the two Start loops): from which states it can still
  exit, and from which it cannot.
\<close>

section \<open>Runs\<close>

abbreviation agent_steps ::
  "('fsm, 'opt, 'tcp) gopacket \<Rightarrow> http_lib \<Rightarrow> ('fsm, 'opt) agent \<Rightarrow> ('fsm, 'opt) agent \<Rightarrow> bool"
  where "agent_steps g lib \<equiv> (agent_step g lib)\<^sup>*\<^sup>*"

lemma reachable_steps:
  "agent_steps g lib a a' \<Longrightarrow> agent_reachable g lib cfg a \<Longrightarrow> agent_reachable g lib cfg a'"
  by (induction rule: rtranclp_induct) (auto intro: agent_reachable.intros)

lemma then_step: "agent_steps g lib a b \<Longrightarrow> agent_step g lib b c \<Longrightarrow> agent_steps g lib a c"
  by (rule rtranclp.rtrancl_into_rtrancl)

lemma step_then: "agent_step g lib a b \<Longrightarrow> agent_steps g lib b c \<Longrightarrow> agent_steps g lib a c"
  by (rule converse_rtranclp_into_rtranclp)

text \<open>One callback sends at most one event, so at most one is ever waiting to be sent.\<close>

lemma callback_one_event: "callback_step g lib r cb es r' \<Longrightarrow> length es \<le> 1"
proof (induction rule: callback_step.induct)
  case (cb_reassembled r c st sg ac st' es)
  then obtain ctx where "ac = OwnContext ctx" by (cases ac) (auto simp: ReassembledSG_foreign)
  with cb_reassembled show ?case using http.reassembled_origin(1) by blast
qed simp_all

lemma one_pending: "agent_reachable g lib cfg a \<Longrightarrow> length (pending a) \<le> 1"
proof (induction rule: agent_reachable.induct)
  case agent_init
  show ?case by (simp add: init_agent_def)
next
  case (agent_run a a')
  from agent_run.hyps(2) agent_run.IH show ?case
    by (elim agent_stepEs) (auto dest: callback_one_event)
qed

section \<open>Exits\<close>

definition can_exit ::
  "('fsm, 'opt, 'tcp) gopacket \<Rightarrow> http_lib \<Rightarrow> ('fsm, 'opt) agent \<Rightarrow> bool" where
  "can_exit g lib a \<longleftrightarrow> (\<exists>a'. agent_steps g lib a a' \<and> main_at a' = Exited)"

lemma can_exit_step: "agent_step g lib a b \<Longrightarrow> can_exit g lib b \<Longrightarrow> can_exit g lib a"
  unfolding can_exit_def by (blast intro: step_then)

lemma exit_after_wait:
  assumes "main_at a = WaitingForServices" and "wg_count a = 0"
  shows "can_exit g lib a"
proof -
  have "agent_step g lib a (a\<lparr>main_at := ClosingHandler\<rparr>)"
    using assms by (rule wg_wait)
  moreover have "agent_step g lib (a\<lparr>main_at := ClosingHandler\<rparr>)
      (a\<lparr>closed := True, main_at := SignallingExit\<rparr>)"
    using close_handler [of "a\<lparr>main_at := ClosingHandler\<rparr>" g lib] by simp
  moreover have "agent_step g lib (a\<lparr>closed := True, main_at := SignallingExit\<rparr>)
      (a\<lparr>closed := True, main_at := Exited\<rparr>)"
    using shutdown_now [of "a\<lparr>closed := True, main_at := SignallingExit\<rparr>" g lib] by simp
  ultimately have "agent_steps g lib a (a\<lparr>closed := True, main_at := Exited\<rparr>)"
    by (meson r_into_rtranclp rtranclp_trans)
  then show ?thesis unfolding can_exit_def by (intro exI conjI) auto
qed

lemma exit_after_main:
  "shutdown_order a \<Longrightarrow> main_at a \<in> {ClosingHandler, SignallingExit, Exited} \<Longrightarrow> can_exit g lib a"
proof -
  assume "shutdown_order a" and at: "main_at a \<in> {ClosingHandler, SignallingExit, Exited}"
  have sig: "can_exit g lib b" if "main_at b = SignallingExit" for b :: "('a, 'b) agent"
    using shutdown_now [OF that, of g lib] unfolding can_exit_def
    by (intro exI [of _ "b\<lparr>main_at := Exited\<rparr>"]) auto
  from at show ?thesis
  proof (elim insertE)
    assume "main_at a = ClosingHandler"
    from close_handler [OF this, of g lib] show ?thesis by (rule can_exit_step) (simp add: sig)
  next
    assume "main_at a = Exited"
    then show ?thesis unfolding can_exit_def by blast
  qed (auto simp: sig)
qed

text \<open>Without events to send, the services return one after the other.\<close>

lemma exit_handler_left:
  assumes "shutdown_order a" and "main_at a = WaitingForServices" and "asm_mode a = AssemblerDone"
  shows "can_exit g lib a"
proof (cases "handler_running a")
  case True
  moreover from assms have "ctx_done a" by (simp add: shutdown_order_def)
  ultimately have "agent_step g lib a (a\<lparr>handler_running := False, wg_count := wg_count a - 1\<rparr>)"
    by (rule handler_returns)
  moreover have "can_exit g lib (a\<lparr>handler_running := False, wg_count := wg_count a - 1\<rparr>)"
    using assms True by (intro exit_after_wait) (simp_all add: shutdown_order_def services_def)
  ultimately show ?thesis by (rule can_exit_step)
next
  case False
  with assms show ?thesis
    by (intro exit_after_wait) (simp_all add: shutdown_order_def services_def)
qed

lemma exit_nothing_pending:
  assumes "shutdown_order a" and "main_at a = WaitingForServices" and "pending a = []"
  shows "can_exit g lib a"
proof -
  have flushing: "can_exit g lib b"
    if "shutdown_order b" "main_at b = WaitingForServices" "pending b = []" "asm_mode b = FlushingAll"
    for b :: "('a, 'b) agent"
  proof -
    have step: "agent_step g lib b (b\<lparr>asm_mode := AssemblerDone, wg_count := wg_count b - 1\<rparr>)"
      using that(4,3) by (rule assembler_returns)
    with that(1) have "shutdown_order (b\<lparr>asm_mode := AssemblerDone, wg_count := wg_count b - 1\<rparr>)"
      by (rule shutdown_order_step [rotated])
    with that(2) have "can_exit g lib (b\<lparr>asm_mode := AssemblerDone, wg_count := wg_count b - 1\<rparr>)"
      by (intro exit_handler_left) simp_all
    with step show ?thesis by (rule can_exit_step)
  qed
  show ?thesis
  proof (cases "asm_mode a")
    case Capturing
    from assms have "ctx_done a" by (simp add: shutdown_order_def)
    with Capturing assms(3) have step: "agent_step g lib a (a\<lparr>asm_mode := FlushingAll\<rparr>)"
      by (intro assembler_cancelled)
    with assms(1) have "shutdown_order (a\<lparr>asm_mode := FlushingAll\<rparr>)"
      by (rule shutdown_order_step [rotated])
    with assms have "can_exit g lib (a\<lparr>asm_mode := FlushingAll\<rparr>)" by (intro flushing) simp_all
    with step show ?thesis by (rule can_exit_step)
  qed (use assms flushing exit_handler_left in auto)
qed

text \<open>One pending event, and room for it or a running handler to make room.\<close>

lemma send_pending:
  assumes "pending a = [e]" and "length (queued (channel a)) < capacity (channel a)"
  shows "\<exists>a'. agent_step g lib a a' \<and> pending a' = [] \<and> main_at a' = main_at a"
  using send [of a e "[]" "channel a\<lparr>queued := queued (channel a) @ [e]\<rparr>" g lib] assms
  by (intro exI [of _ "a\<lparr>pending := [], channel := channel a\<lparr>queued := queued (channel a) @ [e]\<rparr>\<rparr>"])
     (simp add: chan_send_def)

lemma drain_pending:
  assumes "pending a = [e]" and "handler_running a"
    and "length (queued (channel a)) \<le> capacity (channel a)"
  shows "\<exists>a'. agent_steps g lib a a' \<and> pending a' = [] \<and> main_at a' = main_at a"
proof (cases "queued (channel a)")
  case Nil
  show ?thesis
  proof (cases "capacity (channel a)")
    case 0
    from rendezvous [OF assms(1) 0 assms(2), of g lib] show ?thesis
      by (intro exI conjI, rule r_into_rtranclp) auto
  next
    case Suc
    with send_pending [OF assms(1), of g lib] Nil show ?thesis by (auto intro: r_into_rtranclp)
  qed
next
  case (Cons x xs)
  let ?b = "a\<lparr>channel := channel a\<lparr>queued := xs\<rparr>, handled_events := handled_events a @ [x]\<rparr>"
  have "agent_step g lib a ?b"
    using assms(2) Cons by (intro receive) (simp_all add: chan_receive_def)
  moreover have "\<exists>a'. agent_step g lib ?b a' \<and> pending a' = [] \<and> main_at a' = main_at ?b"
    using assms Cons by (intro send_pending) simp_all
  ultimately show ?thesis by (auto intro: converse_rtranclp_into_rtranclp)
qed

lemma exit_from_waiting:
  assumes "agent_reachable g lib cfg a" and "main_at a = WaitingForServices" and "\<not> hangs a"
  shows "can_exit g lib a"
proof (cases "pending a = []")
  case True
  with assms agent_shutdown show ?thesis by (blast intro: exit_nothing_pending)
next
  case False
  with one_pending [OF assms(1)] obtain e where e: "pending a = [e]"
    by (cases "pending a") auto
  note inv = agent_shutdown [OF assms(1)] and flow = agent_flow [OF assms(1)]
  have "\<exists>a'. agent_steps g lib a a' \<and> pending a' = [] \<and> main_at a' = main_at a"
  proof (cases "handler_running a")
    case True
    with e flow show ?thesis by (intro drain_pending) (simp_all add: events_flow_def)
  next
    case False
    with e inv assms(2,3) have "length (queued (channel a)) < capacity (channel a)"
      by (auto simp: hangs_def shutdown_order_def services_def)
    from send_pending [OF e this] show ?thesis by blast
  qed
  then obtain b where b: "agent_steps g lib a b" "pending b = []" "main_at b = WaitingForServices"
    using assms(2) by auto
  with reachable_steps [OF b(1) assms(1)] have "can_exit g lib b"
    by (blast intro: exit_nothing_pending agent_shutdown)
  with b(1) show ?thesis unfolding can_exit_def by (blast intro: rtranclp_trans)
qed

lemma exit_iff_not_hanging:
  assumes "agent_reachable g lib cfg a"
  shows "can_exit g lib a \<longleftrightarrow> \<not> hangs a"
proof
  assume "can_exit g lib a"
  then obtain b where b: "agent_steps g lib a b" "main_at b = Exited" by (auto simp: can_exit_def)
  from this(1) show "\<not> hangs a"
    by (cases rule: converse_rtranclpE) (use b(2) in \<open>auto simp: hangs_stuck hangs_def\<close>)
next
  assume ok: "\<not> hangs a"
  note inv = agent_shutdown [OF assms]
  show "can_exit g lib a"
  proof (cases "main_at a")
    case Serving
    let ?b = "a\<lparr>ctx_done := True, main_at := WaitingForServices\<rparr>"
    have step: "agent_step g lib a ?b" using Serving by (rule os_signal)
    moreover have "\<not> hangs ?b" using inv Serving by (auto simp: hangs_def shutdown_order_def)
    then have "can_exit g lib ?b"
      using agent_run [OF assms step] by (intro exit_from_waiting) simp_all
    ultimately show ?thesis by (rule can_exit_step)
  next
    case WaitingForServices
    with assms ok show ?thesis by (blast intro: exit_from_waiting)
  qed (use inv exit_after_main in blast)+
qed

section \<open>A shutdown that hangs\<close>

text \<open>
  A stream whose matcher has nothing pending under the key 0; two payloads that parse to
  requests with that key leave it so and send one event.
\<close>

definition ready :: "('fsm, 'opt) agent \<Rightarrow> bool" where
  "ready a \<longleftrightarrow> asm_mode a = Capturing \<and> pending a = [] \<and> handler_running a \<and> main_at a = Serving \<and>
     (\<exists>st p. streams (reg a) 0 = Some st \<and> parsers st = [p] \<and> messages (matcher p) 0 = None)"

lemma request_callback:
  assumes "ReadRequest lib b = (Inr req, rest')" and "streams r 0 = Some st" and "parsers st = [p]"
  shows "\<exists>r' st' p' m. m = ReqMsg 0 0 (clean_request p req) 1 \<and>
    callback_step g lib r (CbReassembledSG 0 (payload_of b) (OwnContext context_0))
      (send_match st 0 (fst (deliver (matcher p) m))) r' \<and>
    streams r' 0 = Some st' \<and> parsers st' = [p'] \<and>
    p' = p\<lparr>matcher := snd (deliver (matcher p) m)\<rparr>"
proof -
  let ?m = "ReqMsg 0 0 (clean_request p req) 1"
  let ?sg = "payload_of b"
  let ?r = "try_sg (parse lib) st ?sg context_0"
  have sg: "fst ?r = [p\<lparr>matcher := snd (deliver (matcher p) ?m)\<rparr>]"
    "snd (snd ?r) = send_match st 0 (fst (deliver (matcher p) ?m))"
    using try_sg_single(2) [OF assms(3) payload_request [OF assms(1)]] by (simp_all del: deliver.simps)
  then have "ReassembledSG (parse lib) st ?sg (OwnContext context_0) =
      Inr (st\<lparr>buffer := fst (snd ?r), parsers := [p\<lparr>matcher := snd (deliver (matcher p) ?m)\<rparr>]\<rparr>,
        send_match st 0 (fst (deliver (matcher p) ?m)))"
    by (simp add: ReassembledSG_own Let_def del: deliver.simps)
  from cb_reassembled [OF assms(2) this, of g] show ?thesis
    by (intro exI conjI refl) (assumption | simp del: deliver.simps)+
qed

lemma clean_request_table: "clean_request (p\<lparr>matcher := m\<rparr>) req = clean_request p req"
  by (simp add: clean_request_def extractHeaders_def)

text \<open>Two such payloads: one event is sent, and nothing is stored under the key.\<close>

lemma two_requests:
  assumes "ReadRequest lib b = (Inr req, rest')" and "streams r 0 = Some st" and "parsers st = [p]"
    and "messages (matcher p) 0 = None"
  shows "\<exists>r1 r2 st' p' h.
    callback_step g lib r (CbReassembledSG 0 (payload_of b) (OwnContext context_0)) [] r1 \<and>
    callback_step g lib r1 (CbReassembledSG 0 (payload_of b) (OwnContext context_0)) [EvHttp h] r2 \<and>
    streams r2 0 = Some st' \<and> parsers st' = [p'] \<and> messages (matcher p') 0 = None \<and>
    request h = Some (clean_request p req)"
proof -
  let ?m = "ReqMsg 0 0 (clean_request p req) 1"
  let ?cb = "CbReassembledSG 0 (payload_of b) (OwnContext context_0)"
  from request_callback [OF assms(1-3), of g] obtain r1 st1 p1
    where c1: "callback_step g lib r ?cb [] r1"
      "streams r1 0 = Some st1" "parsers st1 = [p1]"
      "messages (matcher p1) 0 = Some (half ?m)" "clean_request p1 req = clean_request p req"
    using assms(4) by (auto simp: deliver_fill send_match_def clean_request_table simp del: deliver.simps)
  let ?m1 = "ReqMsg 0 0 (clean_request p1 req) 1"
  let ?h = "match_event st1 0 (fill ?m1 (half ?m))"
  from request_callback [OF assms(1) c1(2,3), of g] obtain r2 st2 p2
    where "callback_step g lib r1 ?cb [EvHttp ?h] r2"
      "streams r2 0 = Some st2" "parsers st2 = [p2]" "messages (matcher p2) 0 = None"
    using c1(4) by (auto simp: deliver_fill send_match_def simp del: deliver.simps)
  moreover have "request ?h = Some (clean_request p req)" using c1(5) by simp
  ultimately show ?thesis using c1(1) by blast
qed

lemma produce_one:
  assumes "ReadRequest lib b = (Inr req, rest')" and "ready a"
  shows "\<exists>a' e. agent_steps g lib a a' \<and> pending a' = [e] \<and> channel a' = channel a \<and>
    ready (a'\<lparr>pending := []\<rparr>) \<and>
    (\<exists>h st p. e = EvHttp h \<and> streams (reg a) 0 = Some st \<and> parsers st = [p] \<and>
      request h = Some (clean_request p req))"
proof -
  from assms(2) obtain st p where st: "streams (reg a) 0 = Some st" "parsers st = [p]"
    "messages (matcher p) 0 = None" and a: "asm_mode a = Capturing" "pending a = []"
    "handler_running a" "main_at a = Serving" by (auto simp: ready_def)
  let ?cb = "CbReassembledSG 0 (payload_of b) (OwnContext context_0)"
  from two_requests [OF assms(1) st, of g] obtain r1 r2 st2 p2 h where
    c: "callback_step g lib (reg a) ?cb [] r1" "callback_step g lib r1 ?cb [EvHttp h] r2"
      "streams r2 0 = Some st2" "parsers st2 = [p2]" "messages (matcher p2) 0 = None"
      "request h = Some (clean_request p req)" by blast
  let ?a1 = "a\<lparr>reg := r1, pending := [], produced := produced a @ []\<rparr>"
  let ?a2 = "?a1\<lparr>reg := r2, pending := [EvHttp h], produced := produced ?a1 @ [EvHttp h]\<rparr>"
  have "agent_step g lib a ?a1" using a c(1) by (intro capture) simp_all
  moreover have "agent_step g lib ?a1 ?a2" using a c(2) by (intro capture) simp_all
  ultimately have "agent_steps g lib a ?a2" by (meson r_into_rtranclp rtranclp_trans)
  moreover have "ready (?a2\<lparr>pending := []\<rparr>)" using a c by (auto simp: ready_def)
  ultimately show ?thesis
    using c(6) st(1,2) by (intro exI [of _ ?a2] exI [of _ "EvHttp h"]) auto
qed

lemma first_stream:
  fixes g :: "('fsm, 'opt, 'tcp) gopacket"
  shows "\<exists>a. agent_steps g lib (init_agent cfg) a \<and> ready a \<and> queued (channel a) = [] \<and>
    capacity (channel a) = channel_size cfg"
proof -
  let ?f = "\<lparr>flow_string = [], flow_src = [], flow_dst = []\<rparr>"
  let ?r = "init_registry cfg :: ('fsm, 'opt) registry"
  obtain st s where st: "factory_New g (reg_factory ?r) ?f ?f (reg_stats ?r) = (st, s)"
    by fastforce
  let ?r' = "?r\<lparr>reg_stats := s, streams := (streams ?r)(0 \<mapsto> st)\<rparr>"
  have "callback_step g lib ?r (CbNew 0 ?f ?f) [] ?r'"
    using st by (intro cb_new) (simp_all add: init_registry_def)
  then have "agent_step g lib (init_agent cfg)
      (init_agent cfg\<lparr>reg := ?r', pending := [], produced := produced (init_agent cfg) @ []\<rparr>)"
    using capture [of "init_agent cfg" g lib "CbNew 0 ?f ?f" "[]" ?r'] by (simp add: init_agent_def)
  moreover have "ready (init_agent cfg\<lparr>reg := ?r', pending := [],
      produced := produced (init_agent cfg) @ []\<rparr>)"
    using factory_New_stats(5) [OF st] by (simp add: ready_def init_agent_def)
  ultimately show ?thesis
    by (intro exI [of _ "init_agent cfg\<lparr>reg := ?r', pending := [],
        produced := produced (init_agent cfg) @ []\<rparr>"] conjI r_into_rtranclp)
       (simp_all add: init_agent_def make_chan_def)
qed

lemma fill_queue:
  assumes "ReadRequest lib b = (Inr req, rest')" and "n \<le> channel_size cfg"
  shows "\<exists>a. agent_steps g lib (init_agent cfg) a \<and> ready a \<and> length (queued (channel a)) = n \<and>
    capacity (channel a) = channel_size cfg"
  using assms(2)
proof (induction n)
  case 0
  from first_stream [of g lib cfg] show ?case by auto
next
  case (Suc n)
  then obtain a where a: "agent_steps g lib (init_agent cfg) a" "ready a"
    "length (queued (channel a)) = n" "capacity (channel a) = channel_size cfg" by auto
  from produce_one [OF assms(1) a(2), of g] obtain b e where b: "agent_steps g lib a b"
    "pending b = [e]" "channel b = channel a" "ready (b\<lparr>pending := []\<rparr>)" by blast
  let ?ch = "channel b\<lparr>queued := queued (channel b) @ [e]\<rparr>"
  have "agent_step g lib b (b\<lparr>pending := [], channel := ?ch\<rparr>)"
    using a b Suc.prems by (intro send) (simp_all add: chan_send_def)
  with a(1) b(1) have "agent_steps g lib (init_agent cfg) (b\<lparr>pending := [], channel := ?ch\<rparr>)"
    by (meson rtranclp_trans r_into_rtranclp)
  moreover have "ready (b\<lparr>pending := [], channel := ?ch\<rparr>)" using b(4) by (simp add: ready_def)
  ultimately show ?case
    using a b(3) by (intro exI [of _ "b\<lparr>pending := [], channel := ?ch\<rparr>"]) simp
qed

lemma hang_reachable:
  assumes "ReadRequest lib b = (Inr req, rest')"
  shows "\<exists>a. agent_reachable g lib cfg a \<and> hangs a"
proof -
  from fill_queue [OF assms order_refl, of g cfg] obtain a where a:
    "agent_steps g lib (init_agent cfg) a" "ready a"
    "length (queued (channel a)) = channel_size cfg"
    "capacity (channel a) = channel_size cfg" by blast
  from produce_one [OF assms a(2), of g] obtain b e where b: "agent_steps g lib a b"
    "pending b = [e]" "channel b = channel a" "ready (b\<lparr>pending := []\<rparr>)" by blast
  let ?c = "b\<lparr>ctx_done := True, main_at := WaitingForServices\<rparr>"
  let ?d = "?c\<lparr>handler_running := False, wg_count := wg_count ?c - 1\<rparr>"
  from b(4) have c: "agent_step g lib b ?c" by (intro os_signal) (simp add: ready_def)
  have d: "agent_step g lib ?c ?d"
    using b(4) by (intro handler_returns) (simp_all add: ready_def)
  have reach: "agent_reachable g lib cfg ?d"
    using reachable_steps [OF rtranclp_trans [OF a(1) b(1)] agent_init] agent_run c d by blast
  from agent_shutdown [OF this] have "0 < wg_count ?d"
    using b(4) by (simp add: shutdown_order_def services_def ready_def)
  with a b have "hangs ?d" by (simp add: hangs_def ready_def)
  with reach show ?thesis by blast
qed

section \<open>A sample run\<close>

lemma sample_agent_queued:
  "\<exists>a. agent_reachable sample_gopacket sample_http (NewConfig Map.empty) a \<and>
     length (queued (channel a)) = 3"
proof -
  have "3 \<le> channel_size (NewConfig Map.empty)" by (simp add: NewConfig_def)
  from fill_queue [OF sample_reads this, of sample_gopacket] show ?thesis
    using reachable_steps [OF _ agent_init] by blast
qed

lemma sample_agent_exited:
  "\<exists>a. agent_reachable sample_gopacket sample_http (NewConfig Map.empty) a \<and> main_at a = Exited"
proof -
  have "\<not> hangs (init_agent (NewConfig Map.empty) :: (unit, unit) agent)"
    by (simp add: hangs_def init_agent_def)
  with exit_iff_not_hanging [OF agent_init, of sample_gopacket sample_http]
  show ?thesis unfolding can_exit_def using reachable_steps [OF _ agent_init] by blast
qed

section \<open>Properties\<close>

text \<open>C4: In every reachable state of the agent, the events produced so far are the handled ones, the
  queued ones and the one about to be sent, in this order: none is lost, duplicated or
  reordered; and the queue never exceeds the configured size.\<close>

theorem agent_events_in_order:
  assumes "agent_reachable g lib cfg a"
  shows "produced a = handled_events a @ queued (channel a) @ pending a \<and>
    length (queued (channel a)) \<le> channel_size cfg \<and> length (pending a) \<le> 1"
  using agent_flow [OF assms] one_pending [OF assms] by (simp add: events_flow_def)

theorem agent_events_in_order_witness:
  "\<exists>a. agent_reachable sample_gopacket sample_http (NewConfig Map.empty) a \<and>
     3 \<le> length (produced a) \<and> length (queued (channel a)) \<le> 1000"
proof -
  obtain a where a: "agent_reachable sample_gopacket sample_http (NewConfig Map.empty) a"
    "length (queued (channel a)) = 3" using sample_agent_queued by blast
  with agent_events_in_order [OF a(1)] show ?thesis by (intro exI [of _ a]) simp
qed

text \<open>C14: Every event the agent produces is well formed: it is an HTTP event, its headers are reduced
  to the configured fields with one value each, its bodies are closed, and a half that is
  missing has no timestamp and no packets.\<close>

theorem produced_events_wellformed:
  assumes "agent_reachable g lib cfg a" and "e \<in> set (produced a)"
  shows "\<exists>h. e = EvHttp h \<and> halves_coherent h \<and>
    (\<forall>r. request h = Some r \<longrightarrow> retained_request (HTTPHeadersToExtract cfg) r) \<and>
    (\<forall>r. response h = Some r \<longrightarrow> retained_response (HTTPHeadersToExtract cfg) r)"
proof -
  obtain n where "registry_run g lib cfg n (produced a) (reg a)"
    using agent_registry [OF assms(1)] by blast
  from run_ok [OF this] assms(2) show ?thesis by (auto simp: registry_ok_def event_ok_def)
qed

theorem produced_events_wellformed_witness:
  "\<exists>a h. agent_reachable sample_gopacket sample_http (NewConfig Map.empty) a \<and>
     EvHttp h \<in> set (produced a) \<and> halves_coherent h"
proof -
  obtain a where a: "agent_reachable sample_gopacket sample_http (NewConfig Map.empty) a"
    "length (queued (channel a)) = 3" using sample_agent_queued by blast
  with agent_flow [OF a(1)] obtain e where "e \<in> set (produced a)"
    by (cases "queued (channel a)") (auto simp: events_flow_def)
  with produced_events_wellformed [OF a(1) this] a(1) show ?thesis by blast
qed

text \<open>The handler is closed, and its buffered telemetry flushed, only after both services have
  returned; nothing is being sent any more, and the events lost are those still in the queue.\<close>

lemma closed_after_services:
  assumes "agent_reachable g lib cfg a" and "closed a"
  shows "\<not> handler_running a \<and> asm_mode a = AssemblerDone \<and> pending a = [] \<and>
    produced a = handled_events a @ queued (channel a)"
  using agent_shutdown [OF assms(1)] agent_flow [OF assms(1)] assms(2)
  by (auto simp: shutdown_order_def services_def events_flow_def split: if_splits)

text \<open>C5: The agent can reach its exit from every reachable state but one kind: the handler's loop has
  returned, the queue is full and the assembler is blocked on sending an event.\<close>

theorem exit_possible_iff:
  assumes "agent_reachable g lib cfg a"
  shows "(\<exists>a'. agent_steps g lib a a' \<and> main_at a' = Exited) \<longleftrightarrow>
    \<not> (main_at a = WaitingForServices \<and> \<not> handler_running a \<and> asm_mode a \<noteq> AssemblerDone \<and>
       pending a \<noteq> [] \<and> length (queued (channel a)) = capacity (channel a))"
proof -
  have "hangs a \<longleftrightarrow> main_at a = WaitingForServices \<and> \<not> handler_running a \<and>
      asm_mode a \<noteq> AssemblerDone \<and> pending a \<noteq> [] \<and>
      length (queued (channel a)) = capacity (channel a)"
    using agent_flow [OF assms] agent_shutdown [OF assms]
    by (auto simp: hangs_def events_flow_def shutdown_order_def services_def)
  with exit_iff_not_hanging [OF assms] show ?thesis by (simp add: can_exit_def)
qed

theorem exit_possible_iff_witness:
  "\<exists>a'. agent_steps sample_gopacket sample_http (init_agent (NewConfig Map.empty)) a' \<and>
     main_at a' = Exited"
  using exit_possible_iff [OF agent_init, of sample_gopacket sample_http "NewConfig Map.empty"]
  by (simp add: init_agent_def)

text \<open>C33: A shutdown that hangs can happen: with any configuration, and any parser that reads a request
  from some payload, a state is reachable in which the context is done, no step is possible, and
  the agent has not exited.\<close>

theorem shutdown_can_hang:
  assumes "ReadRequest lib payload = (Inr req, unread)"
  shows "\<exists>a. agent_reachable g lib cfg a \<and> ctx_done a \<and> main_at a \<noteq> Exited \<and>
    (\<forall>a'. \<not> agent_step g lib a a')"
proof -
  obtain a where a: "agent_reachable g lib cfg a" "hangs a"
    using hang_reachable [OF assms] by blast
  with agent_shutdown [OF a(1)] hangs_stuck [OF a(2)] show ?thesis
    by (intro exI [of _ a]) (auto simp: hangs_def shutdown_order_def)
qed

theorem shutdown_can_hang_witness:
  "\<exists>a. agent_reachable sample_gopacket sample_http (NewConfig Map.empty) a \<and> ctx_done a \<and>
     main_at a \<noteq> Exited \<and> (\<forall>a'. \<not> agent_step sample_gopacket sample_http a a')"
  using sample_reads by (rule shutdown_can_hang)

end
