(* ===== verification/Simulation.thy ===== *)
theory Simulation
  imports Prelude
begin

text \<open>
  Refinement of one step relation by another along a function: every step of the concrete
  system is a step of the abstract one or leaves its state alone. What is shown of the
  reachable states of the abstract system then holds for the concrete one.
\<close>

locale step_refinement =
  fixes cinit :: 'c
    and cstep :: "'c \<Rightarrow> 'c \<Rightarrow> bool"
    and ainit :: 'a
    and astep :: "'a \<Rightarrow> 'a \<Rightarrow> bool"
    and view :: "'c \<Rightarrow> 'a"
  assumes init_view: "view cinit = ainit"
    and step_view: "cstep\<^sup>*\<^sup>* cinit c \<Longrightarrow> cstep c c' \<Longrightarrow>
      view c' = view c \<or> astep (view c) (view c')"
begin

lemma reachable_view: "cstep\<^sup>*\<^sup>* cinit c \<Longrightarrow> astep\<^sup>*\<^sup>* ainit (view c)"
proof (induction rule: rtranclp_induct)
  case base
  show ?case by (simp add: init_view)
next
  case (step c c')
  with step_view [OF step.hyps] show ?case by (metis rtranclp.rtrancl_into_rtrancl)
qed

text \<open>An invariant of the abstract system is one of the concrete system.\<close>

lemma invariant_view:
  assumes "\<And>a. astep\<^sup>*\<^sup>* ainit a \<Longrightarrow> holds a" and "cstep\<^sup>*\<^sup>* cinit c"
  shows "holds (view c)"
  using assms reachable_view by blast

end

end
