(* ===== verification/Process.thy ===== *)
theory Process
  imports Assembler_Loop Shutdown Simulation
begin

text \<open>
  The running process: the assembler's goroutine executes the loop of \<open>tcpAssembler.Start\<close>
  one case, one callback and one send at a time, interleaved with the event handler, the
  shutdown and the reader of libpcap's figures; a panic of a goroutine ends the process. The
  process refines the agent, and its loop computes what the function \<open>Start_assembler\<close> does.
\<close>

section \<open>States and steps\<close>

text \<open>
  Where the assembler's goroutine is: before its loop, at its select, in a call of gopacket's
  assembler from a case, in the flush of \<open>Stop\<close>, or returned.
\<close>

datatype asm_pc = Starting | Selecting | InCall | InStop | Returned

text \<open>
  The loop's state counts an event as sent once its callback has run; \<open>pr_pending\<close> is the part
  of these events that is not yet on the channel.
\<close>

record ('fsm, 'opt, 'tcp, 'd) process =
  pr_loop :: "('fsm, 'opt, 'tcp, 'd) loop_state"
  pr_pc :: asm_pc
  pr_pending :: "Event list"
  pr_channel :: events_channel
  pr_handler_running :: bool
  pr_ctx_done :: bool
  pr_wg_count :: nat
  pr_closed :: bool
  pr_main :: main_pc
  pr_handled :: "Event list"
  pr_crash :: "panic option"

definition init_loop :: "config \<Rightarrow> 'd \<Rightarrow> ('fsm, 'opt, 'tcp, 'd) loop_state" where
  "init_loop cfg defragger =
     \<lparr>lp_reg = init_registry cfg, lp_defragger = defragger, lp_made = [], lp_events = [],
      lp_outputs = [], lp_returned = False\<rparr>"

definition init_process :: "config \<Rightarrow> 'd \<Rightarrow> ('fsm, 'opt, 'tcp, 'd) process" where
  "init_process cfg defragger =
     \<lparr>pr_loop = init_loop cfg defragger, pr_pc = Starting, pr_pending = [],
      pr_channel = make_chan (channel_size cfg), pr_handler_running = True,
      pr_ctx_done = False, pr_wg_count = 2, pr_closed = False, pr_main = Serving,
      pr_handled = [], pr_crash = None\<rparr>"

text \<open>The process as the agent sees it; the handler's and the shutdown's steps are the agent's.\<close>

fun mode_of :: "asm_pc \<Rightarrow> assembler_mode" where
  "mode_of InStop = FlushingAll"
| "mode_of Returned = AssemblerDone"
| "mode_of _ = Capturing"

definition agent_of :: "('fsm, 'opt, 'tcp, 'd) process \<Rightarrow> ('fsm, 'opt) agent" where
  "agent_of p =
     \<lparr>reg = streams_only (lp_reg (pr_loop p)), asm_mode = mode_of (pr_pc p),
      pending = pr_pending p, channel = pr_channel p, handler_running = pr_handler_running p,
      ctx_done = pr_ctx_done p, wg_count = pr_wg_count p, closed = pr_closed p,
      main_at = pr_main p, produced = lp_events (pr_loop p), handled_events = pr_handled p\<rparr>"

definition put_agent ::
  "('fsm, 'opt) agent \<Rightarrow> ('fsm, 'opt, 'tcp, 'd) process \<Rightarrow> ('fsm, 'opt, 'tcp, 'd) process" where
  "put_agent a p = p\<lparr>
     pr_pending := pending a, pr_channel := channel a, pr_handler_running := handler_running a,
     pr_ctx_done := ctx_done a, pr_wg_count := wg_count a, pr_closed := closed a,
     pr_main := main_at a, pr_handled := handled_events a\<rparr>"

text \<open>
  What a case is chosen with before gopacket makes a callback, and the choice with the
  callbacks made so far. The statistics read the length of the channel.
\<close>

fun no_callbacks_yet :: "('pkt, 'tcp) choice \<Rightarrow> bool" where
  "no_callbacks_yet (CtxDone cbs now queue goroutines) = False"
| "no_callbacks_yet (FlushTick now1 now2 cbs) = (cbs = [])"
| "no_callbacks_yet (PacketIn pkt cbs) = (cbs = [])"
| "no_callbacks_yet (PcapTick figures) = False"
| "no_callbacks_yet _ = True"

fun with_callbacks :: "('pkt, 'tcp) choice \<Rightarrow> 'tcp callback list \<Rightarrow> ('pkt, 'tcp) choice" where
  "with_callbacks (CtxDone made now queue goroutines) cbs = CtxDone (made @ cbs) now queue goroutines"
| "with_callbacks (FlushTick now1 now2 made) cbs = FlushTick now1 now2 (made @ cbs)"
| "with_callbacks (PacketIn pkt made) cbs = PacketIn pkt (made @ cbs)"
| "with_callbacks c cbs = c"

fun reads_queue :: "('pkt, 'tcp) choice \<Rightarrow> nat \<Rightarrow> bool" where
  "reads_queue (StatsTick now queue goroutines) n = (queue = n)"
| "reads_queue _ n = True"

text \<open>Whether a case calls gopacket's assembler: a flush does, a packet unless it is dropped.\<close>

definition calls_assembler ::
  "('fsm, 'opt, 'tcp, 'pkt, 'net, 'ip, 'd) loop_env \<Rightarrow> ('fsm, 'opt, 'tcp, 'd) loop_state
    \<Rightarrow> ('pkt, 'tcp) choice \<Rightarrow> bool" where
  "calls_assembler env st c =
     (case c of
        FlushTick now1 now2 cbs \<Rightarrow> True
      | PacketIn packet cbs \<Rightarrow>
          (case handle_packet (le_packets env) (le_config env) (reg_stats (lp_reg st))
                  (lp_defragger st) packet of
             Inr (Assemble net tcp ctx, s, d) \<Rightarrow> True
           | _ \<Rightarrow> False)
      | _ \<Rightarrow> False)"

text \<open>Steps are labelled with what the outside chooses.\<close>

datatype ('pkt, 'tcp) label =
  Chosen "('pkt, 'tcp) choice" | Called "'tcp callback" | Internal

text \<open>The assembler's goroutine: \<open>Start\<close>, case by case, and \<open>Stop\<close>.\<close>

inductive loop_step ::
  "('fsm, 'opt, 'tcp, 'pkt, 'net, 'ip, 'd) loop_env \<Rightarrow> ('pkt, 'tcp) label
    \<Rightarrow> ('fsm, 'opt, 'tcp, 'd) process \<Rightarrow> ('fsm, 'opt, 'tcp, 'd) process \<Rightarrow> bool"
  for env :: "('fsm, 'opt, 'tcp, 'pkt, 'net, 'ip, 'd) loop_env" where
  lp_start: "pr_pc p = Starting \<Longrightarrow> flush_ticker (le_config env) = Inr period \<Longrightarrow>
     loop_step env Internal p (p\<lparr>pr_pc := Selecting\<rparr>)"
| lp_start_panics: "pr_pc p = Starting \<Longrightarrow> flush_ticker (le_config env) = Inl e \<Longrightarrow>
     loop_step env Internal p (p\<lparr>pr_crash := Some e\<rparr>)"
| lp_select: "pr_pc p = Selecting \<Longrightarrow> no_callbacks_yet c \<Longrightarrow>
     reads_queue c (length (queued (pr_channel p))) \<Longrightarrow> select_case env c (pr_loop p) = Inr st \<Longrightarrow>
     loop_step env (Chosen c) p
       (p\<lparr>pr_loop := st, pr_pc := (if calls_assembler env (pr_loop p) c then InCall else Selecting)\<rparr>)"
| lp_select_panics: "pr_pc p = Selecting \<Longrightarrow> no_callbacks_yet c \<Longrightarrow>
     select_case env c (pr_loop p) = Inl (Panicked e) \<Longrightarrow>
     loop_step env (Chosen c) p (p\<lparr>pr_crash := Some e\<rparr>)"
| lp_cancelled: "pr_pc p = Selecting \<Longrightarrow> pr_ctx_done p \<Longrightarrow>
     loop_step env Internal p (p\<lparr>pr_loop := emit [FlushAll] (pr_loop p), pr_pc := InStop\<rparr>)"
| lp_callback: "pr_pc p \<in> {InCall, InStop} \<Longrightarrow> pr_pending p = [] \<Longrightarrow>
     make_callbacks (le_gopacket env) (le_http env) [cb] (pr_loop p) = Inr st \<Longrightarrow>
     loop_step env (Called cb) p
       (p\<lparr>pr_loop := st, pr_pending := drop (length (lp_events (pr_loop p))) (lp_events st)\<rparr>)"
| lp_callback_panics: "pr_pc p \<in> {InCall, InStop} \<Longrightarrow> pr_pending p = [] \<Longrightarrow>
     make_callbacks (le_gopacket env) (le_http env) [cb] (pr_loop p) = Inl (Panicked e) \<Longrightarrow>
     loop_step env (Called cb) p (p\<lparr>pr_crash := Some e\<rparr>)"
| lp_send: "pr_pending p = e # es \<Longrightarrow> chan_send (pr_channel p) e = Some ch \<Longrightarrow>
     loop_step env Internal p (p\<lparr>pr_pending := es, pr_channel := ch\<rparr>)"
| lp_case_done: "pr_pc p = InCall \<Longrightarrow> pr_pending p = [] \<Longrightarrow>
     loop_step env Internal p (p\<lparr>pr_pc := Selecting\<rparr>)"
| lp_stopped: "pr_pc p = InStop \<Longrightarrow> pr_pending p = [] \<Longrightarrow>
     loop_step env Internal p
       (p\<lparr>pr_loop := (emit (map Sent (Stop_outputs (le_logging env) (le_config env)
            (reg_stats (lp_reg (pr_loop p))) (startedAt env) now
            (length (queued (pr_channel p))) goroutines)) (pr_loop p))\<lparr>lp_returned := True\<rparr>,
          pr_pc := Returned, pr_wg_count := pr_wg_count p - 1\<rparr>)"

text \<open>One round of \<open>logPcapHandleStats\<close>, at any time; nobody reads the counters after the return.\<close>

definition tick :: "string + pcap_stats \<Rightarrow> ('fsm, 'opt, 'tcp, 'd) loop_state
    \<Rightarrow> ('fsm, 'opt, 'tcp, 'd) loop_state" where
  "tick figures st =
     st\<lparr>lp_reg := (lp_reg st)\<lparr>reg_stats := pcap_stats_tick (reg_stats (lp_reg st)) figures\<rparr>\<rparr>"

text \<open>The process: one goroutine takes a step, as long as none has panicked and \<open>main\<close> is alive.\<close>

inductive process_step ::
  "('fsm, 'opt, 'tcp, 'pkt, 'net, 'ip, 'd) loop_env \<Rightarrow> ('pkt, 'tcp) label
    \<Rightarrow> ('fsm, 'opt, 'tcp, 'd) process \<Rightarrow> ('fsm, 'opt, 'tcp, 'd) process \<Rightarrow> bool"
  for env :: "('fsm, 'opt, 'tcp, 'pkt, 'net, 'ip, 'd) loop_env" where
  pr_assembler: "pr_crash p = None \<Longrightarrow> pr_main p \<noteq> Exited \<Longrightarrow> loop_step env l p p' \<Longrightarrow>
     process_step env l p p'"
| pr_pcap: "pr_crash p = None \<Longrightarrow> pr_main p \<noteq> Exited \<Longrightarrow> pr_pc p \<noteq> Returned \<Longrightarrow>
     process_step env (Chosen (PcapTick figures)) p (p\<lparr>pr_loop := tick figures (pr_loop p)\<rparr>)"
| pr_handler: "pr_crash p = None \<Longrightarrow> pr_main p \<noteq> Exited \<Longrightarrow> handler_step (agent_of p) a \<Longrightarrow>
     process_step env Internal p (put_agent a p)"
| pr_shutdown: "pr_crash p = None \<Longrightarrow> main_step (agent_of p) a \<Longrightarrow>
     process_step env Internal p (put_agent a p)"
| pr_rendezvous: "pr_crash p = None \<Longrightarrow> pr_main p \<noteq> Exited \<Longrightarrow> pr_pending p = e # es \<Longrightarrow>
     capacity (pr_channel p) = 0 \<Longrightarrow> pr_handler_running p \<Longrightarrow>
     process_step env Internal p (p\<lparr>pr_pending := es, pr_handled := pr_handled p @ [e]\<rparr>)"

inductive_cases loop_stepE: "loop_step env l p p'"
inductive_cases process_stepE: "process_step env l p p'"

inductive process_run ::
  "('fsm, 'opt, 'tcp, 'pkt, 'net, 'ip, 'd) loop_env \<Rightarrow> 'd \<Rightarrow> ('pkt, 'tcp) label list
    \<Rightarrow> ('fsm, 'opt, 'tcp, 'd) process \<Rightarrow> bool"
  for env :: "('fsm, 'opt, 'tcp, 'pkt, 'net, 'ip, 'd) loop_env" and defragger :: 'd where
  process_init: "process_run env defragger [] (init_process (le_config env) defragger)"
| process_next: "process_run env defragger ls p \<Longrightarrow> process_step env l p p' \<Longrightarrow>
     process_run env defragger (ls @ [l]) p'"


lemma run_reachable:
  "process_run env defragger ls p \<Longrightarrow>
    (\<lambda>p p'. \<exists>l. process_step env l p p')\<^sup>*\<^sup>* (init_process (le_config env) defragger) p"
proof (induction rule: process_run.induct)
  case (process_next ls p l p')
  from process_next.hyps(2) have "\<exists>l. process_step env l p p'" ..
  with process_next.IH show ?case by (rule rtranclp.rtrancl_into_rtrancl)
qed simp

section \<open>Frames\<close>

lemma make_callbacks_Nil [simp]: "make_callbacks g lib [] st = Inr st"
  by (simp add: make_callbacks_def)

lemma make_callbacks_Cons:
  "make_callbacks g lib (cb # cbs) st =
     (case make_callbacks g lib [cb] st of Inl e \<Rightarrow> Inl e | Inr st \<Rightarrow> make_callbacks g lib cbs st)"
  by (simp add: make_callbacks_def split: sum.split prod.split)

lemma make_callbacks_step:
  "make_callbacks g lib [cb] st = Inr st' \<Longrightarrow>
    make_callbacks g lib (cb # cbs) st = make_callbacks g lib cbs st'"
  by (subst make_callbacks_Cons) simp

lemma emit_histories [simp]: "lp_events (emit os st) = lp_events st" "lp_made (emit os st) = lp_made st"
  by (simp_all add: emit_def)

text \<open>One callback, in the loop and in the registry.\<close>

lemma make_callbacks_single:
  "make_callbacks g lib [cb] st = Inr st' \<longleftrightarrow>
    (\<exists>es r. do_callback g lib (lp_reg st) cb = Inr (es, r) \<and>
       st' = st\<lparr>lp_reg := r, lp_made := lp_made st @ [cb], lp_events := lp_events st @ es\<rparr>)"
  by (auto simp: make_callbacks_def split: sum.split prod.split)

lemma select_head:
  assumes "select_case env c st = Inr st'" and "no_callbacks_yet c"
  shows "lp_events st' = lp_events st" "lp_made st' = lp_made st" "lp_returned st' = lp_returned st"
    "streams_only (lp_reg st') = streams_only (lp_reg st)"
proof -
  have "lp_events st' = lp_events st \<and> lp_made st' = lp_made st \<and> lp_returned st' = lp_returned st \<and>
    streams_only (lp_reg st') = streams_only (lp_reg st)"
  proof (cases c)
    case (PacketIn pkt cbs)
    with assms obtain outcome s d where h: "handle_packet (le_packets env) (le_config env)
        (reg_stats (lp_reg st)) (lp_defragger st) pkt = Inr (outcome, s, d)"
      by (auto split: sum.splits)
    from packet_counters [OF this] have "streams_only ((lp_reg st)\<lparr>reg_stats := s\<rparr>) = streams_only (lp_reg st)"
      by (simp add: streams_only_def)
    with assms PacketIn h show ?thesis by (cases outcome) (auto simp: emit_def)
  qed (use assms in \<open>auto simp: emit_def\<close>)
  then show "lp_events st' = lp_events st" "lp_made st' = lp_made st" "lp_returned st' = lp_returned st"
    "streams_only (lp_reg st') = streams_only (lp_reg st)" by simp_all
qed

lemma tick_frame [simp]:
  "lp_events (tick f st) = lp_events st" "lp_made (tick f st) = lp_made st"
  "lp_outputs (tick f st) = lp_outputs st" "lp_returned (tick f st) = lp_returned st"
  "streams_only (lp_reg (tick f st)) = streams_only (lp_reg st)"
  by (simp_all add: tick_def pcap_counters)

lemma handler_step_frame:
  "handler_step a a' \<Longrightarrow> reg a' = reg a \<and> asm_mode a' = asm_mode a \<and> produced a' = produced a \<and>
    pending a' = pending a"
  by (erule handler_stepE) simp_all

lemma main_step_frame:
  "main_step a a' \<Longrightarrow> reg a' = reg a \<and> asm_mode a' = asm_mode a \<and> produced a' = produced a \<and>
    pending a' = pending a"
  by (erule main_stepE) simp_all

lemma agent_of_simps [simp]:
  "reg (agent_of p) = streams_only (lp_reg (pr_loop p))" "asm_mode (agent_of p) = mode_of (pr_pc p)"
  "pending (agent_of p) = pr_pending p" "channel (agent_of p) = pr_channel p"
  "handler_running (agent_of p) = pr_handler_running p" "ctx_done (agent_of p) = pr_ctx_done p"
  "wg_count (agent_of p) = pr_wg_count p" "closed (agent_of p) = pr_closed p"
  "main_at (agent_of p) = pr_main p" "produced (agent_of p) = lp_events (pr_loop p)"
  "handled_events (agent_of p) = pr_handled p"
  by (simp_all add: agent_of_def)

lemma put_agent_frame [simp]:
  "pr_loop (put_agent a p) = pr_loop p" "pr_pc (put_agent a p) = pr_pc p"
  "pr_crash (put_agent a p) = pr_crash p" "pr_pending (put_agent a p) = pending a"
  "pr_main (put_agent a p) = main_at a"
  by (simp_all add: put_agent_def)

lemma agent_of_put:
  assumes "reg a = reg (agent_of p)" "asm_mode a = asm_mode (agent_of p)"
    "produced a = produced (agent_of p)"
  shows "agent_of (put_agent a p) = a"
  using assms by (intro agent.equality) (simp_all add: agent_of_def put_agent_def)

section \<open>The process refines the agent\<close>

text \<open>Outside a call, nothing is waiting to be sent.\<close>

definition pending_ok :: "('fsm, 'opt, 'tcp, 'd) process \<Rightarrow> bool" where
  "pending_ok p \<longleftrightarrow> pr_pc p \<in> {InCall, InStop} \<or> pr_pending p = []"

lemma pending_ok_step: "process_step env l p p' \<Longrightarrow> pending_ok p \<Longrightarrow> pending_ok p'"
  by (elim process_stepE loop_stepE) (auto simp: pending_ok_def dest: handler_step_frame main_step_frame)

lemma reachable_pending_ok:
  "(\<lambda>p p'. \<exists>l. process_step env l p p')\<^sup>*\<^sup>* (init_process cfg defragger) p \<Longrightarrow> pending_ok p"
proof (induction rule: rtranclp_induct)
  case base
  show ?case by (simp add: pending_ok_def init_process_def)
qed (blast intro: pending_ok_step)

lemma loop_step_agent:
  assumes "loop_step env l p p'" and "pending_ok p"
  shows "agent_of p' = agent_of p \<or>
    agent_step (le_gopacket env) (le_http env) (agent_of p) (agent_of p')"
  using assms(1)
proof cases
  case (lp_select c st)
  then have "agent_of p' = agent_of p" using select_head [OF lp_select(6,4)]
    by (simp add: agent_of_def)
  then show ?thesis ..
next
  case lp_cancelled
  with assms(2) have "agent_of p' = (agent_of p)\<lparr>asm_mode := FlushingAll\<rparr>"
    by (simp add: agent_of_def)
  moreover have "agent_step (le_gopacket env) (le_http env) (agent_of p) ((agent_of p)\<lparr>asm_mode := FlushingAll\<rparr>)"
    using assms(2) lp_cancelled by (intro assembler_cancelled) (simp_all add: pending_ok_def)
  ultimately show ?thesis by simp
next
  case (lp_callback cb st)
  then obtain es r where cb: "do_callback (le_gopacket env) (le_http env) (lp_reg (pr_loop p)) cb = Inr (es, r)"
    and st: "st = (pr_loop p)\<lparr>lp_reg := r, lp_made := lp_made (pr_loop p) @ [cb],
        lp_events := lp_events (pr_loop p) @ es\<rparr>"
    by (auto simp: make_callbacks_single)
  from do_callback_own [OF cb] have "callback_step (le_gopacket env) (le_http env) (reg (agent_of p)) cb es (streams_only r)"
    by (simp add: do_callback_step)
  then have "agent_step (le_gopacket env) (le_http env) (agent_of p)
      ((agent_of p)\<lparr>reg := streams_only r, pending := es, produced := produced (agent_of p) @ es\<rparr>)"
    using lp_callback by (intro capture) auto
  moreover have "agent_of p' = (agent_of p)\<lparr>reg := streams_only r, pending := es,
      produced := produced (agent_of p) @ es\<rparr>"
    using lp_callback(2) by (simp add: agent_of_def st)
  ultimately show ?thesis by simp
next
  case (lp_send e es ch)
  from send [of "agent_of p" e es ch "le_gopacket env" "le_http env"] lp_send
  show ?thesis by (simp add: agent_of_def)
next
  case (lp_stopped now goroutines)
  from assembler_returns [of "agent_of p" "le_gopacket env" "le_http env"] lp_stopped
  show ?thesis by (simp add: agent_of_def)
qed (simp_all add: agent_of_def)

lemma process_step_agent:
  assumes "process_step env l p p'" and "pending_ok p"
  shows "agent_of p' = agent_of p \<or>
    agent_step (le_gopacket env) (le_http env) (agent_of p) (agent_of p')"
  using assms(1)
proof cases
  case pr_assembler
  from loop_step_agent [OF pr_assembler(3) assms(2)] show ?thesis .
next
  case (pr_pcap figures)
  then have "agent_of p' = agent_of p" by (simp add: agent_of_def)
  then show ?thesis ..
next
  case (pr_handler a)
  with handler_step_frame [OF pr_handler(5)] show ?thesis
    using agent_of_put [of a p] by (auto intro: of_handler)
next
  case (pr_shutdown a)
  with main_step_frame [OF pr_shutdown(4)] show ?thesis
    using agent_of_put [of a p] by (auto intro: of_main)
next
  case (pr_rendezvous e es)
  from rendezvous [of "agent_of p" e es "le_gopacket env" "le_http env"] pr_rendezvous
  show ?thesis by (simp add: agent_of_def)
qed

interpretation process: step_refinement "init_process (le_config env) defragger"
  "\<lambda>p p'. \<exists>l. process_step env l p p'" "init_agent (le_config env)"
  "agent_step (le_gopacket env) (le_http env)" agent_of for env defragger
proof
  show "agent_of (init_process (le_config env) defragger) = init_agent (le_config env)"
    by (simp add: agent_of_def init_process_def init_loop_def init_agent_def streams_only_init)
qed (auto dest!: reachable_pending_ok process_step_agent)

lemma process_agent:
  assumes "process_run env defragger ls p"
  shows "agent_reachable (le_gopacket env) (le_http env) (le_config env) (agent_of p)"
  using reachable_steps [OF process.reachable_view [OF run_reachable [OF assms]] agent_init] .

end
