(* ===== verification/Process_Loop.thy ===== *)
theory Process_Loop
  imports Process
begin

text \<open>
  The running process computes what the function \<open>Start_assembler\<close> does, however the goroutines
  interleave: between two cases the loop's state is the function's result on the cases chosen so
  far, and a panic of the loop is the function's. When the process can crash, and what is lost.
\<close>

section \<open>The process computes the loop\<close>

text \<open>The figures of libpcap, and what callbacks and packets do, commute.\<close>

definition tick_registry :: "string + pcap_stats \<Rightarrow> ('fsm, 'opt) registry \<Rightarrow> ('fsm, 'opt) registry" where
  "tick_registry figures r = r\<lparr>reg_stats := pcap_stats_tick (reg_stats r) figures\<rparr>"

lemma tick_factory_New:
  "factory_New g f net tr (pcap_stats_tick s figures) =
     (let (st, s) = factory_New g f net tr s in (st, pcap_stats_tick s figures))"
  by (cases figures) (simp_all add: factory_New_def NewTcpStream_def IncrementStreamCount_def
      IncrementActiveStreamCount_def Let_def)

lemma tick_rejects:
  "pcap_stats_tick (s\<lparr>rejectFsm := a\<rparr>) figures = (pcap_stats_tick s figures)\<lparr>rejectFsm := a\<rparr>"
  "pcap_stats_tick (s\<lparr>rejectConnFsm := a\<rparr>) figures = (pcap_stats_tick s figures)\<lparr>rejectConnFsm := a\<rparr>"
  "pcap_stats_tick (s\<lparr>rejectOpt := a\<rparr>) figures = (pcap_stats_tick s figures)\<lparr>rejectOpt := a\<rparr>"
  "rejectFsm (pcap_stats_tick s figures) = rejectFsm s"
  "rejectConnFsm (pcap_stats_tick s figures) = rejectConnFsm s"
  "rejectOpt (pcap_stats_tick s figures) = rejectOpt s"
  by (cases figures; simp)+

lemma tick_Accept:
  "Accept g st (pcap_stats_tick s figures) tcp ci dir q start =
     (let (v, start', st', s) = Accept g st s tcp ci dir q start
      in (v, start', st', pcap_stats_tick s figures))"
proof -
  obtain fsm_ok fsm where "CheckState g (tcpstate st) tcp dir = (fsm_ok, fsm)" by fastforce
  moreover obtain opt_err opt start' where
    "OptionAccept g (optchecker st) tcp ci dir q start = (opt_err, opt, start')" by (metis prod_cases3)
  ultimately show ?thesis
    by (cases fsm_ok; cases "fsmerr st"; cases "Ignorefsmerr (stream_config st)"; cases opt_err)
      (simp_all add: Accept_def Let_def tick_rejects)
qed

lemma tick_complete:
  "ReassemblyComplete st (pcap_stats_tick s figures) =
     (let (remove, s) = ReassemblyComplete st s in (remove, pcap_stats_tick s figures))"
  by (cases figures) (simp_all add: ReassemblyComplete_def DecrementActiveStreamCount_def)

lemma tick_callback:
  "do_callback g lib (tick_registry figures r) cb =
     map_sum (\<lambda>e. e) (map_prod (\<lambda>x. x) (tick_registry figures)) (do_callback g lib r cb)"
  by (cases cb) (auto simp: tick_registry_def tick_factory_New tick_Accept tick_complete Let_def
      split: option.split prod.split sum.split)

lemma tick_callbacks:
  "do_callbacks g lib (tick_registry figures r) cbs =
     map_sum (\<lambda>e. e) (map_prod (\<lambda>x. x) (tick_registry figures)) (do_callbacks g lib r cbs)"
  by (induction cbs arbitrary: r) (auto simp: tick_callback split: sum.split prod.split)

lemma tick_alt: "tick figures st = st\<lparr>lp_reg := tick_registry figures (lp_reg st)\<rparr>"
  by (simp add: tick_def tick_registry_def)

lemma tick_make:
  "make_callbacks g lib cbs (tick figures st) =
     map_sum (\<lambda>e. e) (tick figures) (make_callbacks g lib cbs st)"
  by (auto simp: make_callbacks_def tick_callbacks tick_alt split: sum.split prod.split)

lemma tick_emit: "emit os (tick figures st) = tick figures (emit os st)"
  by (simp add: emit_def tick_def)

lemma tick_defrag:
  "defrag plib (pcap_stats_tick s figures) d pkt =
     map_sum (\<lambda>e. e) (map_prod (\<lambda>x. x) (map_prod (\<lambda>s. pcap_stats_tick s figures) (\<lambda>x. x))) (defrag plib s d pkt)"
  by (cases figures) (auto simp: defrag_def split: option.split sum.split prod.split)

lemma tick_process:
  "process_tcp plib cfg (pcap_stats_tick s figures) pkt =
     map_sum (\<lambda>e. e) (map_prod (\<lambda>x. x) (\<lambda>s. pcap_stats_tick s figures)) (process_tcp plib cfg s pkt)"
  by (cases figures) (auto simp: process_tcp_def Let_def split: option.split sum.split)

lemma tick_packet:
  "handle_packet plib cfg (pcap_stats_tick s figures) d pkt =
     map_sum (\<lambda>e. e) (map_prod (\<lambda>x. x) (map_prod (\<lambda>s. pcap_stats_tick s figures) (\<lambda>x. x))) (handle_packet plib cfg s d pkt)"
  by (auto simp: handle_packet_def tick_defrag tick_process split: sum.split prod.split)

fun is_call :: "('pkt, 'tcp) choice \<Rightarrow> bool" where
  "is_call (FlushTick now1 now2 cbs) = True"
| "is_call (PacketIn pkt cbs) = True"
| "is_call _ = False"

lemma tick_case:
  "is_call c \<Longrightarrow>
    select_case env c (tick figures st) = map_sum (\<lambda>e. e) (tick figures) (select_case env c st)"
proof (cases c)
  case (PacketIn pkt cbs)
  have commute: "(tick figures st)\<lparr>lp_reg := (lp_reg st)\<lparr>reg_stats := pcap_stats_tick s figures\<rparr>, lp_defragger := d\<rparr> =
      tick figures (st\<lparr>lp_reg := (lp_reg st)\<lparr>reg_stats := s\<rparr>, lp_defragger := d\<rparr>)" for s d
    by (simp add: tick_def)
  have fields: "lp_reg (tick figures st) =
      (lp_reg st)\<lparr>reg_stats := pcap_stats_tick (reg_stats (lp_reg st)) figures\<rparr>"
    "lp_defragger (tick figures st) = lp_defragger st"
    by (simp_all add: tick_def)
  show ?thesis unfolding PacketIn
    by (auto simp: fields tick_packet commute tick_emit tick_make Let_def
        split: sum.split prod.split packet_outcome.split)
qed (simp_all add: tick_emit tick_make)

text \<open>
  After the cases chosen so far, the loop's state is the process's; in a call, the case that is
  being executed leads from there, with whatever callbacks are still made, to the same state.
\<close>

definition in_case ::
  "('fsm, 'opt, 'tcp, 'pkt, 'net, 'ip, 'd) loop_env \<Rightarrow> ('fsm, 'opt, 'tcp, 'd) loop_state
    \<Rightarrow> ('pkt, 'tcp) choice \<Rightarrow> ('fsm, 'opt, 'tcp, 'd) loop_state \<Rightarrow> bool" where
  "in_case env st c cur \<longleftrightarrow> is_call c \<and>
     (\<forall>cbs. select_case env (with_callbacks c cbs) st =
        make_callbacks (le_gopacket env) (le_http env) cbs cur)"

definition in_stop ::
  "('fsm, 'opt, 'tcp, 'pkt, 'net, 'ip, 'd) loop_env \<Rightarrow> ('fsm, 'opt, 'tcp, 'd) loop_state
    \<Rightarrow> 'tcp callback list \<Rightarrow> ('fsm, 'opt, 'tcp, 'd) loop_state \<Rightarrow> bool" where
  "in_stop env st made cur \<longleftrightarrow>
     (\<forall>cbs. make_callbacks (le_gopacket env) (le_http env) (made @ cbs) (emit [FlushAll] st) =
        make_callbacks (le_gopacket env) (le_http env) cbs cur)"

definition computes ::
  "('fsm, 'opt, 'tcp, 'pkt, 'net, 'ip, 'd) loop_env \<Rightarrow> 'd \<Rightarrow> ('fsm, 'opt, 'tcp, 'd) process \<Rightarrow> bool" where
  "computes env defragger p \<longleftrightarrow>
     (\<exists>cs st. Start_loop env cs (init_loop (le_config env) defragger) = Inr st \<and>
        (lp_returned st \<longleftrightarrow> pr_pc p = Returned) \<and>
        (pr_pc p \<noteq> Starting \<longrightarrow> (\<exists>period. flush_ticker (le_config env) = Inr period)) \<and>
        (case pr_pc p of
           InCall \<Rightarrow> \<exists>c. in_case env st c (pr_loop p)
         | InStop \<Rightarrow> \<exists>made. in_stop env st made (pr_loop p)
         | _ \<Rightarrow> pr_loop p = st))"

definition panicked_as_computed ::
  "('fsm, 'opt, 'tcp, 'pkt, 'net, 'ip, 'd) loop_env \<Rightarrow> 'd \<Rightarrow> ('fsm, 'opt, 'tcp, 'd) process \<Rightarrow> bool" where
  "panicked_as_computed env defragger p \<longleftrightarrow>
     (\<exists>cs e. pr_crash p = Some e \<and> Start_assembler env defragger cs = Inl (Panicked e))"

lemma Start_assembler_init:
  "Start_assembler env defragger cs =
     (case flush_ticker (le_config env) of
        Inl e \<Rightarrow> Inl (Panicked e) | Inr period \<Rightarrow> Start_loop env cs (init_loop (le_config env) defragger))"
  by (simp add: Start_assembler_def init_loop_def split: sum.split)

lemma loop_append:
  "Start_loop env cs st = Inr st1 \<Longrightarrow> \<not> lp_returned st1 \<Longrightarrow>
    Start_loop env (cs @ ds) st = Start_loop env ds st1"
  by (induction cs arbitrary: st) (auto split: sum.splits if_splits)

lemma loop_snoc:
  assumes "Start_loop env cs st = Inr st1" "\<not> lp_returned st1"
  shows "Start_loop env (cs @ [c]) st = select_case env c st1"
  by (simp add: loop_append [OF assms] split: sum.split)

lemma with_no_callbacks: "with_callbacks c [] = c"
  by (cases c) simp_all

lemma with_more_callbacks: "with_callbacks (with_callbacks c xs) ys = with_callbacks c (xs @ ys)"
  by (cases c) simp_all

lemma is_call_with [simp]: "is_call (with_callbacks c cbs) = is_call c"
  by (cases c) simp_all

text \<open>A case that calls gopacket's assembler is entered with the callbacks still open.\<close>

lemma enter_case:
  assumes "select_case env c st = Inr st1" and "no_callbacks_yet c" and "calls_assembler env st c"
  shows "in_case env st c st1"
proof (cases c)
  case (PacketIn pkt cbs)
  with assms(3) obtain net tcp ctx s d where "handle_packet (le_packets env) (le_config env)
      (reg_stats (lp_reg st)) (lp_defragger st) pkt = Inr (Assemble net tcp ctx, s, d)"
    by (auto simp: calls_assembler_def split: sum.splits prod.splits packet_outcome.splits)
  with assms PacketIn show ?thesis by (simp add: in_case_def Let_def)
qed (use assms in \<open>auto simp: in_case_def calls_assembler_def\<close>)

lemma case_callback:
  assumes "in_case env st c cur" and "make_callbacks (le_gopacket env) (le_http env) [cb] cur = Inr cur'"
  shows "in_case env st (with_callbacks c [cb]) cur'"
  using assms unfolding in_case_def with_more_callbacks append_Cons append_Nil is_call_with
  by (metis make_callbacks_step)

lemma case_panics:
  assumes "in_case env st c cur" and "make_callbacks (le_gopacket env) (le_http env) [cb] cur = Inl e"
  shows "select_case env (with_callbacks c [cb]) st = Inl e"
  using assms by (simp add: in_case_def)

lemma case_done: "in_case env st c cur \<Longrightarrow> select_case env c st = Inr cur"
  using with_no_callbacks [of c] by (metis in_case_def make_callbacks_Nil)

lemma case_returned:
  assumes "in_case env st c cur"
  shows "lp_returned cur = lp_returned st"
proof -
  from assms have "is_call c" by (simp add: in_case_def)
  with case_done [OF assms] show ?thesis
    by (cases c) (auto simp: Let_def split: sum.splits packet_outcome.splits
        dest!: make_callbacks_frame(2))
qed

lemma case_tick: "in_case env st c cur \<Longrightarrow> in_case env (tick f st) c (tick f cur)"
  by (simp add: in_case_def tick_case tick_make)

lemma enter_stop: "in_stop env st [] (emit [FlushAll] st)"
  by (simp add: in_stop_def)

lemma stop_callback:
  assumes "in_stop env st made cur" and "make_callbacks (le_gopacket env) (le_http env) [cb] cur = Inr cur'"
  shows "in_stop env st (made @ [cb]) cur'"
  using assms unfolding in_stop_def append_assoc append_Cons append_Nil
  by (metis make_callbacks_step)

lemma stop_panics:
  assumes "in_stop env st made cur" and "make_callbacks (le_gopacket env) (le_http env) [cb] cur = Inl e"
  shows "select_case env (CtxDone (made @ [cb]) now q n) st = Inl e"
  using assms by (simp add: in_stop_def Stop_def)

lemma stop_done:
  assumes "in_stop env st made cur"
  shows "select_case env (CtxDone made now q n) st =
    Inr ((emit (map Sent (Stop_outputs (le_logging env) (le_config env) (reg_stats (lp_reg cur))
       (startedAt env) now q n)) cur)\<lparr>lp_returned := True\<rparr>)"
  using assms [unfolded in_stop_def, rule_format, of "[]"] by (simp add: Stop_def)

lemma stop_tick: "in_stop env st made cur \<Longrightarrow> in_stop env (tick f st) made (tick f cur)"
  by (simp add: in_stop_def tick_emit tick_make)

lemma computes_intro:
  assumes "Start_loop env cs (init_loop (le_config env) defragger) = Inr st"
    and "lp_returned st \<longleftrightarrow> pr_pc p = Returned"
    and "flush_ticker (le_config env) = Inr period"
    and "case pr_pc p of InCall \<Rightarrow> \<exists>c. in_case env st c (pr_loop p)
      | InStop \<Rightarrow> \<exists>made. in_stop env st made (pr_loop p) | _ \<Rightarrow> pr_loop p = st"
  shows "computes env defragger p"
  using assms unfolding computes_def by blast

lemma panicked_intro:
  assumes "Start_loop env cs (init_loop (le_config env) defragger) = Inl (Panicked e)"
    and "flush_ticker (le_config env) = Inr period" and "pr_crash p = Some e"
  shows "panicked_as_computed env defragger p"
  using assms unfolding panicked_as_computed_def by (auto simp: Start_assembler_init)

text \<open>What only the loop's state and place decide.\<close>

lemma computes_cong:
  "pr_loop p' = pr_loop p \<Longrightarrow> pr_pc p' = pr_pc p \<Longrightarrow> computes env defragger p' = computes env defragger p"
  unfolding computes_def by (cases "pr_pc p") simp_all

lemma computesE:
  assumes "computes env defragger p" and "pr_pc p \<in> {Selecting, InCall, InStop}"
  obtains cs st period where
    "Start_loop env cs (init_loop (le_config env) defragger) = Inr st" "\<not> lp_returned st"
    "flush_ticker (le_config env) = Inr period"
    "\<And>c. Start_loop env (cs @ [c]) (init_loop (le_config env) defragger) = select_case env c st"
    "case pr_pc p of InCall \<Rightarrow> \<exists>c. in_case env st c (pr_loop p)
      | InStop \<Rightarrow> \<exists>made. in_stop env st made (pr_loop p) | _ \<Rightarrow> pr_loop p = st"
proof -
  from assms obtain cs st where run: "Start_loop env cs (init_loop (le_config env) defragger) = Inr st"
    and "\<not> lp_returned st" "\<exists>period. flush_ticker (le_config env) = Inr period"
    and "case pr_pc p of InCall \<Rightarrow> \<exists>c. in_case env st c (pr_loop p)
      | InStop \<Rightarrow> \<exists>made. in_stop env st made (pr_loop p) | _ \<Rightarrow> pr_loop p = st"
    unfolding computes_def by auto
  with loop_snoc [OF run] show thesis by (blast intro: that)
qed

lemma select_computes:
  assumes "pr_pc p = Selecting" and "computes env defragger p"
  shows "no_callbacks_yet c \<Longrightarrow> select_case env c (pr_loop p) = Inr st' \<Longrightarrow>
      computes env defragger (p\<lparr>pr_loop := st',
        pr_pc := (if calls_assembler env (pr_loop p) c then InCall else Selecting)\<rparr>)"
    and "select_case env c (pr_loop p) = Inl (Panicked e) \<Longrightarrow>
      panicked_as_computed env defragger (p\<lparr>pr_crash := Some e\<rparr>)"
    and "computes env defragger (p\<lparr>pr_loop := emit [FlushAll] (pr_loop p), pr_pc := InStop\<rparr>)"
proof -
  from assms obtain cs period where
    run: "Start_loop env cs (init_loop (le_config env) defragger) = Inr (pr_loop p)"
    and ret: "\<not> lp_returned (pr_loop p)" and period: "flush_ticker (le_config env) = Inr period"
    and snoc: "\<And>c. Start_loop env (cs @ [c]) (init_loop (le_config env) defragger) =
      select_case env c (pr_loop p)"
    by (auto elim: computesE)
  show "computes env defragger (p\<lparr>pr_loop := st',
        pr_pc := (if calls_assembler env (pr_loop p) c then InCall else Selecting)\<rparr>)"
    if "no_callbacks_yet c" and sel: "select_case env c (pr_loop p) = Inr st'"
  proof (cases "calls_assembler env (pr_loop p) c")
    case True
    with that ret show ?thesis
      by (intro computes_intro [OF run _ period]) (auto intro: enter_case)
  next
    case False
    have "Start_loop env (cs @ [c]) (init_loop (le_config env) defragger) = Inr st'"
      using snoc sel by simp
    from computes_intro [OF this _ period] False ret select_head(3) [OF sel that(1)]
    show ?thesis by simp
  qed
  show "panicked_as_computed env defragger (p\<lparr>pr_crash := Some e\<rparr>)"
    if "select_case env c (pr_loop p) = Inl (Panicked e)"
    using snoc that by (intro panicked_intro [OF _ period, of "cs @ [c]"]) simp_all
  show "computes env defragger (p\<lparr>pr_loop := emit [FlushAll] (pr_loop p), pr_pc := InStop\<rparr>)"
    using ret enter_stop [of env "pr_loop p"] by (intro computes_intro [OF run _ period]) auto
qed

lemma callback_computes:
  assumes "pr_pc p \<in> {InCall, InStop}" and "computes env defragger p"
  shows "make_callbacks (le_gopacket env) (le_http env) [cb] (pr_loop p) = Inr st' \<Longrightarrow>
      computes env defragger (p\<lparr>pr_loop := st', pr_pending := es\<rparr>)"
    and "make_callbacks (le_gopacket env) (le_http env) [cb] (pr_loop p) = Inl (Panicked e) \<Longrightarrow>
      panicked_as_computed env defragger (p\<lparr>pr_crash := Some e\<rparr>)"
proof -
  from assms obtain cs st period where
    run: "Start_loop env cs (init_loop (le_config env) defragger) = Inr st"
    and ret: "\<not> lp_returned st" and period: "flush_ticker (le_config env) = Inr period"
    and snoc: "\<And>c. Start_loop env (cs @ [c]) (init_loop (le_config env) defragger) = select_case env c st"
    and at: "case pr_pc p of InCall \<Rightarrow> \<exists>c. in_case env st c (pr_loop p)
      | InStop \<Rightarrow> \<exists>made. in_stop env st made (pr_loop p) | _ \<Rightarrow> pr_loop p = st"
    by (auto elim: computesE)
  show "computes env defragger (p\<lparr>pr_loop := st', pr_pending := es\<rparr>)"
    if "make_callbacks (le_gopacket env) (le_http env) [cb] (pr_loop p) = Inr st'"
  proof -
    note step = case_callback [OF _ that] stop_callback [OF _ that]
    have "case pr_pc p of InCall \<Rightarrow> \<exists>c. in_case env st c st'
      | InStop \<Rightarrow> \<exists>made. in_stop env st made st' | _ \<Rightarrow> st' = st"
      using assms(1) at step by (elim insertE) (simp, blast, simp, blast, simp)
    with assms(1) ret show ?thesis by (intro computes_intro [OF run _ period]) auto
  qed
  show "panicked_as_computed env defragger (p\<lparr>pr_crash := Some e\<rparr>)"
    if "make_callbacks (le_gopacket env) (le_http env) [cb] (pr_loop p) = Inl (Panicked e)"
  proof -
    have "\<exists>c. select_case env c st = Inl (Panicked e)"
    proof (cases "pr_pc p = InCall")
      case True
      with at case_panics [OF _ that] show ?thesis by (simp, blast)
    next
      case False
      with assms(1) at obtain made where "in_stop env st made (pr_loop p)" by auto
      from stop_panics [OF this that] show ?thesis by blast
    qed
    then obtain c where "select_case env c st = Inl (Panicked e)" ..
    with snoc show ?thesis by (intro panicked_intro [OF _ period, of "cs @ [c]"]) simp_all
  qed
qed

lemma done_computes:
  assumes "computes env defragger p"
  shows "pr_pc p = InCall \<Longrightarrow> computes env defragger (p\<lparr>pr_pc := Selecting\<rparr>)"
    and "pr_pc p = InStop \<Longrightarrow> computes env defragger (p\<lparr>
      pr_loop := (emit (map Sent (Stop_outputs (le_logging env) (le_config env)
        (reg_stats (lp_reg (pr_loop p))) (startedAt env) now q n)) (pr_loop p))\<lparr>lp_returned := True\<rparr>,
      pr_pc := Returned, pr_wg_count := w\<rparr>)"
proof -
  show "computes env defragger (p\<lparr>pr_pc := Selecting\<rparr>)" if call: "pr_pc p = InCall"
  proof -
    obtain cs st period where "\<not> lp_returned st"
      and period: "flush_ticker (le_config env) = Inr period"
      and snoc: "\<And>c. Start_loop env (cs @ [c]) (init_loop (le_config env) defragger) = select_case env c st"
      and "\<exists>c. in_case env st c (pr_loop p)"
      by (rule computesE [OF assms]) (use call in auto)
    moreover from this obtain c where c: "in_case env st c (pr_loop p)" by blast
    moreover have "lp_returned (pr_loop p) = lp_returned st"
      using c by (rule case_returned)
    ultimately show ?thesis
      using case_done [OF c] by (intro computes_intro [OF _ _ period, of "cs @ [c]"]) auto
  qed
  show "computes env defragger (p\<lparr>
      pr_loop := (emit (map Sent (Stop_outputs (le_logging env) (le_config env)
        (reg_stats (lp_reg (pr_loop p))) (startedAt env) now q n)) (pr_loop p))\<lparr>lp_returned := True\<rparr>,
      pr_pc := Returned, pr_wg_count := w\<rparr>)" if stop: "pr_pc p = InStop"
  proof -
    obtain cs st period where period: "flush_ticker (le_config env) = Inr period"
      and snoc: "\<And>c. Start_loop env (cs @ [c]) (init_loop (le_config env) defragger) = select_case env c st"
      and "\<exists>made. in_stop env st made (pr_loop p)"
      by (rule computesE [OF assms]) (use stop in auto)
    moreover from this obtain made where c: "in_stop env st made (pr_loop p)" by blast
    ultimately show ?thesis using stop_done [OF c, of now q n]
      by (intro computes_intro [OF _ _ period, of "cs @ [CtxDone made now q n]"]) auto
  qed
qed

lemma loop_step_computes:
  assumes "loop_step env l p p'" and "computes env defragger p" and "pr_crash p = None"
  shows "if pr_crash p' = None then computes env defragger p' else panicked_as_computed env defragger p'"
  using assms(1)
proof cases
  case (lp_start period)
  from assms(2) lp_start(3) obtain cs st where
    "Start_loop env cs (init_loop (le_config env) defragger) = Inr st" "\<not> lp_returned st" "pr_loop p = st"
    unfolding computes_def by auto
  then have "computes env defragger p'"
    using lp_start by (intro computes_intro [OF _ _ lp_start(4)]) auto
  with lp_start assms(3) show ?thesis by simp
next
  case (lp_start_panics e)
  then have "Start_assembler env defragger [] = Inl (Panicked e)" by (simp add: Start_assembler_init)
  with lp_start_panics show ?thesis by (auto simp: panicked_as_computed_def)
next
  case (lp_send e es ch)
  then have "computes env defragger p'" using computes_cong [of p' p env defragger] assms(2) by simp
  with lp_send assms(3) show ?thesis by simp
next
  case lp_select
  with select_computes(1) [OF _ assms(2)] assms(3) show ?thesis by simp
next
  case lp_select_panics
  with select_computes(2) [OF _ assms(2)] show ?thesis by simp
next
  case lp_cancelled
  with select_computes(3) [OF _ assms(2)] assms(3) show ?thesis by simp
next
  case lp_callback
  with callback_computes(1) [OF _ assms(2)] assms(3) show ?thesis by simp
next
  case lp_callback_panics
  with callback_computes(2) [OF _ assms(2)] show ?thesis by simp
next
  case lp_case_done
  with done_computes(1) [OF assms(2)] assms(3) show ?thesis by simp
next
  case lp_stopped
  with done_computes(2) [OF assms(2)] assms(3) show ?thesis by simp
qed

lemma tick_computes:
  assumes "computes env defragger p" and "pr_pc p \<noteq> Returned"
  shows "computes env defragger (p\<lparr>pr_loop := tick figures (pr_loop p)\<rparr>)"
proof -
  from assms obtain cs st where
    run: "Start_loop env cs (init_loop (le_config env) defragger) = Inr st" and ret: "\<not> lp_returned st"
    and ticker: "pr_pc p \<noteq> Starting \<longrightarrow> (\<exists>period. flush_ticker (le_config env) = Inr period)"
    and at: "case pr_pc p of InCall \<Rightarrow> \<exists>c. in_case env st c (pr_loop p)
      | InStop \<Rightarrow> \<exists>made. in_stop env st made (pr_loop p) | _ \<Rightarrow> pr_loop p = st"
    unfolding computes_def by auto
  from loop_snoc [OF run ret, of "PcapTick figures"]
  have "Start_loop env (cs @ [PcapTick figures]) (init_loop (le_config env) defragger) = Inr (tick figures st)"
    by (simp add: tick_def)
  moreover have "case pr_pc p of InCall \<Rightarrow> \<exists>c. in_case env (tick figures st) c (tick figures (pr_loop p))
      | InStop \<Rightarrow> \<exists>made. in_stop env (tick figures st) made (tick figures (pr_loop p))
      | _ \<Rightarrow> tick figures (pr_loop p) = tick figures st"
    using at by (cases "pr_pc p") (auto intro: case_tick stop_tick)
  ultimately show ?thesis
    using ret ticker assms(2) unfolding computes_def
    by (intro exI [of _ "cs @ [PcapTick figures]"] exI [of _ "tick figures st"]) (cases "pr_pc p"; simp)
qed

definition as_computed ::
  "('fsm, 'opt, 'tcp, 'pkt, 'net, 'ip, 'd) loop_env \<Rightarrow> 'd \<Rightarrow> ('fsm, 'opt, 'tcp, 'd) process \<Rightarrow> bool" where
  "as_computed env defragger p \<longleftrightarrow>
     (if pr_crash p = None then computes env defragger p else panicked_as_computed env defragger p)"

lemma run_as_computed: "process_run env defragger ls p \<Longrightarrow> as_computed env defragger p"
proof (induction rule: process_run.induct)
  case process_init
  have "computes env defragger (init_process (le_config env) defragger)"
    unfolding computes_def
    by (intro exI [of _ "[]"] exI [of _ "init_loop (le_config env) defragger"])
      (simp add: init_process_def init_loop_def)
  then show ?case by (simp add: as_computed_def init_process_def)
next
  case (process_next ls p l p')
  from process_next.hyps(2) show ?case
  proof cases
    case pr_assembler
    with process_next.IH loop_step_computes [OF pr_assembler(3)] show ?thesis
      by (simp add: as_computed_def)
  next
    case pr_pcap
    with process_next.IH show ?thesis by (simp add: as_computed_def tick_computes)
  next
    case (pr_handler a)
    with process_next.IH computes_cong [of "put_agent a p" p env defragger] show ?thesis
      by (simp add: as_computed_def)
  next
    case (pr_shutdown a)
    with process_next.IH computes_cong [of "put_agent a p" p env defragger] show ?thesis
      by (simp add: as_computed_def)
  next
    case (pr_rendezvous e es)
    with process_next.IH computes_cong [of p' p env defragger] show ?thesis
      by (simp add: as_computed_def)
  qed
qed

lemma loop_result_outputs:
  assumes "Start_assembler env defragger choices = Inr st"
  shows "loop_outputs env st"
proof -
  have "loop_outputs env (init_loop (le_config env) defragger)"
    by (simp add: loop_outputs_def init_loop_def init_registry_def zero_stats_def)
  moreover have "Start_loop env choices (init_loop (le_config env) defragger) = Inr st"
    using assms by (simp add: Start_assembler_init split: sum.splits)
  ultimately show ?thesis using loop_stops [of env choices _ st] by (simp add: init_loop_def)
qed

section \<open>Crashes\<close>

text \<open>A goroutine takes its steps while the process is alive.\<close>

definition alive :: "('fsm, 'opt, 'tcp, 'd) process \<Rightarrow> bool" where
  "alive p \<longleftrightarrow> pr_crash p = None \<and> pr_main p \<noteq> Exited"

text \<open>Step by step, the callbacks get the loop's own contexts.\<close>

fun own_label :: "('pkt, 'tcp) label \<Rightarrow> bool" where
  "own_label (Chosen c) = own_contexts c"
| "own_label (Called cb) = own_context cb"
| "own_label Internal = True"

text \<open>The step that crashes: the goroutine's start, or a case of its select.\<close>

lemma selected_panics:
  assumes "own_contexts c" and "loop_step env (Chosen c) p p'" and "pr_crash p = None"
  shows "pr_crash p' \<noteq> None \<longleftrightarrow> fatal_choice env (lp_defragger (pr_loop p)) c"
  using assms(2)
proof cases
  case (lp_select st)
  then show ?thesis using choice_panics [OF assms(1), of env "pr_loop p"] assms(3) by simp
next
  case (lp_select_panics e)
  then show ?thesis using choice_panics [OF assms(1), of env "pr_loop p"] by auto
qed

lemma started_panics:
  assumes "loop_step env l p p'" and "pr_crash p = None" and "pr_pc p = Starting" and "pr_pending p = []"
  shows "pr_crash p' \<noteq> None \<longleftrightarrow> StreamFlushTimeout (le_config env) < 4"
  using assms(1)
proof cases
  case (lp_start period)
  with flush_ticker_small [of "le_config env"] assms(2) show ?thesis by auto
next
  case (lp_start_panics e)
  with flush_ticker_positive [of "le_config env"] have "\<not> 4 \<le> StreamFlushTimeout (le_config env)" by auto
  with lp_start_panics show ?thesis by simp
qed (use assms(3,4) in auto)

lemma crashing_step:
  assumes "process_step env l p p'" and "pr_crash p' \<noteq> None" and "own_label l"
  shows "alive p" and "loop_step env l p p'" and "pr_pc p = Starting \<or> pr_pc p = Selecting \<and> (\<exists>c. l = Chosen c)"
proof -
  have loop: "alive p \<and> loop_step env l p p'"
    using assms(1,2) by cases (simp_all add: alive_def)
  then show "alive p" and step: "loop_step env l p p'" by simp_all
  from loop have "pr_crash p = None" by (simp add: alive_def)
  from step show "pr_pc p = Starting \<or> pr_pc p = Selecting \<and> (\<exists>c. l = Chosen c)"
  proof cases
    case (lp_callback_panics cb e)
    with assms(3) safe_make [of "[cb]" "le_gopacket env" "le_http env" "pr_loop p" e] show ?thesis by simp
  qed (use assms(2) \<open>pr_crash p = None\<close> in simp_all)
qed

text \<open>A process that has crashed does nothing more, and had not finished its assembler.\<close>

definition crash_inv :: "('fsm, 'opt, 'tcp, 'd) process \<Rightarrow> bool" where
  "crash_inv p \<longleftrightarrow> pr_crash p = None \<or> pr_pc p \<noteq> Returned"

lemma crash_inv_step: "process_step env l p p' \<Longrightarrow> crash_inv p \<Longrightarrow> crash_inv p'"
  by (elim process_stepE loop_stepE) (auto simp: crash_inv_def)

lemma run_crash_inv: "process_run env defragger ls p \<Longrightarrow> crash_inv p"
proof (induction rule: process_run.induct)
  case process_init
  show ?case by (simp add: crash_inv_def init_process_def)
qed (blast intro: crash_inv_step)

lemma crashed_stops: "pr_crash p \<noteq> None \<Longrightarrow> \<not> process_step env l p p'"
  by (auto elim: process_stepE)

section \<open>A sample run\<close>

lemma run_assembler:
  "process_run env defragger ls p \<Longrightarrow> alive p \<Longrightarrow> loop_step env l p p' \<Longrightarrow>
    process_run env defragger (ls @ [l]) p'"
  by (auto simp: alive_def intro: process_next pr_assembler)

definition fresh_agent :: "('fsm, 'opt) agent \<Rightarrow> bool" where
  "fresh_agent a \<longleftrightarrow> handler_running a \<and> \<not> ctx_done a \<and> main_at a = Serving \<and> wg_count a = 2"

lemma run_callback:
  assumes "process_run env defragger ls p" and "alive p" and "pr_pc p = InCall" "pr_pending p = []"
    and "callback_step (le_gopacket env) (le_http env) (lp_reg (pr_loop p)) cb es r"
  shows "\<exists>p'. process_run env defragger (ls @ [Called cb]) p' \<and> alive p' \<and> pr_pc p' = InCall \<and>
    pr_pending p' = es \<and> lp_reg (pr_loop p') = r \<and> pr_channel p' = pr_channel p \<and>
    fresh_agent (agent_of p') = fresh_agent (agent_of p)"
proof -
  let ?st = "(pr_loop p)\<lparr>lp_reg := r, lp_made := lp_made (pr_loop p) @ [cb],
    lp_events := lp_events (pr_loop p) @ es\<rparr>"
  let ?p = "p\<lparr>pr_loop := ?st, pr_pending := drop (length (lp_events (pr_loop p))) (lp_events ?st)\<rparr>"
  have "make_callbacks (le_gopacket env) (le_http env) [cb] (pr_loop p) = Inr ?st"
    using assms(5) by (simp add: make_callbacks_single do_callback_step)
  then have "loop_step env (Called cb) p ?p"
    using assms(3,4) by (intro lp_callback) auto
  from run_assembler [OF assms(1,2) this] assms(2,3) show ?thesis
    by (intro exI [of _ ?p]) (simp add: alive_def fresh_agent_def)
qed

text \<open>The loop has started, received a packet and handed it to gopacket.\<close>

lemma sample_opening:
  "\<exists>p :: (unit, unit, unit, unit) process.
     process_run sample_loop () [Internal, Chosen (PacketIn ''a'' [])] p \<and> alive p \<and>
     pr_pc p = InCall \<and> pr_pending p = [] \<and> streams (lp_reg (pr_loop p)) = Map.empty \<and>
     reg_factory (lp_reg (pr_loop p)) = reg_factory (init_registry (NewConfig Map.empty) :: (unit, unit) registry) \<and>
     pr_channel p = make_chan 1000 \<and> fresh_agent (agent_of p)"
proof -
  have cfg: "le_config sample_loop = NewConfig Map.empty" by (simp add: sample_loop_def)
  obtain period where period: "flush_ticker (NewConfig Map.empty) = Inr period"
    using flush_ticker_default by blast
  let ?p = "init_process (NewConfig Map.empty) () :: (unit, unit, unit, unit) process"
  let ?p1 = "?p\<lparr>pr_pc := Selecting\<rparr>"
  have "process_run sample_loop () [] ?p" using process_init [of sample_loop "()"] cfg by simp
  moreover have "alive ?p" by (simp add: alive_def init_process_def)
  moreover have "loop_step sample_loop Internal ?p ?p1"
    using period cfg by (intro lp_start [of _ _ period]) (simp_all add: init_process_def)
  ultimately have r1: "process_run sample_loop () [Internal] ?p1" "alive ?p1"
    using run_assembler [of sample_loop "()" "[]" ?p Internal ?p1] by (simp_all add: alive_def)
  let ?s = "reg_stats (lp_reg (pr_loop ?p1))"
  let ?ctx = "\<lparr>CaptureInfo = \<lparr>Timestamp = 1\<rparr>, seq = 100, ack = 200\<rparr>"
  let ?st = "emit [AssembleWithContext sample_flow () ?ctx] ((pr_loop ?p1)\<lparr>lp_reg :=
      (lp_reg (pr_loop ?p1))\<lparr>reg_stats := ?s\<lparr>totalsz := totalsz ?s + 4\<rparr>\<rparr>, lp_defragger := ()\<rparr>)"
  have sel: "select_case sample_loop (PacketIn ''a'' []) (pr_loop ?p1) = Inr ?st"
    using sample_packet [of _ ?s "''a''"] cfg by simp
  have calls: "calls_assembler sample_loop (pr_loop ?p1) (PacketIn ''a'' [])"
    using sample_packet [of _ ?s "''a''"] cfg by (simp add: calls_assembler_def)
  let ?p2 = "?p1\<lparr>pr_loop := ?st, pr_pc := InCall\<rparr>"
  have "loop_step sample_loop (Chosen (PacketIn ''a'' [])) ?p1 ?p2"
    using lp_select [of ?p1 "PacketIn ''a'' []" sample_loop ?st] sel calls by simp
  from run_assembler [OF r1 this] r1(2) show ?thesis
    by (intro exI [of _ ?p2]) (simp add: alive_def init_process_def init_loop_def init_registry_def
      NewConfig_def fresh_agent_def)
qed

lemma sample_loop_fields:
  "le_gopacket sample_loop = sample_gopacket" "le_http sample_loop = sample_http"
  "le_config sample_loop = NewConfig Map.empty"
  by (simp_all add: sample_loop_def)

text \<open>An event is on the channel, and the loop is back at its select.\<close>

lemma sample_queued:
  "\<exists>ls (p :: (unit, unit, unit, unit) process). process_run sample_loop () ls p \<and> list_all own_label ls \<and>
     alive p \<and> pr_pc p = Selecting \<and> length (queued (pr_channel p)) = 1 \<and> fresh_agent (agent_of p)"
proof -
  obtain p0 :: "(unit, unit, unit, unit) process" where
    p0: "process_run sample_loop () [Internal, Chosen (PacketIn ''a'' [])] p0" "alive p0"
      "pr_pc p0 = InCall" "pr_pending p0 = []" "streams (lp_reg (pr_loop p0)) = Map.empty"
      "pr_channel p0 = make_chan 1000" "fresh_agent (agent_of p0)"
    using sample_opening by blast
  let ?r = "lp_reg (pr_loop p0)"
  obtain st s where st: "factory_New sample_gopacket (reg_factory ?r) sample_flow sample_flow (reg_stats ?r) = (st, s)"
    by fastforce
  obtain pa where parser: "parsers st = [pa]" "messages (matcher pa) 0 = None"
    using factory_New_stats(5) [OF st] by auto
  let ?r1 = "?r\<lparr>reg_stats := s, streams := (streams ?r)(0 \<mapsto> st)\<rparr>"
  have "callback_step sample_gopacket sample_http ?r (CbNew 0 sample_flow sample_flow) [] ?r1"
    using st p0(5) by (intro cb_new) simp_all
  from run_callback [OF p0(1-4), unfolded sample_loop_fields, OF this] obtain p1 where
    p1: "process_run sample_loop () [Internal, Chosen (PacketIn ''a'' []), Called (CbNew 0 sample_flow sample_flow)] p1"
      "alive p1" "pr_pc p1 = InCall" "pr_pending p1 = []" "lp_reg (pr_loop p1) = ?r1"
      "pr_channel p1 = make_chan 1000" "fresh_agent (agent_of p1)"
    using p0(6,7) by auto
  let ?cb = "CbReassembledSG 0 (payload_of ''GET '') (OwnContext context_0) :: unit callback"
  obtain r2 r3 st' p' h where r2: "callback_step sample_gopacket sample_http ?r1 ?cb [] r2"
      "callback_step sample_gopacket sample_http r2 ?cb [EvHttp h] r3"
    using two_requests [OF sample_reads, of ?r1 st pa sample_gopacket] parser by auto
  from run_callback [OF p1(1-4), unfolded sample_loop_fields p1(5), OF r2(1)] obtain p2 where
    p2: "process_run sample_loop () [Internal, Chosen (PacketIn ''a'' []),
        Called (CbNew 0 sample_flow sample_flow), Called ?cb] p2"
      "alive p2" "pr_pc p2 = InCall" "pr_pending p2 = []" "lp_reg (pr_loop p2) = r2"
      "pr_channel p2 = make_chan 1000" "fresh_agent (agent_of p2)"
    using p1(6,7) by auto
  from run_callback [OF p2(1-4), unfolded sample_loop_fields p2(5), OF r2(2)] obtain p3 where
    p3: "process_run sample_loop () [Internal, Chosen (PacketIn ''a'' []),
        Called (CbNew 0 sample_flow sample_flow), Called ?cb, Called ?cb] p3"
      "alive p3" "pr_pc p3 = InCall" "pr_pending p3 = [EvHttp h]"
      "pr_channel p3 = make_chan 1000" "fresh_agent (agent_of p3)"
    using p2(6,7) by auto
  let ?ch = "(make_chan 1000)\<lparr>queued := [EvHttp h]\<rparr>"
  let ?p4 = "p3\<lparr>pr_pending := [], pr_channel := ?ch\<rparr>" and ?p5 = "p3\<lparr>pr_pending := [], pr_channel := ?ch, pr_pc := Selecting\<rparr>"
  have "loop_step sample_loop Internal p3 ?p4"
    using p3 by (intro lp_send) (simp_all add: chan_send_def make_chan_def)
  from run_assembler [OF p3(1,2) this] p3(2)
  have p4: "process_run sample_loop () [Internal, Chosen (PacketIn ''a'' []),
      Called (CbNew 0 sample_flow sample_flow), Called ?cb, Called ?cb, Internal] ?p4" "alive ?p4"
    by (simp_all add: alive_def)
  have "loop_step sample_loop Internal ?p4 ?p5"
    using lp_case_done [of ?p4 sample_loop] p3(3) by simp
  from run_assembler [OF p4 this] p3(2,6) show ?thesis
    by (intro exI [of _ "[Internal, Chosen (PacketIn ''a'' []),
      Called (CbNew 0 sample_flow sample_flow), Called ?cb, Called ?cb, Internal, Internal]"]
      exI [of _ ?p5]) (simp add: alive_def fresh_agent_def make_chan_def)
qed

lemma run_main:
  "process_run env defragger ls p \<Longrightarrow> pr_crash p = None \<Longrightarrow> main_step (agent_of p) a \<Longrightarrow>
    process_run env defragger (ls @ [Internal]) (put_agent a p)"
  by (auto intro: process_next pr_shutdown)

lemma run_handler:
  "process_run env defragger ls p \<Longrightarrow> alive p \<Longrightarrow> handler_step (agent_of p) a \<Longrightarrow>
    process_run env defragger (ls @ [Internal]) (put_agent a p)"
  by (auto simp: alive_def intro: process_next pr_handler)

text \<open>From the select, a signal can lead straight to the exit.\<close>

lemma run_to_exit:
  fixes p :: "('fsm, 'opt, 'tcp, 'd) process"
  assumes run: "process_run env defragger ls p" and "alive p" "pr_pc p = Selecting"
    and fresh: "fresh_agent (agent_of p)" and "pr_pending p = []"
  shows "\<exists>ls' p'. process_run env defragger (ls @ ls') p' \<and> list_all own_label ls' \<and>
    pr_main p' = Exited \<and> pr_channel p' = pr_channel p"
proof -
  let ?a = "agent_of p" and ?I = "Internal"
  from fresh have at: "pr_handler_running p" "\<not> pr_ctx_done p" "pr_main p = Serving" "pr_wg_count p = 2"
    by (simp_all add: fresh_agent_def)
  let ?p1 = "put_agent (?a\<lparr>ctx_done := True, main_at := WaitingForServices\<rparr>) p"
  have r1: "process_run env defragger (ls @ [?I]) ?p1"
    using assms(2) at by (intro run_main [OF run] main_signal) (simp_all add: alive_def)
  let ?p2 = "?p1\<lparr>pr_loop := emit [FlushAll] (pr_loop ?p1), pr_pc := InStop\<rparr>"
  have r2: "process_run env defragger ((ls @ [?I]) @ [?I]) ?p2"
    using assms(2,3) by (intro run_assembler [OF r1] lp_cancelled) (simp_all add: alive_def put_agent_def)
  obtain os where r3: "process_run env defragger (((ls @ [?I]) @ [?I]) @ [?I])
      (?p2\<lparr>pr_loop := (emit os (pr_loop ?p2))\<lparr>lp_returned := True\<rparr>, pr_pc := Returned,
         pr_wg_count := pr_wg_count ?p2 - 1\<rparr>)"
    using run_assembler [OF r2 _ lp_stopped [of ?p2 env undefined undefined]] assms(2,5)
    by (auto simp: alive_def put_agent_def)
  let ?p3 = "?p2\<lparr>pr_loop := (emit os (pr_loop ?p2))\<lparr>lp_returned := True\<rparr>, pr_pc := Returned,
         pr_wg_count := pr_wg_count ?p2 - 1\<rparr>"
  let ?p4 = "put_agent ((agent_of ?p3)\<lparr>handler_running := False, wg_count := wg_count (agent_of ?p3) - 1\<rparr>) ?p3"
  have r4: "process_run env defragger ((((ls @ [?I]) @ [?I]) @ [?I]) @ [?I]) ?p4"
    using assms(2) at by (intro run_handler [OF r3] hdl_returns) (simp_all add: alive_def put_agent_def)
  let ?p5 = "put_agent ((agent_of ?p4)\<lparr>main_at := ClosingHandler\<rparr>) ?p4"
  have r5: "process_run env defragger (((((ls @ [?I]) @ [?I]) @ [?I]) @ [?I]) @ [?I]) ?p5"
    using assms(2) at by (intro run_main [OF r4] main_wait) (simp_all add: alive_def put_agent_def)
  let ?p6 = "put_agent ((agent_of ?p5)\<lparr>closed := True, main_at := SignallingExit\<rparr>) ?p5"
  have r6: "process_run env defragger ((((((ls @ [?I]) @ [?I]) @ [?I]) @ [?I]) @ [?I]) @ [?I]) ?p6"
    using assms(2) by (intro run_main [OF r5] main_close) (simp_all add: alive_def put_agent_def)
  let ?p7 = "put_agent ((agent_of ?p6)\<lparr>main_at := Exited\<rparr>) ?p6"
  have "process_run env defragger (((((((ls @ [?I]) @ [?I]) @ [?I]) @ [?I]) @ [?I]) @ [?I]) @ [?I]) ?p7"
    using assms(2) by (intro run_main [OF r6] main_exit) (simp_all add: alive_def put_agent_def)
  moreover have "pr_main ?p7 = Exited" "pr_channel ?p7 = pr_channel p" by (simp_all add: put_agent_def)
  ultimately show ?thesis
    by (intro exI [of _ "replicate 7 Internal"] exI [of _ ?p7]) (simp add: numeral_eq_Suc)
qed

lemma sample_exited:
  "\<exists>ls (p :: (unit, unit, unit, unit) process). process_run sample_loop () ls p \<and>
     pr_main p = Exited \<and> length (queued (pr_channel p)) = 1"
proof -
  obtain ls and p :: "(unit, unit, unit, unit) process" where
    p: "process_run sample_loop () ls p" "length (queued (pr_channel p)) = 1" "pr_pc p = Selecting" "alive p"
      "fresh_agent (agent_of p)" using sample_queued by blast
  have "pending_ok p" using reachable_pending_ok [OF run_reachable [OF p(1)]] .
  with p(3) have "pr_pending p = []" by (simp add: pending_ok_def)
  from run_to_exit [OF p(1,4,3,5) this] p(2) show ?thesis by metis
qed

lemma exited_returned:
  assumes "process_run env defragger ls p" and "pr_main p = Exited"
  shows "pr_pc p = Returned" "pr_pending p = []" "pr_closed p" "pr_ctx_done p" "pr_crash p = None"
proof -
  have "asm_mode (agent_of p) = AssemblerDone" and rest: "pr_closed p" "pr_pending p = []" "pr_ctx_done p"
    using agent_shutdown [OF process_agent [OF assms(1)]] assms(2)
    by (auto simp: shutdown_order_def services_def split: if_splits)
  then show pc: "pr_pc p = Returned" by (cases "pr_pc p") simp_all
  with run_crash_inv [OF assms(1)] show "pr_crash p = None" by (simp add: crash_inv_def)
  from rest show "pr_closed p" "pr_pending p = []" "pr_ctx_done p" .
qed

section \<open>Properties\<close>

text \<open>C2: The running process refines the agent: however the cases of the loop, the callbacks and
  sends within a case, the other goroutines and the panics interleave, what it has produced,
  queued and handled is a reachable state of the agent; so the events the loop has sent are the
  handled ones, the queued ones and the one being sent, in order.\<close>

theorem process_refines_agent:
  assumes "process_run env defragger ls p"
  shows "agent_reachable (le_gopacket env) (le_http env) (le_config env) (agent_of p) \<and>
    lp_events (pr_loop p) = pr_handled p @ queued (pr_channel p) @ pr_pending p \<and>
    length (queued (pr_channel p)) \<le> channel_size (le_config env)"
  using process_agent [OF assms] agent_flow [OF process_agent [OF assms]]
  by (simp add: events_flow_def)

theorem process_refines_agent_witness:
  "\<exists>(p :: (unit, unit, unit, unit) process).
     agent_reachable sample_gopacket sample_http (NewConfig Map.empty) (agent_of p) \<and>
     length (queued (pr_channel p)) = 1 \<and> lp_events (pr_loop p) \<noteq> []"
proof -
  obtain ls and p :: "(unit, unit, unit, unit) process" where
    p: "process_run sample_loop () ls p" "length (queued (pr_channel p)) = 1"
    using sample_queued by blast
  from process_refines_agent [OF p(1)] p(2) show ?thesis
    unfolding sample_loop_fields by (intro exI [of _ p]) auto
qed

text \<open>C3: The process computes the assembler's loop: between two cases, and after the return, the state
  of its loop is the result of the function \<open>Start_assembler\<close> on some choices of the select,
  although callbacks, sends and the ticks of libpcap's figures fall into the middle of cases;
  and a panic of the process is a panic of that function.\<close>

theorem process_computes_loop:
  assumes "process_run env defragger ls p"
  shows "case pr_crash p of
      Some e \<Rightarrow> \<exists>choices. Start_assembler env defragger choices = Inl (Panicked e)
    | None \<Rightarrow>
        if pr_pc p \<in> {Selecting, Returned}
        then \<exists>choices. Start_assembler env defragger choices = Inr (pr_loop p) else True"
proof (cases "pr_crash p")
  case None
  with run_as_computed [OF assms] have "computes env defragger p" by (simp add: as_computed_def)
  then show ?thesis
    using None by (auto simp: computes_def Start_assembler_init)
next
  case (Some e)
  with run_as_computed [OF assms] show ?thesis
    by (auto simp: as_computed_def panicked_as_computed_def)
qed

theorem process_computes_loop_witness:
  "\<exists>(p :: (unit, unit, unit, unit) process) choices. length (queued (pr_channel p)) = 1 \<and> pr_pc p = Selecting \<and>
     Start_assembler sample_loop () choices = Inr (pr_loop p)"
proof -
  obtain ls and p :: "(unit, unit, unit, unit) process" where
    p: "process_run sample_loop () ls p" "length (queued (pr_channel p)) = 1" "pr_pc p = Selecting" "alive p"
    using sample_queued by blast
  then have "pr_crash p = None" by (simp add: alive_def)
  with process_computes_loop [OF p(1)] p(2,3) show ?thesis by (intro exI [of _ p]) auto
qed

text \<open>C19: When the process crashes, given that gopacket passes on the loop's own contexts: exactly if its
  last step was one of the assembler's goroutine, either its start with a flush timeout below
  four nanoseconds, or a case of its select that received from a closed packet source, or a
  fragment that completes a datagram which cannot be decoded into its packet without a panic or
  which leaves a TCP segment without a network layer. No other packet, callback, or goroutine
  brings it down, in whatever order they run.\<close>

theorem process_crashes_iff:
  assumes "process_run env defragger ls p" and "list_all own_label ls"
  shows "pr_crash p \<noteq> None \<longleftrightarrow>
    (\<exists>before l q. ls = before @ [l] \<and> process_run env defragger before q \<and> alive q \<and> loop_step env l q p \<and>
       (pr_pc q = Starting \<and> StreamFlushTimeout (le_config env) < 4 \<or>
        pr_pc q = Selecting \<and>
          (l = Chosen SourceClosed \<or>
           (\<exists>pkt cbs. l = Chosen (PacketIn pkt cbs) \<and>
              fatal_packet (le_packets env) (le_config env) (lp_defragger (pr_loop q)) pkt))))"
    (is "?crashed \<longleftrightarrow> ?cause")
proof
  assume crashed: ?crashed
  from assms(1) show ?cause
  proof cases
    case process_init
    with crashed show ?thesis by (simp add: init_process_def)
  next
    case (process_next before q l)
    with assms(2) have own: "own_label l" by simp
    note step = crashing_step [OF process_next(3) crashed own]
    have "pr_crash q = None" using step(1) by (simp add: alive_def)
    moreover have "pr_pc q = Starting \<Longrightarrow> pr_pending q = []"
      using reachable_pending_ok [OF run_reachable [OF process_next(2)]] by (simp add: pending_ok_def)
    ultimately have "pr_pc q = Starting \<and> StreamFlushTimeout (le_config env) < 4 \<or>
        pr_pc q = Selecting \<and> (\<exists>c. l = Chosen c \<and> fatal_choice env (lp_defragger (pr_loop q)) c)"
      using started_panics [OF step(2)] selected_panics [of _ env q p] step(2,3) own crashed by auto
    then have "pr_pc q = Starting \<and> StreamFlushTimeout (le_config env) < 4 \<or>
        pr_pc q = Selecting \<and> (l = Chosen SourceClosed \<or> (\<exists>pkt cbs. l = Chosen (PacketIn pkt cbs) \<and>
          fatal_packet (le_packets env) (le_config env) (lp_defragger (pr_loop q)) pkt))"
      by (auto elim!: fatal_choice.elims(2))
    with process_next(1,2) step(1,2) show ?thesis by blast
  qed
next
  assume ?cause
  then obtain before l q where q: "ls = before @ [l]" "process_run env defragger before q" "alive q"
    "loop_step env l q p"
    and cause: "pr_pc q = Starting \<and> StreamFlushTimeout (le_config env) < 4 \<or>
        (\<exists>c. l = Chosen c \<and> fatal_choice env (lp_defragger (pr_loop q)) c)" by fastforce
  have "pr_crash q = None" using q(3) by (simp add: alive_def)
  moreover have "pr_pc q = Starting \<Longrightarrow> pr_pending q = []"
    using reachable_pending_ok [OF run_reachable [OF q(2)]] by (simp add: pending_ok_def)
  moreover have "own_label l" using q(1) assms(2) by simp
  ultimately show ?crashed
    using cause started_panics [OF q(4)] selected_panics [of _ env q p] q(4) by auto
qed

theorem process_crashes_iff_witness:
  "\<exists>ls p. process_run sample_loop () ls p \<and> length (queued (pr_channel p)) = 1 \<and> pr_crash p \<noteq> None"
proof -
  obtain ls and p :: "(unit, unit, unit, unit) process" where
    p: "process_run sample_loop () ls p" "length (queued (pr_channel p)) = 1" "pr_pc p = Selecting" "alive p"
      "list_all own_label ls"
    using sample_queued by blast
  let ?p = "p\<lparr>pr_crash := Some NilDereference\<rparr>"
  have step: "loop_step sample_loop (Chosen SourceClosed) p ?p"
    using p(3) by (intro lp_select_panics) simp_all
  from run_assembler [OF p(1,4) this] have run: "process_run sample_loop () (ls @ [Chosen SourceClosed]) ?p" .
  have "list_all own_label (ls @ [Chosen SourceClosed])" using p(5) by simp
  from process_crashes_iff [OF run this] p(1,3,4) step have "pr_crash ?p \<noteq> None" by blast
  with run p(2) show ?thesis by (intro exI [of _ "ls @ [Chosen SourceClosed]"] exI [of _ ?p]) simp
qed

text \<open>C20: What a crash costs: the process does nothing more; the handler was not closed, so its
  buffered telemetry is not flushed; the loop had not returned, so the last statistics are not
  sent; and every event that was queued or being sent is lost.\<close>

theorem crash_loses_telemetry:
  assumes "process_run env defragger ls p" and "pr_crash p = Some e"
  shows "(\<forall>l p'. \<not> process_step env l p p') \<and> \<not> pr_closed p \<and> pr_main p \<noteq> Exited \<and>
    pr_pc p \<noteq> Returned \<and>
    lp_events (pr_loop p) = pr_handled p @ queued (pr_channel p) @ pr_pending p"
proof -
  have pc: "pr_pc p \<noteq> Returned" using run_crash_inv [OF assms(1)] assms(2) by (simp add: crash_inv_def)
  then have "asm_mode (agent_of p) \<noteq> AssemblerDone" by (cases "pr_pc p") simp_all
  with agent_shutdown [OF process_agent [OF assms(1)]] have "\<not> pr_closed p" "pr_main p \<noteq> Exited"
    by (auto simp: shutdown_order_def services_def)
  with pc crashed_stops [of p env] assms(2) agent_flow [OF process_agent [OF assms(1)]] show ?thesis
    by (simp add: events_flow_def)
qed

theorem crash_loses_telemetry_witness:
  "\<exists>ls p. process_run sample_loop () ls p \<and> pr_crash p = Some NilDereference \<and> \<not> pr_closed p \<and>
     length (queued (pr_channel p)) = 1"
proof -
  obtain ls and p :: "(unit, unit, unit, unit) process" where
    p: "process_run sample_loop () ls p" "length (queued (pr_channel p)) = 1" "pr_pc p = Selecting" "alive p"
    using sample_queued by blast
  let ?p = "p\<lparr>pr_crash := Some NilDereference\<rparr>"
  have "loop_step sample_loop (Chosen SourceClosed) p ?p"
    using p(3) by (intro lp_select_panics) simp_all
  from run_assembler [OF p(1,4) this] have run: "process_run sample_loop () (ls @ [Chosen SourceClosed]) ?p" .
  from crash_loses_telemetry [OF run, of NilDereference] run p(2) show ?thesis
    by (intro exI [of _ "ls @ [Chosen SourceClosed]"] exI [of _ ?p]) simp
qed

text \<open>C12: The exit of the process: it has not crashed; its loop returned with the state the function
  \<open>Start_assembler\<close> computes, having flushed everything once and sent the last statistics; the
  handler is closed, and every event the loop has sent was handled, but those still queued.\<close>

theorem process_exit:
  assumes "process_run env defragger ls p" and "pr_main p = Exited"
  shows "pr_crash p = None \<and> pr_closed p \<and>
    (\<exists>choices. Start_assembler env defragger choices = Inr (pr_loop p)) \<and>
    (\<exists>before last. lp_outputs (pr_loop p) = before @ FlushAll # map Sent last \<and>
       FlushAll \<notin> set before \<and> last \<noteq> []) \<and>
    lp_events (pr_loop p) = pr_handled p @ queued (pr_channel p)"
proof -
  note exited = exited_returned [OF assms]
  from run_as_computed [OF assms(1)] exited(5) have computes: "computes env defragger p"
    by (simp add: as_computed_def)
  then have "lp_returned (pr_loop p)" using exited(1) by (auto simp: computes_def)
  moreover obtain choices where "Start_assembler env defragger choices = Inr (pr_loop p)"
    using computes exited(1) by (auto simp: computes_def Start_assembler_init)
  moreover from loop_result_outputs [OF this] have "loop_outputs env (pr_loop p)" .
  ultimately show ?thesis
    using exited agent_flow [OF process_agent [OF assms(1)]]
    by (auto simp: loop_outputs_def events_flow_def)
qed

theorem process_exit_witness:
  "\<exists>ls p. process_run sample_loop () ls p \<and> pr_main p = Exited \<and> pr_closed p \<and>
     length (queued (pr_channel p)) = 1 \<and> (\<exists>before last. lp_outputs (pr_loop p) = before @ FlushAll # last)"
proof -
  obtain ls and p :: "(unit, unit, unit, unit) process" where
    p: "process_run sample_loop () ls p" "pr_main p = Exited" "length (queued (pr_channel p)) = 1"
    using sample_exited by blast
  from process_exit [OF p(1,2)] p show ?thesis by (intro exI [of _ ls] exI [of _ p]) auto
qed

end
