(* ===== verification/Shutdown_Termination.thy ===== *)
theory Shutdown_Termination
  imports Shutdown
begin

text \<open>
  The shutdown ends. Only the reassembler's callbacks bring new work into the agent; all other
  steps use up a measure: the events still to be sent and handled, and the actions left to the
  three goroutines. A callback adds at most one event. So the steps of a run are bounded by the
  size of the channel and the number of its callbacks, and once the callbacks stop, the run
  stops, in the exit or in the one state that hangs.
\<close>

section \<open>Steps without new work\<close>

definition quiet_step ::
  "('fsm, 'opt, 'tcp) gopacket \<Rightarrow> http_lib \<Rightarrow> ('fsm, 'opt) agent \<Rightarrow> ('fsm, 'opt) agent \<Rightarrow> bool" where
  "quiet_step g lib a a' \<longleftrightarrow>
     agent_step g lib a a' \<and> reg a' = reg a \<and> produced a' = produced a \<and> a' \<noteq> a"

fun mode_rank :: "assembler_mode \<Rightarrow> nat" where
  "mode_rank Capturing = 2"
| "mode_rank FlushingAll = 1"
| "mode_rank AssemblerDone = 0"

fun main_rank :: "main_pc \<Rightarrow> nat" where
  "main_rank Serving = 4"
| "main_rank WaitingForServices = 3"
| "main_rank ClosingHandler = 2"
| "main_rank SignallingExit = 1"
| "main_rank Exited = 0"

text \<open>An event about to be sent still has two steps to go, a queued one has one.\<close>

definition work :: "('fsm, 'opt) agent \<Rightarrow> nat" where
  "work a = 2 * length (pending a) + length (queued (channel a)) +
     (if handler_running a then 1 else 0) + mode_rank (asm_mode a) + main_rank (main_at a)"

lemma send_contents: "chan_send c e = Some c' \<Longrightarrow> length (queued c') = Suc (length (queued c))"
  using events_chan.enq_contents [of c e c'] by simp

lemma receive_contents: "chan_receive c = Some (e, c') \<Longrightarrow> length (queued c) = Suc (length (queued c'))"
  using events_chan.deq_contents [of c e c'] by simp

text \<open>A step is a callback, or it uses up work.\<close>

lemma step_cases_work:
  assumes "agent_step g lib a a'"
  shows "(\<exists>cb es r'. callback_step g lib (reg a) cb es r' \<and>
      a' = a\<lparr>reg := r', pending := es, produced := produced a @ es\<rparr> \<and> pending a = [] \<and>
      asm_mode a \<noteq> AssemblerDone) \<or>
    work a' < work a \<and> reg a' = reg a \<and> produced a' = produced a"
  using assms by (elim agent_stepEs) (auto simp: work_def dest: send_contents receive_contents)

lemma quiet_work: "quiet_step g lib a a' \<Longrightarrow> work a' < work a"
  using step_cases_work [of g lib a a'] by (auto simp: quiet_step_def)

lemma quiet_intro: "agent_step g lib a a' \<Longrightarrow> work a' < work a \<Longrightarrow> reg a' = reg a \<Longrightarrow>
    produced a' = produced a \<Longrightarrow> quiet_step g lib a a'"
  by (auto simp: quiet_step_def)

lemma quiet_wf: "wfP (\<lambda>a' a. quiet_step g lib a a')"
  by (rule wfp_if_convertible_to_nat [where f = work]) (rule quiet_work)

lemma step_ctx_done: "agent_step g lib a a' \<Longrightarrow> ctx_done a \<Longrightarrow> ctx_done a'"
  by (elim agent_stepEs) auto

section \<open>Where the quiet steps end\<close>

lemma quiet_return:
  assumes "handler_running a" and "ctx_done a"
  shows "\<exists>a'. quiet_step g lib a a'"
  using quiet_intro [OF handler_returns [OF assms]] assms by (auto simp: work_def)

lemma quiet_send:
  assumes "pending a = e # es" and "length (queued (channel a)) < capacity (channel a)"
  shows "\<exists>a'. quiet_step g lib a a'"
proof -
  have "chan_send (channel a) e = Some (channel a\<lparr>queued := queued (channel a) @ [e]\<rparr>)"
    using assms(2) by (simp add: chan_send_def)
  from quiet_intro [OF send [OF assms(1) this]] assms(1) show ?thesis by (auto simp: work_def)
qed

lemma quiet_assembler:
  assumes "pending a = []" and "asm_mode a \<noteq> AssemblerDone" and "ctx_done a"
  shows "\<exists>a'. quiet_step g lib a a'"
proof (cases "asm_mode a")
  case Capturing
  from quiet_intro [OF assembler_cancelled [OF this assms(1,3)]] Capturing show ?thesis
    by (auto simp: work_def)
next
  case FlushingAll
  from quiet_intro [OF assembler_returns [OF this assms(1)]] FlushingAll show ?thesis
    by (auto simp: work_def)
qed (use assms in auto)

lemma quiet_main:
  assumes "main_at a \<in> {ClosingHandler, SignallingExit} \<or> main_at a = WaitingForServices \<and> wg_count a = 0"
  shows "\<exists>a'. quiet_step g lib a a'"
  using assms quiet_intro [OF wg_wait [of a g lib]] quiet_intro [OF close_handler [of a g lib]]
    quiet_intro [OF shutdown_now [of a g lib]]
  by (auto simp: work_def)

lemma no_quiet_step:
  assumes "agent_reachable g lib cfg a" and "ctx_done a"
  shows "(\<forall>a'. \<not> quiet_step g lib a a') \<longleftrightarrow> main_at a = Exited \<or> hangs a"
proof
  assume none: "\<forall>a'. \<not> quiet_step g lib a a'"
  note inv = agent_shutdown [OF assms(1)] and flow = agent_flow [OF assms(1)]
  from none assms(2) quiet_return have stopped: "\<not> handler_running a" by blast
  show "main_at a = Exited \<or> hangs a"
  proof (cases "main_at a")
    case Serving
    with inv assms(2) show ?thesis by (simp add: shutdown_order_def)
  next
    case WaitingForServices
    with none quiet_main [of a g lib] have "0 < wg_count a" by auto
    with inv stopped have mode: "asm_mode a \<noteq> AssemblerDone"
      by (auto simp: shutdown_order_def services_def)
    with none assms(2) quiet_assembler [of a g lib] obtain e es where "pending a = e # es"
      by (cases "pending a") auto
    moreover from this none quiet_send [of a e es g lib]
    have "capacity (channel a) \<le> length (queued (channel a))" by (meson not_le)
    ultimately show ?thesis
      using WaitingForServices stopped mode \<open>0 < wg_count a\<close> by (simp add: hangs_def)
  qed (use none quiet_main [of a g lib] in auto)
next
  assume end_state: "main_at a = Exited \<or> hangs a"
  show "\<forall>a'. \<not> quiet_step g lib a a'"
  proof (cases "hangs a")
    case True
    then show ?thesis by (simp add: quiet_step_def hangs_stuck)
  next
    case False
    with end_state have ex: "main_at a = Exited" by simp
    with agent_shutdown [OF assms(1)] have s: "services a = 0" "wg_count a = 0"
      "pending a = []" by (auto simp: shutdown_order_def services_def split: if_splits)
    then have "\<not> handler_running a" "asm_mode a = AssemblerDone"
      by (auto simp: services_def split: if_splits)
    with ex s show ?thesis unfolding quiet_step_def
      by (auto elim!: agent_stepEs)
  qed
qed

section \<open>Runs with callbacks\<close>

text \<open>A step that is a callback of the reassembler, and runs with \<open>m\<close> of them and \<open>n\<close> other steps.\<close>

definition work_step ::
  "('fsm, 'opt, 'tcp) gopacket \<Rightarrow> http_lib \<Rightarrow> ('fsm, 'opt) agent \<Rightarrow> ('fsm, 'opt) agent \<Rightarrow> bool" where
  "work_step g lib a a' \<longleftrightarrow> agent_step g lib a a' \<and>
     (\<exists>cb es r'. callback_step g lib (reg a) cb es r' \<and> pending a = [] \<and>
        asm_mode a \<noteq> AssemblerDone \<and> a' = a\<lparr>reg := r', pending := es, produced := produced a @ es\<rparr>)"

inductive counted_run ::
  "('fsm, 'opt, 'tcp) gopacket \<Rightarrow> http_lib \<Rightarrow> ('fsm, 'opt) agent \<Rightarrow> nat \<Rightarrow> nat \<Rightarrow> ('fsm, 'opt) agent \<Rightarrow> bool"
  for g :: "('fsm, 'opt, 'tcp) gopacket" and lib :: http_lib and a where
  run_start: "counted_run g lib a 0 0 a"
| run_callback: "counted_run g lib a m n b \<Longrightarrow> work_step g lib b c \<Longrightarrow> counted_run g lib a (Suc m) n c"
| run_quiet: "counted_run g lib a m n b \<Longrightarrow> quiet_step g lib b c \<Longrightarrow> counted_run g lib a m (Suc n) c"

lemma step_work_or_quiet: "agent_step g lib a a' \<Longrightarrow> work_step g lib a a' \<or> quiet_step g lib a a'"
  using step_cases_work [of g lib a a'] by (auto simp: work_step_def quiet_step_def)

text \<open>Every run of the agent is counted.\<close>

lemma counted_steps: "agent_steps g lib a b \<Longrightarrow> \<exists>m n. counted_run g lib a m n b"
proof (induction rule: rtranclp_induct)
  case base
  show ?case by (blast intro: run_start)
next
  case (step b c)
  then show ?case using step_work_or_quiet [of g lib b c] by (blast intro: run_callback run_quiet)
qed

text \<open>A callback has at most one event to send, which is two steps.\<close>

lemma callback_work: "work_step g lib a a' \<Longrightarrow> work a' \<le> work a + 2"
  by (auto simp: work_step_def work_def dest!: callback_one_event)

lemma counted_run_invariant:
  assumes "counted_run g lib a m n a'" and "agent_reachable g lib cfg a" and "ctx_done a"
  shows "agent_reachable g lib cfg a' \<and> ctx_done a' \<and> work a' + n \<le> work a + 2 * m"
  using assms
proof (induction rule: counted_run.induct)
  case (run_callback m n b c)
  then have "agent_step g lib b c" by (simp add: work_step_def)
  with run_callback callback_work [of g lib b c] show ?case
    by (auto intro: agent_run step_ctx_done)
next
  case (run_quiet m n b c)
  then have "agent_step g lib b c" by (simp add: quiet_step_def)
  with run_quiet quiet_work [of g lib b c] show ?case
    by (auto intro: agent_run step_ctx_done)
qed simp

section \<open>Properties\<close>

text \<open>C11: The shutdown terminates: after the signal, a run with \<open>m\<close> callbacks of the reassembler has at
  most \<open>2 * m + 8\<close> other steps more than the channel has places, whatever the interleaving; and
  nothing but callbacks is left to do exactly in the exit or with the assembler blocked on a full
  channel nobody reads.\<close>

theorem shutdown_terminates:
  assumes "agent_reachable g lib cfg a" and "ctx_done a" and "counted_run g lib a m n a'"
  shows "n \<le> channel_size cfg + 8 + 2 * m \<and>
    ((\<forall>b. \<not> quiet_step g lib a' b) \<longleftrightarrow> main_at a' = Exited \<or>
      main_at a' = WaitingForServices \<and> \<not> handler_running a' \<and> pending a' \<noteq> [] \<and>
      length (queued (channel a')) = channel_size cfg)"
proof -
  note inv = counted_run_invariant [OF assms(3,1,2)]
  then have reach: "agent_reachable g lib cfg a'" and ctx: "ctx_done a'" by simp_all
  have "main_at a \<noteq> Serving"
    using agent_shutdown [OF assms(1)] assms(2) by (simp add: shutdown_order_def)
  then have "main_rank (main_at a) \<le> 3" by (cases "main_at a") simp_all
  moreover have "mode_rank (asm_mode a) \<le> 2" by (cases "asm_mode a") simp_all
  ultimately have "work a \<le> channel_size cfg + 8"
    using agent_flow [OF assms(1)] one_pending [OF assms(1)]
    by (simp add: work_def events_flow_def)
  with inv have "n \<le> channel_size cfg + 8 + 2 * m" by simp
  moreover have "hangs a' \<longleftrightarrow> main_at a' = WaitingForServices \<and> \<not> handler_running a' \<and>
      pending a' \<noteq> [] \<and> length (queued (channel a')) = channel_size cfg"
    using agent_flow [OF reach] agent_shutdown [OF reach]
    by (auto simp: hangs_def events_flow_def shutdown_order_def services_def)
  ultimately show ?thesis using no_quiet_step [OF reach ctx] by simp
qed

lemma sample_signalled:
  "\<exists>a. agent_reachable sample_gopacket sample_http (NewConfig Map.empty) a \<and> ctx_done a \<and>
     length (queued (channel a)) = 3"
proof -
  have "3 \<le> channel_size (NewConfig Map.empty)" by (simp add: NewConfig_def)
  from fill_queue [OF sample_reads this, of sample_gopacket] obtain a where a:
    "agent_steps sample_gopacket sample_http (init_agent (NewConfig Map.empty)) a" "ready a"
    "length (queued (channel a)) = 3" by blast
  from a(2) have "main_at a = Serving" by (simp add: ready_def)
  from agent_run [OF reachable_steps [OF a(1) agent_init] os_signal [OF this]] a(3)
  show ?thesis by (intro exI [of _ "a\<lparr>ctx_done := True, main_at := WaitingForServices\<rparr>"]) simp
qed

theorem shutdown_terminates_witness:
  "\<exists>a. agent_reachable sample_gopacket sample_http (NewConfig Map.empty) a \<and> ctx_done a \<and>
     length (queued (channel a)) = 3 \<and>
     (\<forall>m n a'. counted_run sample_gopacket sample_http a m n a' \<longrightarrow> n \<le> 1008 + 2 * m)"
proof -
  obtain a where a: "agent_reachable sample_gopacket sample_http (NewConfig Map.empty) a"
    "ctx_done a" "length (queued (channel a)) = 3" using sample_signalled by blast
  have "channel_size (NewConfig Map.empty) = 1000" by (simp add: NewConfig_def)
  with shutdown_terminates [OF a(1,2)] a show ?thesis by (intro exI [of _ a]) fastforce
qed

end
