(* ===== verification/Fair_Shutdown.thy ===== *)
theory Fair_Shutdown
  imports Process_Loop Shutdown_Termination "HOL-Library.Infinite_Set"
begin

text \<open>
  The shutdown of the running process while packets still arrive. A trace is an infinite sequence
  of states of the process; it is fair if no goroutine is starved for ever, if the select that is
  reached again and again with a cancelled context takes that case in the end (Go chooses at
  random among the ready ones), and if a call of gopacket that is not blocked in a send returns.
\<close>

section \<open>Fairness\<close>

definition weakly_fair :: "(nat \<Rightarrow> bool) \<Rightarrow> (nat \<Rightarrow> bool) \<Rightarrow> bool" where
  "weakly_fair enabled taken \<longleftrightarrow> (\<forall>n. (\<forall>i\<ge>n. enabled i) \<longrightarrow> (\<exists>i\<ge>n. taken i))"

definition strongly_fair :: "(nat \<Rightarrow> bool) \<Rightarrow> (nat \<Rightarrow> bool) \<Rightarrow> bool" where
  "strongly_fair enabled taken \<longleftrightarrow> (infinite {i. enabled i} \<longrightarrow> (\<exists>i. taken i))"

text \<open>What uses up a measure that nothing refills stops being possible.\<close>

lemma descent_disables:
  fixes w :: "nat \<Rightarrow> nat"
  assumes "weakly_fair enabled taken" and "\<And>i. n \<le> i \<Longrightarrow> w (Suc i) \<le> w i"
    and "\<And>i. n \<le> i \<Longrightarrow> taken i \<Longrightarrow> w (Suc i) < w i"
  shows "\<exists>i\<ge>n. \<not> enabled i"
  using assms(2,3)
proof (induction "w n" arbitrary: n rule: less_induct)
  case less
  show ?case
  proof (rule ccontr)
    assume "\<not> (\<exists>i\<ge>n. \<not> enabled i)"
    then obtain i where i: "n \<le> i" "taken i" using assms(1) unfolding weakly_fair_def by blast
    have "w i \<le> w n"
      using i(1) by (induction i rule: dec_induct) (auto intro: le_trans [OF less.prems(1)])
    with less.prems(2) [OF i] have "w (Suc i) < w n" by simp
    from less.hyps [OF this] less.prems i(1) obtain j where "Suc i \<le> j" "\<not> enabled j"
      by (meson Suc_leD le_trans)
    with i(1) \<open>\<not> (\<exists>i\<ge>n. \<not> enabled i)\<close> show False by auto
  qed
qed

section \<open>Traces of the process\<close>

text \<open>A trace may stay in a state, while nothing arrives or after the end.\<close>

definition process_trace ::
  "('fsm, 'opt, 'tcp, 'pkt, 'net, 'ip, 'd) loop_env \<Rightarrow> 'd \<Rightarrow> (nat \<Rightarrow> ('fsm, 'opt, 'tcp, 'd) process) \<Rightarrow> bool" where
  "process_trace env defragger r \<longleftrightarrow> r 0 = init_process (le_config env) defragger \<and>
     (\<forall>i. (\<exists>l. process_step env l (r i) (r (Suc i))) \<or> r (Suc i) = r i)"

text \<open>A call is abandoned only where it is blocked, or the process has crashed.\<close>

definition calls_return :: "(nat \<Rightarrow> ('fsm, 'opt, 'tcp, 'd) process) \<Rightarrow> bool" where
  "calls_return r \<longleftrightarrow>
     (\<forall>n. pr_pc (r n) \<in> {InCall, InStop} \<and> (\<forall>i\<ge>n. pr_pc (r i) = pr_pc (r n)) \<longrightarrow>
        (\<exists>m\<ge>n. \<forall>i\<ge>m. pr_pending (r i) \<noteq> [] \<or> pr_crash (r i) \<noteq> None))"

definition fair_trace ::
  "('fsm, 'opt, 'tcp, 'pkt, 'net, 'ip, 'd) loop_env \<Rightarrow> (nat \<Rightarrow> ('fsm, 'opt, 'tcp, 'd) process) \<Rightarrow> bool" where
  "fair_trace env r \<longleftrightarrow>
     weakly_fair (\<lambda>i. \<exists>p. process_step env Internal (r i) p)
       (\<lambda>i. process_step env Internal (r i) (r (Suc i))) \<and>
     strongly_fair (\<lambda>i. pr_pc (r i) = Selecting \<and> pr_ctx_done (r i)) (\<lambda>i. pr_pc (r i) = InStop) \<and>
     calls_return r"

lemma trace_reached:
  assumes "process_trace env defragger r"
  shows "\<exists>ls. process_run env defragger ls (r i)"
proof (induction i)
  case 0
  show ?case using assms process_init [of env defragger] by (auto simp: process_trace_def)
next
  case (Suc i)
  have "(\<exists>l. process_step env l (r i) (r (Suc i))) \<or> r (Suc i) = r i"
    using assms by (auto simp: process_trace_def)
  with Suc show ?case by (auto intro: process_next)
qed

lemma trace_always:
  assumes "process_trace env defragger r" and "P (r n)" and "n \<le> i"
    and "\<And>l p p'. process_step env l p p' \<Longrightarrow> P p \<Longrightarrow> P p'"
  shows "P (r i)"
  using assms(3)
proof (induction i rule: dec_induct)
  case (step i)
  have "(\<exists>l. process_step env l (r i) (r (Suc i))) \<or> r (Suc i) = r i"
    using assms(1) by (auto simp: process_trace_def)
  with step assms(4) show ?case by auto
qed (rule assms(2))

lemma process_ctx_done: "process_step env l p p' \<Longrightarrow> pr_ctx_done p \<Longrightarrow> pr_ctx_done p'"
  by (elim process_stepE loop_stepE handler_stepE main_stepE) (auto simp: put_agent_def)

lemma stopping_goes_on:
  "process_step env l p p' \<Longrightarrow> pr_pc p \<in> {InStop, Returned} \<Longrightarrow> pr_pc p' \<in> {InStop, Returned}"
  by (elim process_stepE loop_stepE) auto

lemma returned_stays: "process_step env l p p' \<Longrightarrow> pr_pc p = Returned \<Longrightarrow> pr_pc p' = Returned"
  by (elim process_stepE loop_stepE) auto

section \<open>The measure\<close>

text \<open>The agent's measure, and the steps of the loop to its next select.\<close>

fun pc_rank :: "asm_pc \<Rightarrow> nat" where
  "pc_rank Starting = 1"
| "pc_rank InCall = 1"
| "pc_rank _ = 0"

definition process_work :: "('fsm, 'opt, 'tcp, 'd) process \<Rightarrow> nat" where
  "process_work p = work (agent_of p) + pc_rank (pr_pc p)"

lemma handler_work: "handler_step a a' \<Longrightarrow> work a' < work a"
  by (erule handler_stepE) (auto simp: work_def dest: receive_contents)

lemma main_work: "main_step a a' \<Longrightarrow> work a' < work a"
  by (erule main_stepE) (auto simp: work_def)

lemma put_agent_work:
  assumes "reg a = reg (agent_of p)" "asm_mode a = asm_mode (agent_of p)"
    "produced a = produced (agent_of p)" "work a < work (agent_of p)"
  shows "process_work (put_agent a p) < process_work p"
  using assms(4) agent_of_put [OF assms(1-3)] by (simp add: process_work_def)

lemma internal_work:
  assumes "process_step env Internal p p'" and "pr_crash p' = None"
  shows "process_work p' < process_work p"
  using assms(1)
proof cases
  case pr_assembler
  from pr_assembler(3) show ?thesis
    by cases (use assms(2) in \<open>auto simp: process_work_def work_def dest: send_contents\<close>)
next
  case (pr_handler a)
  with handler_step_frame [OF pr_handler(4)] handler_work [OF pr_handler(4)] show ?thesis
    by (auto intro: put_agent_work)
next
  case (pr_shutdown a)
  with main_step_frame [OF pr_shutdown(3)] main_work [OF pr_shutdown(3)] show ?thesis
    by (auto intro: put_agent_work)
qed (auto simp: process_work_def work_def)

text \<open>Other steps refill it only at the select and in a call that is not blocked.\<close>

lemma outside_work:
  assumes "process_step env l p p'" and "l \<noteq> Internal" and "pr_pc p \<noteq> Selecting"
    and "pr_pc p \<in> {InCall, InStop} \<Longrightarrow> pr_pending p \<noteq> []"
  shows "process_work p' = process_work p"
  using assms by (elim process_stepE loop_stepE) (auto simp: process_work_def work_def)

text \<open>Something internal is left to do until the end.\<close>

lemma internal_enabled:
  assumes "process_run env defragger ls p" and "pr_ctx_done p" and "pr_crash p = None"
    and "\<nexists>p'. process_step env Internal p p'"
  shows "pr_main p = Exited \<or> hangs (agent_of p)"
proof (rule ccontr)
  assume going: "\<not> ?thesis"
  then have alive: "pr_main p \<noteq> Exited" by simp
  have asm: "\<not> loop_step env Internal p p'" for p' using assms(3,4) alive by (auto intro: pr_assembler)
  have goroutines: "\<not> handler_step (agent_of p) a" "\<not> main_step (agent_of p) a" for a
    using assms(3,4) alive by (auto intro: pr_handler pr_shutdown)
  note agent = process_agent [OF assms(1)]
  from no_quiet_step [OF agent] going assms(2) obtain a
    where "quiet_step (le_gopacket env) (le_http env) (agent_of p) a" by auto
  then have step: "agent_step (le_gopacket env) (le_http env) (agent_of p) a"
    and quiet: "reg a = reg (agent_of p)" "produced a = produced (agent_of p)" "a \<noteq> agent_of p"
    by (simp_all add: quiet_step_def)
  have idle: "pr_pc p = Returned" if "pr_pending p = []"
  proof (cases "pr_pc p")
    case Starting
    with asm lp_start [OF this] lp_start_panics [OF this] show ?thesis
      by (cases "flush_ticker (le_config env)") blast+
  qed (use that asm assms(2) in \<open>blast intro: lp_cancelled lp_case_done lp_stopped\<close>)+
  from step show False
  proof cases
    case of_assembler
    then show ?thesis
    proof cases
      case (asm_capture cb es r)
      with idle quiet show ?thesis by (auto simp: agent_of_def)
    next
      case (asm_send e es ch)
      with asm show ?thesis by (auto intro: lp_send)
    next
      case asm_cancelled
      with idle show ?thesis by simp
    next
      case asm_returns
      with idle show ?thesis by simp
    qed
  next
    case (rendezvous e es)
    with assms(3,4) alive show ?thesis by (auto intro: pr_rendezvous)
  qed (use goroutines in blast)+
qed

section \<open>Fair traces reach the end\<close>

definition ended :: "('fsm, 'opt, 'tcp, 'd) process \<Rightarrow> bool" where
  "ended p \<longleftrightarrow> pr_crash p \<noteq> None \<or> pr_main p = Exited \<or> hangs (agent_of p)"

text \<open>The loop is at its select finitely often once the context is cancelled.\<close>

lemma select_left:
  assumes "process_trace env defragger r" and "fair_trace env r" and "pr_ctx_done (r k)"
  shows "\<exists>n\<ge>k. \<forall>i\<ge>n. pr_pc (r i) \<noteq> Selecting"
proof (rule ccontr)
  assume often: "\<not> ?thesis"
  have ctx: "pr_ctx_done (r i)" if "k \<le> i" for i
    using trace_always [OF assms(1), of pr_ctx_done k] assms(3) that process_ctx_done by blast
  have "\<exists>i>m. pr_pc (r i) = Selecting \<and> pr_ctx_done (r i)" for m
  proof -
    from often obtain i where "max k (Suc m) \<le> i" "pr_pc (r i) = Selecting"
      by (meson max.cobounded1)
    with ctx [of i] show ?thesis by (intro exI [of _ i]) simp
  qed
  then have "infinite {i. pr_pc (r i) = Selecting \<and> pr_ctx_done (r i)}"
    by (simp add: infinite_nat_iff_unbounded)
  with assms(2) obtain m where m: "pr_pc (r m) = InStop"
    by (auto simp: fair_trace_def strongly_fair_def)
  from often obtain i where i: "max k m \<le> i" "pr_pc (r i) = Selecting"
    by (meson max.cobounded1)
  have "pr_pc (r i) \<in> {InStop, Returned}"
    by (rule trace_always [OF assms(1), of _ m]) (use m i stopping_goes_on in auto)
  with i show False by simp
qed

text \<open>From some moment on no callback is made.\<close>

lemma callbacks_end:
  assumes "process_trace env defragger r" and "fair_trace env r" and "pr_ctx_done (r k)"
    and "\<And>i. pr_crash (r i) = None"
  shows "\<exists>n\<ge>k. \<forall>i\<ge>n. pr_pc (r i) \<noteq> Selecting \<and>
    (pr_pc (r i) \<in> {InCall, InStop} \<longrightarrow> pr_pending (r i) \<noteq> [])"
proof -
  obtain n where n: "k \<le> n" "\<And>i. n \<le> i \<Longrightarrow> pr_pc (r i) \<noteq> Selecting"
    using select_left [OF assms(1-3)] by blast
  have pc_step: "pr_pc (r (Suc i)) = pr_pc (r i) \<or> pr_pc (r i) = InStop \<and> pr_pc (r (Suc i)) = Returned"
    if "n \<le> i" for i
  proof -
    have "(\<exists>l. process_step env l (r i) (r (Suc i))) \<or> r (Suc i) = r i"
      using assms(1) by (auto simp: process_trace_def)
    with n(2) [of i] n(2) [of "Suc i"] that show ?thesis
      by (auto elim!: process_stepE loop_stepE)
  qed
  have call: "\<exists>m\<ge>j. \<forall>i\<ge>m. pr_pending (r i) \<noteq> []"
    if "pr_pc (r j) \<in> {InCall, InStop}" and "\<forall>i\<ge>j. pr_pc (r i) = pr_pc (r j)" for j
    using assms(2,4) that unfolding fair_trace_def calls_return_def by blast
  show ?thesis
  proof (cases "\<exists>j\<ge>n. pr_pc (r j) = Returned")
    case True
    then obtain j where j: "n \<le> j" "pr_pc (r j) = Returned" by blast
    have "pr_pc (r i) = Returned" if "j \<le> i" for i
      using trace_always [OF assms(1), of "\<lambda>p. pr_pc p = Returned" j i] j(2) that returned_stays by blast
    with j n(1) show ?thesis by (intro exI [of _ j]) auto
  next
    case False
    have const: "pr_pc (r i) = pr_pc (r n)" if "n \<le> i" for i
      using that
    proof (induction i rule: dec_induct)
      case (step i)
      with pc_step [of i] False show ?case by auto
    qed simp
    show ?thesis
    proof (cases "pr_pc (r n) \<in> {InCall, InStop}")
      case True
      moreover have "\<forall>i\<ge>n. pr_pc (r i) = pr_pc (r n)" using const by blast
      ultimately obtain m where "n \<le> m" "\<forall>i\<ge>m. pr_pending (r i) \<noteq> []" using call [of n] by blast
      with n show ?thesis by (intro exI [of _ m]) auto
    next
      case False
      then have "pr_pc (r i) \<notin> {InCall, InStop}" if "n \<le> i" for i using const [OF that] by simp
      with n show ?thesis by (intro exI [of _ n]) auto
    qed
  qed
qed

lemma fair_trace_ends:
  assumes "process_trace env defragger r" and "fair_trace env r" and "pr_ctx_done (r k)"
  shows "\<exists>i. ended (r i)"
proof (rule ccontr)
  assume none: "\<not> ?thesis"
  then have alive: "pr_crash (r i) = None" for i by (auto simp: ended_def)
  obtain n where n: "k \<le> n" "\<And>i. n \<le> i \<Longrightarrow> pr_pc (r i) \<noteq> Selecting"
    "\<And>i. n \<le> i \<Longrightarrow> pr_pc (r i) \<in> {InCall, InStop} \<Longrightarrow> pr_pending (r i) \<noteq> []"
    using callbacks_end [OF assms alive] by blast
  have down: "process_work (r (Suc i)) \<le> process_work (r i)" if "n \<le> i" for i
  proof -
    consider l where "process_step env l (r i) (r (Suc i))" | "r (Suc i) = r i"
      using assms(1) by (auto simp: process_trace_def)
    then show ?thesis
    proof cases
      case (1 l)
      with internal_work [of env "r i" "r (Suc i)"] outside_work [OF 1] alive [of "Suc i"] n(2,3) [OF that]
      show ?thesis by (cases "l = Internal") auto
    qed simp
  qed
  have "weakly_fair (\<lambda>i. \<exists>p. process_step env Internal (r i) p)
      (\<lambda>i. process_step env Internal (r i) (r (Suc i)))"
    using assms(2) by (simp add: fair_trace_def)
  from descent_disables [OF this, of n "\<lambda>i. process_work (r i)"] down internal_work [OF _ alive]
  obtain i where i: "n \<le> i" "\<nexists>p. process_step env Internal (r i) p" by blast
  obtain ls where "process_run env defragger ls (r i)" using trace_reached [OF assms(1)] by blast
  moreover have "pr_ctx_done (r i)"
    using trace_always [OF assms(1), of pr_ctx_done k i] assms(3) n(1) i(1) process_ctx_done by auto
  ultimately show False
    using internal_enabled [of env defragger ls "r i"] i(2) none alive by (auto simp: ended_def)
qed

text \<open>And there they stay: the end of the process is not left.\<close>

lemma ended_stays:
  assumes "process_run env defragger ls p" and "ended p" and "process_step env l p p'"
  shows "ended p' \<and> agent_of p' = agent_of p"
proof -
  have alive: "pr_crash p = None" "pr_main p \<noteq> Exited"
    using assms(3) by (auto elim!: process_stepE main_stepE)
  with assms(2) have hangs: "hangs (agent_of p)" by (simp add: ended_def)
  from process_step_agent [OF assms(3) reachable_pending_ok [OF run_reachable [OF assms(1)]]]
    hangs_stuck [OF hangs] have "agent_of p' = agent_of p" by blast
  with hangs show ?thesis by (simp add: ended_def)
qed

text \<open>A run that exits is the beginning of a fair trace.\<close>

lemma run_states:
  "process_run env defragger ls p \<Longrightarrow> \<exists>r. r 0 = init_process (le_config env) defragger \<and>
    (\<forall>i < length ls. process_step env (ls ! i) (r i) (r (Suc i))) \<and> r (length ls) = p"
proof (induction rule: process_run.induct)
  case process_init
  show ?case by auto
next
  case (process_next ls p l p')
  then obtain r where r: "r 0 = init_process (le_config env) defragger"
    "\<forall>i < length ls. process_step env (ls ! i) (r i) (r (Suc i))" "r (length ls) = p" by blast
  with process_next.hyps(2) show ?case
    by (intro exI [of _ "r(Suc (length ls) := p')"]) (auto simp: nth_append less_Suc_eq)
qed

lemma run_extends:
  assumes "process_run env defragger ls p"
  shows "\<exists>r. process_trace env defragger r \<and> (\<forall>i \<ge> length ls. r i = p)"
proof -
  obtain r where r: "r 0 = init_process (le_config env) defragger"
    "\<forall>i < length ls. process_step env (ls ! i) (r i) (r (Suc i))" "r (length ls) = p"
    using run_states [OF assms(1)] by blast
  let ?r = "\<lambda>i. r (min i (length ls))"
  have "(\<exists>l. process_step env l (?r i) (?r (Suc i))) \<or> ?r (Suc i) = ?r i" for i
    using r(2) by (cases "i < length ls") (auto simp: min_def)
  with r(1) have "process_trace env defragger ?r" by (simp add: process_trace_def)
  with r(3) show ?thesis by (intro exI [of _ ?r]) (simp add: min_absorb2)
qed

lemma exited_trace:
  assumes "process_run env defragger ls p" and "pr_main p = Exited"
  shows "\<exists>r. process_trace env defragger r \<and> fair_trace env r \<and> r (length ls) = p"
proof -
  obtain r where trace: "process_trace env defragger r" and last: "\<And>i. length ls \<le> i \<Longrightarrow> r i = p"
    using run_extends [OF assms(1)] by blast
  have "fair_trace env r" unfolding fair_trace_def
  proof (intro conjI)
    have "\<not> process_step env l p p'" for l p'
      using assms(2) by (auto elim!: process_stepE main_stepE)
    then show "weakly_fair (\<lambda>i. \<exists>p. process_step env Internal (r i) p)
        (\<lambda>i. process_step env Internal (r i) (r (Suc i)))"
      unfolding weakly_fair_def using last by (metis max.cobounded1 max.cobounded2)
    note pc = exited_returned(1) [OF assms]
    have "{i. pr_pc (r i) = Selecting \<and> pr_ctx_done (r i)} \<subseteq> {..<length ls}"
      using last pc by (fastforce simp: not_le [symmetric])
    then show "strongly_fair (\<lambda>i. pr_pc (r i) = Selecting \<and> pr_ctx_done (r i)) (\<lambda>i. pr_pc (r i) = InStop)"
      unfolding strongly_fair_def using finite_subset by blast
    show "calls_return r" unfolding calls_return_def
    proof (intro allI impI)
      fix n assume n: "pr_pc (r n) \<in> {InCall, InStop} \<and> (\<forall>i\<ge>n. pr_pc (r i) = pr_pc (r n))"
      then have "pr_pc (r (max n (length ls))) \<in> {InCall, InStop}" by (metis max.cobounded1)
      with last [of "max n (length ls)"] pc
      show "\<exists>m\<ge>n. \<forall>i\<ge>m. pr_pending (r i) \<noteq> [] \<or> pr_crash (r i) \<noteq> None" by simp
    qed
  qed
  with trace last show ?thesis by blast
qed

section \<open>Properties\<close>

text \<open>C6: The shutdown comes to its end also while packets arrive: every fair trace of the process with
  a signal reaches a crash, the exit, or the one state that hangs, with the handler gone and the
  channel full; and what the agent has produced, queued and handled does not change after that.\<close>

theorem fair_shutdown:
  assumes "process_trace env defragger r" and "fair_trace env r" and "pr_ctx_done (r k)"
  shows "\<exists>i. (pr_crash (r i) \<noteq> None \<or> pr_main (r i) = Exited \<or>
      pr_main (r i) = WaitingForServices \<and> \<not> pr_handler_running (r i) \<and> pr_pending (r i) \<noteq> [] \<and>
      length (queued (pr_channel (r i))) = channel_size (le_config env)) \<and>
    (\<forall>j. agent_of (r (i + j)) = agent_of (r i))"
proof -
  obtain i where i: "ended (r i)" using fair_trace_ends [OF assms] by blast
  obtain ls where run: "process_run env defragger ls (r i)" using trace_reached [OF assms(1)] by blast
  have "ended (r (i + j)) \<and> agent_of (r (i + j)) = agent_of (r i)" for j
  proof (induction j)
    case (Suc j)
    consider l where "process_step env l (r (i + j)) (r (Suc (i + j)))" | "r (Suc (i + j)) = r (i + j)"
      using assms(1) by (auto simp: process_trace_def)
    then show ?case
    proof cases
      case (1 l)
      with Suc ended_stays [OF _ _ 1] trace_reached [OF assms(1), of "i + j"] show ?thesis by auto
    qed (use Suc in simp)
  qed (use i in simp)
  moreover have "pr_crash (r i) \<noteq> None \<or> pr_main (r i) = Exited \<or>
      pr_main (r i) = WaitingForServices \<and> \<not> pr_handler_running (r i) \<and> pr_pending (r i) \<noteq> [] \<and>
      length (queued (pr_channel (r i))) = channel_size (le_config env)"
    using i agent_flow [OF process_agent [OF run]]
    by (auto simp: ended_def hangs_def events_flow_def)
  ultimately show ?thesis by blast
qed

theorem fair_shutdown_witness:
  "\<exists>(r :: nat \<Rightarrow> (unit, unit, unit, unit) process) i. process_trace sample_loop () r \<and>
     fair_trace sample_loop r \<and> (pr_crash (r i) \<noteq> None \<or> pr_main (r i) = Exited \<or>
       length (queued (pr_channel (r i))) = 1000)"
proof -
  obtain ls and p :: "(unit, unit, unit, unit) process" where
    p: "process_run sample_loop () ls p" "pr_main p = Exited" using sample_exited by blast
  obtain r where r: "process_trace sample_loop () r" "fair_trace sample_loop r" "r (length ls) = p"
    using exited_trace [OF p] by blast
  then have "pr_ctx_done (r (length ls))" using exited_returned(4) [OF p] by simp
  from fair_shutdown [OF r(1,2) this] r(1,2) show ?thesis
    by (auto simp: sample_loop_fields NewConfig_def)
qed

end
