(* ===== verification/Delivery.thy ===== *)
theory Delivery
  imports Fair_Shutdown
begin

text \<open>
  Delivery: as long as the process is neither stopped nor crashes, every event its loop sends is
  handled in the end, although the channel is bounded and a full one blocks the capture.
\<close>

section \<open>Fairness of the two ends of the channel\<close>

text \<open>The handler's goroutine takes a step.\<close>

definition handler_takes :: "('fsm, 'opt, 'tcp, 'd) process \<Rightarrow> ('fsm, 'opt, 'tcp, 'd) process \<Rightarrow> bool" where
  "handler_takes p p' \<longleftrightarrow> (\<exists>a. handler_step (agent_of p) a \<and> p' = put_agent a p)"

text \<open>The assembler's goroutine gets rid of an event, over the buffer or, without one, directly.\<close>

definition handover :: "('fsm, 'opt, 'tcp, 'd) process \<Rightarrow> ('fsm, 'opt, 'tcp, 'd) process \<Rightarrow> bool" where
  "handover p p' \<longleftrightarrow> (\<exists>e es. pr_pending p = e # es \<and>
     ((\<exists>ch. chan_send (pr_channel p) e = Some ch \<and> p' = p\<lparr>pr_pending := es, pr_channel := ch\<rparr>) \<or>
      capacity (pr_channel p) = 0 \<and> pr_handler_running p \<and>
        p' = p\<lparr>pr_pending := es, pr_handled := pr_handled p @ [e]\<rparr>))"

definition fair_channel :: "(nat \<Rightarrow> ('fsm, 'opt, 'tcp, 'd) process) \<Rightarrow> bool" where
  "fair_channel r \<longleftrightarrow>
     weakly_fair (\<lambda>i. \<exists>p. handler_takes (r i) p) (\<lambda>i. handler_takes (r i) (r (Suc i))) \<and>
     weakly_fair (\<lambda>i. \<exists>p. handover (r i) p) (\<lambda>i. handover (r i) (r (Suc i)))"

text \<open>A process that goes on serving: no signal, no panic.\<close>

definition serving :: "('fsm, 'opt, 'tcp, 'd) process \<Rightarrow> bool" where
  "serving p \<longleftrightarrow> \<not> pr_ctx_done p \<and> pr_crash p = None"

section \<open>What is sent and what is handled only grows\<close>

lemma histories_grow:
  assumes "process_step env l p p'"
  shows "prefix (lp_events (pr_loop p)) (lp_events (pr_loop p')) \<and> prefix (pr_handled p) (pr_handled p')"
  using assms
proof cases
  case pr_assembler
  from pr_assembler(3) show ?thesis
  proof cases
    case (lp_select c st)
    with select_head(1) [OF lp_select(6,4)] show ?thesis by simp
  next
    case (lp_callback cb st)
    then show ?thesis by (auto simp: make_callbacks_single)
  qed simp_all
next
  case (pr_handler a)
  from pr_handler show ?thesis by (auto simp: put_agent_def elim!: handler_stepE)
next
  case (pr_shutdown a)
  from pr_shutdown show ?thesis by (auto simp: put_agent_def elim!: main_stepE)
qed simp_all

lemma trace_grows:
  assumes "process_trace env defragger r" and "i \<le> j"
  shows "prefix (lp_events (pr_loop (r i))) (lp_events (pr_loop (r j))) \<and>
    prefix (pr_handled (r i)) (pr_handled (r j))"
proof -
  have "process_step env l p p' \<Longrightarrow>
      prefix (lp_events (pr_loop (r i))) (lp_events (pr_loop p)) \<and> prefix (pr_handled (r i)) (pr_handled p) \<Longrightarrow>
      prefix (lp_events (pr_loop (r i))) (lp_events (pr_loop p')) \<and> prefix (pr_handled (r i)) (pr_handled p')"
    for l p p' using histories_grow [of env l p p'] by (blast intro: prefix_order.trans)
  from trace_always [OF assms(1) _ assms(2), of "\<lambda>p. prefix (lp_events (pr_loop (r i))) (lp_events (pr_loop p)) \<and>
      prefix (pr_handled (r i)) (pr_handled p)"] this
  show ?thesis by blast
qed

section \<open>The two ends go on\<close>

lemma serving_handler:
  assumes "process_run env defragger ls p" and "serving p"
  shows "pr_handler_running p" "(\<exists>p'. handler_takes p p') \<longleftrightarrow> queued (pr_channel p) \<noteq> []"
proof -
  show run: "pr_handler_running p"
    using agent_shutdown [OF process_agent [OF assms(1)]] assms(2)
    by (auto simp: shutdown_order_def serving_def)
  have "chan_receive (pr_channel p) = (case queued (pr_channel p) of [] \<Rightarrow> None
      | e # es \<Rightarrow> Some (e, pr_channel p\<lparr>queued := es\<rparr>))"
    by (simp add: chan_receive_def split: list.split)
  then show "(\<exists>p'. handler_takes p p') \<longleftrightarrow> queued (pr_channel p) \<noteq> []"
    using run assms(2)
    by (cases "queued (pr_channel p)")
       (auto simp: handler_takes_def serving_def elim!: handler_stepE intro!: exI hdl_receive)
qed

lemma handler_takes_one:
  assumes "handler_takes p p'" and "serving p"
  shows "length (pr_handled p') = Suc (length (pr_handled p))"
  using assms by (auto simp: handler_takes_def serving_def put_agent_def elim!: handler_stepE)

lemma handover_moves:
  assumes "handover p p'"
  shows "length (pr_handled p') = Suc (length (pr_handled p)) \<or> queued (pr_channel p') \<noteq> []"
  using assms by (auto simp: handover_def dest: send_contents)

lemma handover_possible:
  assumes "process_run env defragger ls p" and "serving p"
    and "queued (pr_channel p) = []" and "pr_pending p \<noteq> []"
  shows "\<exists>p'. handover p p'"
proof -
  obtain e es where pend: "pr_pending p = e # es" using assms(4) by (cases "pr_pending p") auto
  show ?thesis
  proof (cases "capacity (pr_channel p) = 0")
    case True
    with pend serving_handler(1) [OF assms(1,2)] show ?thesis unfolding handover_def by blast
  next
    case False
    with assms(3) have "chan_send (pr_channel p) e = Some (pr_channel p\<lparr>queued := [e]\<rparr>)"
      by (simp add: chan_send_def)
    with pend show ?thesis unfolding handover_def by blast
  qed
qed

section \<open>Every event gets through\<close>

lemma bounded_settles:
  fixes f :: "nat \<Rightarrow> nat"
  assumes "\<And>i j. i \<le> j \<Longrightarrow> f i \<le> f j" and "\<And>j. f j \<le> k"
  shows "\<exists>n\<ge>i. \<forall>j\<ge>n. f j = f n"
proof -
  have "finite (range f)" using assms(2) by (auto intro: finite_subset [of _ "{..k}"])
  then have "Max (range f) \<in> range f" by (intro Max_in) auto
  then obtain m where m: "f m = Max (range f)" by (metis imageE)
  have top: "f j = f m" if "m \<le> j" for j
  proof (rule antisym)
    show "f j \<le> f m" unfolding m using \<open>finite (range f)\<close> by (rule Max_ge) simp
    show "f m \<le> f j" using that by (rule assms(1))
  qed
  have "f j = f (max i m)" if "max i m \<le> j" for j
    using top [of j] top [of "max i m"] that by simp
  then show ?thesis by (meson max.cobounded1)
qed

text \<open>If nothing more is handled, the channel is empty, and then nothing is being sent either.\<close>

lemma settled_empty:
  assumes "process_trace env defragger r" and "fair_channel r" and "\<And>i. serving (r i)"
    and settled: "\<And>j. n \<le> j \<Longrightarrow> length (pr_handled (r j)) = length (pr_handled (r n))"
  shows "\<exists>m\<ge>n. queued (pr_channel (r m)) = [] \<and> pr_pending (r m) = []"
proof (rule ccontr)
  assume none: "\<not> ?thesis"
  have run: "\<exists>ls. process_run env defragger ls (r i)" for i using trace_reached [OF assms(1)] .
  have takes: "(\<exists>p. handler_takes (r i) p) \<longleftrightarrow> queued (pr_channel (r i)) \<noteq> []" for i
  proof -
    obtain ls where "process_run env defragger ls (r i)" using run [of i] by blast
    from serving_handler(2) [OF this assms(3)] show ?thesis .
  qed
  have idle: "\<not> handler_takes (r i) (r (Suc i))" if "n \<le> i" for i
    using handler_takes_one [OF _ assms(3)] settled [OF that] settled [of "Suc i"] that by force
  from assms(2) have "weakly_fair (\<lambda>i. \<exists>p. handler_takes (r i) p) (\<lambda>i. handler_takes (r i) (r (Suc i)))"
    and out: "weakly_fair (\<lambda>i. \<exists>p. handover (r i) p) (\<lambda>i. handover (r i) (r (Suc i)))"
    by (simp_all add: fair_channel_def)
  then have drained: "\<exists>i\<ge>m. queued (pr_channel (r i)) = []" if "n \<le> m" for m
    using idle that unfolding weakly_fair_def takes by (meson le_trans)
  have keeps: "queued (pr_channel (r (Suc i))) \<noteq> []" if "n \<le> i" "queued (pr_channel (r i)) \<noteq> []" for i
  proof -
    consider l where "process_step env l (r i) (r (Suc i))" | "r (Suc i) = r i"
      using assms(1) by (auto simp: process_trace_def)
    then show ?thesis
    proof cases
      case (1 l)
      then show ?thesis
      proof cases
        case pr_assembler
        from pr_assembler(3) that(2) show ?thesis
          by cases (auto dest: send_contents)
      next
        case (pr_handler a)
        with idle [OF that(1)] show ?thesis by (auto simp: handler_takes_def)
      next
        case (pr_shutdown a)
        with that(2) show ?thesis by (auto simp: put_agent_def elim!: main_stepE)
      qed (use that(2) in simp_all)
    qed (use that(2) in simp)
  qed
  have empty: "queued (pr_channel (r i)) = []" if "n \<le> i" for i
  proof (rule ccontr)
    assume filled: "\<not> ?thesis"
    obtain j where j: "i \<le> j" "queued (pr_channel (r j)) = []" using drained [of i] \<open>n \<le> i\<close> by blast
    from j(1) have "queued (pr_channel (r j)) \<noteq> []"
    proof (induction j rule: dec_induct)
      case (step j)
      with keeps [of j] that show ?case by simp
    qed (rule filled)
    with j(2) show False by simp
  qed
  with none have "pr_pending (r i) \<noteq> []" if "n \<le> i" for i using that by blast
  then have "\<exists>p. handover (r i) p" if "n \<le> i" for i
    using handover_possible [OF _ assms(3) empty [OF that]] run that by blast
  with out obtain i where i: "n \<le> i" "handover (r i) (r (Suc i))"
    unfolding weakly_fair_def by blast
  from handover_moves [OF i(2)] i(1) empty [of "Suc i"] settled [of i] settled [of "Suc i"] show False
    by simp
qed

lemma delivered_count:
  assumes "process_trace env defragger r" and "fair_channel r" and "\<And>i. serving (r i)"
  shows "\<exists>j\<ge>i. length (lp_events (pr_loop (r i))) \<le> length (pr_handled (r j))"
proof (rule ccontr)
  assume behind: "\<not> ?thesis"
  let ?f = "\<lambda>i. length (pr_handled (r i))"
  have mono: "?f i \<le> ?f j" if "i \<le> j" for i j
    using trace_grows [OF assms(1) that] prefix_length_le by blast
  have bound: "?f j \<le> length (lp_events (pr_loop (r i)))" for j
  proof -
    have "?f j \<le> ?f (max i j)" by (rule mono) simp
    also have "\<dots> \<le> length (lp_events (pr_loop (r i)))"
      using behind by (meson max.cobounded1 nat_le_linear)
    finally show ?thesis .
  qed
  from bounded_settles [of ?f _ i, OF mono bound] obtain n where n: "i \<le> n" "\<And>j. n \<le> j \<Longrightarrow> ?f j = ?f n"
    by blast
  obtain m where m: "n \<le> m" "queued (pr_channel (r m)) = []" "pr_pending (r m) = []"
    using settled_empty [OF assms n(2)] by blast
  obtain ls where "process_run env defragger ls (r m)" using trace_reached [OF assms(1)] by blast
  from agent_flow [OF process_agent [OF this]] m(2,3) have "lp_events (pr_loop (r m)) = pr_handled (r m)"
    by (simp add: events_flow_def)
  moreover have "length (lp_events (pr_loop (r i))) \<le> length (lp_events (pr_loop (r m)))"
    using trace_grows [OF assms(1), of i m] n(1) m(1) prefix_length_le by (meson le_trans)
  ultimately show False using behind n(1) m(1) by auto
qed

section \<open>A sample trace\<close>

lemma serving_before: "process_step env l p p' \<Longrightarrow> serving p' \<Longrightarrow> serving p"
  using process_ctx_done [of env l p p'] crashed_stops [of p env l p']
  by (cases "pr_crash p") (auto simp: serving_def)

lemma always_serving:
  assumes "process_trace env defragger r" and "\<And>i. n \<le> i \<Longrightarrow> serving (r i)"
  shows "serving (r i)"
proof (cases "n \<le> i")
  case False
  then have "i \<le> n" by simp
  then show ?thesis
  proof (induction i rule: inc_induct)
    case base
    show ?case using assms(2) by simp
  next
    case (step i)
    have "(\<exists>l. process_step env l (r i) (r (Suc i))) \<or> r (Suc i) = r i"
      using assms(1) by (auto simp: process_trace_def)
    with step serving_before show ?case by auto
  qed
qed (rule assms(2))

text \<open>A serving process in which an event was sent and received, and nothing is left to do.\<close>

lemma sample_settled:
  "\<exists>ls (p :: (unit, unit, unit, unit) process). process_run sample_loop () ls p \<and> serving p \<and>
     queued (pr_channel p) = [] \<and> pr_pending p = [] \<and> lp_events (pr_loop p) \<noteq> []"
proof -
  obtain ls and p :: "(unit, unit, unit, unit) process" where
    p: "process_run sample_loop () ls p" "length (queued (pr_channel p)) = 1" "pr_pc p = Selecting" "alive p"
      "fresh_agent (agent_of p)" using sample_queued by blast
  then obtain e where e: "queued (pr_channel p) = [e]" by (auto simp: length_Suc_conv)
  let ?p = "put_agent ((agent_of p)\<lparr>channel := (pr_channel p)\<lparr>queued := []\<rparr>,
      handled_events := handled_events (agent_of p) @ [e]\<rparr>) p"
  have "process_run sample_loop () (ls @ [Internal]) ?p"
    using p(5) e by (intro run_handler [OF p(1,4)] hdl_receive) (simp_all add: fresh_agent_def chan_receive_def)
  moreover have "serving ?p"
    using p(4,5) by (simp add: put_agent_def serving_def alive_def fresh_agent_def)
  moreover have "pending_ok p" using reachable_pending_ok [OF run_reachable [OF p(1)]] .
  with p(3) have "pr_pending ?p = []" by (simp add: pending_ok_def)
  moreover have "lp_events (pr_loop ?p) \<noteq> []"
    using agent_flow [OF process_agent [OF p(1)]] e by (simp add: events_flow_def)
  moreover have "queued (pr_channel ?p) = []" by (simp add: put_agent_def)
  ultimately show ?thesis by blast
qed

text \<open>No event is lost while the process serves: whatever its loop has sent at some moment has been
  handled, in order, at a later one, also when the channel is full or has no buffer, provided
  the goroutines at the two ends of the channel are not starved.\<close>

lemma events_delivered:
  assumes "process_trace env defragger r" and "fair_channel r" and "\<forall>i. serving (r i)"
  shows "\<exists>j. prefix (lp_events (pr_loop (r i))) (pr_handled (r j))"
proof -
  obtain j where j: "i \<le> j" "length (lp_events (pr_loop (r i))) \<le> length (pr_handled (r j))"
    using delivered_count [OF assms(1,2)] assms(3) by blast
  obtain ls where "process_run env defragger ls (r j)" using trace_reached [OF assms(1)] by blast
  from agent_flow [OF process_agent [OF this]] have "prefix (pr_handled (r j)) (lp_events (pr_loop (r j)))"
    by (simp add: events_flow_def)
  with trace_grows [OF assms(1) j(1)] j(2) have "prefix (lp_events (pr_loop (r i))) (pr_handled (r j))"
    by (metis prefix_length_prefix)
  then show ?thesis ..
qed

end
