(* ===== verification/Reporting.thy ===== *)
theory Reporting
  imports Delivery Handlers
begin

text \<open>
  The running process with its event handler: in Process the handler's goroutine receives and
  handles an event in one step; here it is taken apart. It receives an event, calls
  \<open>handleEvent\<close> on it, which hands the report to the telemetry library, and only then is back at
  its select. The other goroutines run in between, and a crash can come in between too.
\<close>

section \<open>States and steps\<close>

text \<open>
  \<open>rp_handling\<close> is the event of a call of \<open>handleEvent\<close> that has not returned, \<open>rp_reports\<close> what the
  calls that have returned handed to the library, \<open>rp_calls\<close> their number.
\<close>

record ('fsm, 'opt, 'tcp, 'd, 'ctx) reporting =
  rp_process :: "('fsm, 'opt, 'tcp, 'd) process"
  rp_handling :: "Event option"
  rp_reports :: "'ctx report list"
  rp_calls :: nat

definition init_reporting :: "config \<Rightarrow> 'd \<Rightarrow> ('fsm, 'opt, 'tcp, 'd, 'ctx) reporting" where
  "init_reporting cfg defragger =
     \<lparr>rp_process = init_process cfg defragger, rp_handling = None, rp_reports = [], rp_calls = 0\<rparr>"

text \<open>The goroutine of \<open>Start\<close> of either handler, whose calls are \<open>handle\<close>.\<close>

inductive handler_goroutine ::
  "(nat \<Rightarrow> Event \<Rightarrow> 'ctx report list) \<Rightarrow> ('fsm, 'opt, 'tcp, 'd, 'ctx) reporting
    \<Rightarrow> ('fsm, 'opt, 'tcp, 'd, 'ctx) reporting \<Rightarrow> bool"
  for handle :: "nat \<Rightarrow> Event \<Rightarrow> 'ctx report list" where
  hg_receive: "pr_handler_running (rp_process y) \<Longrightarrow> rp_handling y = None \<Longrightarrow>
     chan_receive (pr_channel (rp_process y)) = Some (e, ch) \<Longrightarrow>
     handler_goroutine handle y
       (y\<lparr>rp_process := (rp_process y)\<lparr>pr_channel := ch, pr_handled := pr_handled (rp_process y) @ [e]\<rparr>,
          rp_handling := Some e\<rparr>)"
| hg_handle: "rp_handling y = Some e \<Longrightarrow>
     handler_goroutine handle y
       (y\<lparr>rp_handling := None, rp_reports := rp_reports y @ handle (rp_calls y) e,
          rp_calls := Suc (rp_calls y)\<rparr>)"
| hg_returns: "pr_handler_running (rp_process y) \<Longrightarrow> rp_handling y = None \<Longrightarrow>
     pr_ctx_done (rp_process y) \<Longrightarrow>
     handler_goroutine handle y
       (y\<lparr>rp_process := (rp_process y)\<lparr>pr_handler_running := False,
            pr_wg_count := pr_wg_count (rp_process y) - 1\<rparr>\<rparr>)"

inductive reporting_step ::
  "('fsm, 'opt, 'tcp, 'pkt, 'net, 'ip, 'd) loop_env \<Rightarrow> (nat \<Rightarrow> Event \<Rightarrow> 'ctx report list)
    \<Rightarrow> ('pkt, 'tcp) label \<Rightarrow> ('fsm, 'opt, 'tcp, 'd, 'ctx) reporting
    \<Rightarrow> ('fsm, 'opt, 'tcp, 'd, 'ctx) reporting \<Rightarrow> bool"
  for env :: "('fsm, 'opt, 'tcp, 'pkt, 'net, 'ip, 'd) loop_env"
    and handle :: "nat \<Rightarrow> Event \<Rightarrow> 'ctx report list" where
  rp_assembler: "pr_crash (rp_process y) = None \<Longrightarrow> pr_main (rp_process y) \<noteq> Exited \<Longrightarrow>
     loop_step env l (rp_process y) p \<Longrightarrow> reporting_step env handle l y (y\<lparr>rp_process := p\<rparr>)"
| rp_pcap: "pr_crash (rp_process y) = None \<Longrightarrow> pr_main (rp_process y) \<noteq> Exited \<Longrightarrow>
     pr_pc (rp_process y) \<noteq> Returned \<Longrightarrow>
     reporting_step env handle (Chosen (PcapTick figures)) y
       (y\<lparr>rp_process := (rp_process y)\<lparr>pr_loop := tick figures (pr_loop (rp_process y))\<rparr>\<rparr>)"
| rp_handler: "pr_crash (rp_process y) = None \<Longrightarrow> pr_main (rp_process y) \<noteq> Exited \<Longrightarrow>
     handler_goroutine handle y y' \<Longrightarrow> reporting_step env handle Internal y y'"
| rp_shutdown: "pr_crash (rp_process y) = None \<Longrightarrow> main_step (agent_of (rp_process y)) a \<Longrightarrow>
     reporting_step env handle Internal y (y\<lparr>rp_process := put_agent a (rp_process y)\<rparr>)"
| rp_rendezvous: "pr_crash (rp_process y) = None \<Longrightarrow> pr_main (rp_process y) \<noteq> Exited \<Longrightarrow>
     pr_pending (rp_process y) = e # es \<Longrightarrow> capacity (pr_channel (rp_process y)) = 0 \<Longrightarrow>
     pr_handler_running (rp_process y) \<Longrightarrow> rp_handling y = None \<Longrightarrow>
     reporting_step env handle Internal y
       (y\<lparr>rp_process := (rp_process y)\<lparr>pr_pending := es, pr_handled := pr_handled (rp_process y) @ [e]\<rparr>,
          rp_handling := Some e\<rparr>)"

inductive_cases handler_goroutineE: "handler_goroutine handle y y'"
inductive_cases reporting_stepE: "reporting_step env handle l y y'"

inductive reporting_run ::
  "('fsm, 'opt, 'tcp, 'pkt, 'net, 'ip, 'd) loop_env \<Rightarrow> (nat \<Rightarrow> Event \<Rightarrow> 'ctx report list) \<Rightarrow> 'd
    \<Rightarrow> ('fsm, 'opt, 'tcp, 'd, 'ctx) reporting \<Rightarrow> bool"
  for env :: "('fsm, 'opt, 'tcp, 'pkt, 'net, 'ip, 'd) loop_env"
    and handle :: "nat \<Rightarrow> Event \<Rightarrow> 'ctx report list" and defragger :: 'd where
  reporting_init: "reporting_run env handle defragger (init_reporting (le_config env) defragger)"
| reporting_next: "reporting_run env handle defragger y \<Longrightarrow> reporting_step env handle l y y' \<Longrightarrow>
     reporting_run env handle defragger y'"

section \<open>It is the process\<close>

lemma put_agent_receive:
  "put_agent ((agent_of p)\<lparr>channel := ch, handled_events := hs\<rparr>) p = p\<lparr>pr_channel := ch, pr_handled := hs\<rparr>"
  "put_agent ((agent_of p)\<lparr>handler_running := False, wg_count := n\<rparr>) p =
     p\<lparr>pr_handler_running := False, pr_wg_count := n\<rparr>"
  by (simp_all add: put_agent_def agent_of_def)

lemma goroutine_process:
  assumes "handler_goroutine handle y y'" and "pr_crash (rp_process y) = None"
    and "pr_main (rp_process y) \<noteq> Exited"
  shows "rp_process y' = rp_process y \<or> process_step env Internal (rp_process y) (rp_process y')"
  using assms(1)
proof cases
  case (hg_receive e ch)
  then have "handler_step (agent_of (rp_process y)) ((agent_of (rp_process y))\<lparr>channel := ch,
      handled_events := handled_events (agent_of (rp_process y)) @ [e]\<rparr>)"
    by (intro hdl_receive) simp_all
  from pr_handler [OF assms(2,3) this, of env] hg_receive(1) show ?thesis by (simp add: put_agent_receive)
next
  case hg_returns
  then have "handler_step (agent_of (rp_process y)) ((agent_of (rp_process y))\<lparr>handler_running := False,
      wg_count := wg_count (agent_of (rp_process y)) - 1\<rparr>)"
    by (intro hdl_returns) simp_all
  from pr_handler [OF assms(2,3) this, of env] hg_returns(1) show ?thesis by (simp add: put_agent_receive)
qed simp

lemma reporting_process:
  assumes "reporting_step env handle l y y'"
  shows "rp_process y' = rp_process y \<or> process_step env l (rp_process y) (rp_process y')"
  using assms
proof cases
  case rp_handler
  with goroutine_process [OF rp_handler(4,2,3)] show ?thesis by simp
qed (auto intro: process_step.intros)

interpretation reporting: step_refinement "init_reporting (le_config env) defragger"
  "\<lambda>y y'. \<exists>l. reporting_step env handle l y y'" "init_process (le_config env) defragger"
  "\<lambda>p p'. \<exists>l. process_step env l p p'" rp_process for env defragger handle
  by unfold_locales (auto simp: init_reporting_def dest: reporting_process)

lemma reporting_process_run:
  "reporting_run env handle defragger y \<Longrightarrow> \<exists>ls. process_run env defragger ls (rp_process y)"
proof (induction rule: reporting_run.induct)
  case reporting_init
  show ?case using process_init [of env defragger] by (auto simp: init_reporting_def)
next
  case (reporting_next y l y')
  from reporting_process [OF reporting_next.hyps(2)] reporting_next.IH show ?case
    by (auto intro: process_next)
qed

section \<open>What has been reported\<close>

definition in_flight :: "('fsm, 'opt, 'tcp, 'd, 'ctx) reporting \<Rightarrow> Event list" where
  "in_flight y = (case rp_handling y of None \<Rightarrow> [] | Some e \<Rightarrow> [e])"

text \<open>
  The reports are those of the handled events without the one in flight; the handler returns
  only between two calls.
\<close>

definition reports_ok ::
  "(nat \<Rightarrow> Event \<Rightarrow> 'ctx report list) \<Rightarrow> ('fsm, 'opt, 'tcp, 'd, 'ctx) reporting \<Rightarrow> bool" where
  "reports_ok handle y \<longleftrightarrow>
     (\<exists>finished. pr_handled (rp_process y) = finished @ in_flight y \<and>
        rp_reports y = handle_all handle 0 finished \<and> rp_calls y = length finished) \<and>
     (rp_handling y \<noteq> None \<longrightarrow> pr_handler_running (rp_process y))"

lemma loop_step_handler:
  "loop_step env l p p' \<Longrightarrow> pr_handled p' = pr_handled p \<and> pr_handler_running p' = pr_handler_running p"
  by (elim loop_stepE) auto

lemma main_step_handler:
  "main_step (agent_of p) a \<Longrightarrow> pr_handled (put_agent a p) = pr_handled p \<and>
    pr_handler_running (put_agent a p) = pr_handler_running p"
  by (auto simp: put_agent_def elim!: main_stepE)

lemma in_flight_simps [simp]:
  "rp_handling y = None \<Longrightarrow> in_flight y = []" "rp_handling y = Some e \<Longrightarrow> in_flight y = [e]"
  by (simp_all add: in_flight_def)

lemma reports_ok_cong:
  assumes "pr_handled (rp_process y') = pr_handled (rp_process y)"
    and "pr_handler_running (rp_process y') = pr_handler_running (rp_process y)"
    and "rp_handling y' = rp_handling y" "rp_reports y' = rp_reports y" "rp_calls y' = rp_calls y"
  shows "reports_ok handle y' = reports_ok handle y"
  using assms by (simp add: reports_ok_def in_flight_def)

lemma goroutine_reports:
  assumes "handler_goroutine handle y y'" and "reports_ok handle y"
  shows "reports_ok handle y'"
proof -
  obtain finished where fin: "pr_handled (rp_process y) = finished @ in_flight y"
    "rp_reports y = handle_all handle 0 finished" "rp_calls y = length finished"
    and run: "rp_handling y \<noteq> None \<longrightarrow> pr_handler_running (rp_process y)"
    using assms(2) by (auto simp: reports_ok_def)
  from assms(1) show ?thesis
  proof cases
    case (hg_handle e)
    with fin have "rp_reports y' = handle_all handle 0 (finished @ [e])"
      by (simp add: handle_all_append)
    with hg_handle fin show ?thesis by (auto simp: reports_ok_def)
  qed (use fin run in \<open>auto simp: reports_ok_def\<close>)
qed

lemma reports_ok_step:
  assumes "reporting_step env handle l y y'" and "reports_ok handle y"
  shows "reports_ok handle y'"
  using assms(1)
proof cases
  case (rp_assembler p)
  with loop_step_handler [OF rp_assembler(4)] assms(2) show ?thesis
    using reports_ok_cong [of y' y handle] by simp
next
  case (rp_pcap figures)
  with assms(2) show ?thesis using reports_ok_cong [of y' y handle] by simp
next
  case rp_handler
  from goroutine_reports [OF rp_handler(4) assms(2)] show ?thesis .
next
  case (rp_shutdown a)
  with main_step_handler [OF rp_shutdown(4)] assms(2) show ?thesis
    using reports_ok_cong [of y' y handle] by simp
next
  case (rp_rendezvous e es)
  with assms(2) show ?thesis by (auto simp: reports_ok_def)
qed

lemma run_reports_ok: "reporting_run env handle defragger y \<Longrightarrow> reports_ok handle y"
proof (induction rule: reporting_run.induct)
  case reporting_init
  show ?case by (simp add: reports_ok_def init_reporting_def init_process_def in_flight_def)
qed (blast intro: reports_ok_step)

lemma http_events:
  assumes "agent_reachable g lib cfg a"
  shows "\<forall>ev \<in> set (handled_events a). \<exists>e. ev = EvHttp e"
proof
  fix ev assume "ev \<in> set (handled_events a)"
  moreover obtain n where n: "registry_run g lib cfg n (produced a) (reg a)"
    using agent_registry [OF assms] by blast
  moreover have "set (handled_events a) \<subseteq> set (produced a)"
    using agent_flow [OF assms] by (auto simp: events_flow_def)
  ultimately show "\<exists>e. ev = EvHttp e"
    using run_ok [of g lib cfg n "produced a" "reg a"] by (auto simp: registry_ok_def event_ok_def)
qed

text \<open>Where each event the loop has sent is.\<close>

lemma run_whereabouts:
  assumes "reporting_run env handle defragger y"
  obtains finished where "rp_reports y = handle_all handle 0 finished"
    "lp_events (pr_loop (rp_process y)) =
       finished @ in_flight y @ queued (pr_channel (rp_process y)) @ pr_pending (rp_process y)"
    "length (queued (pr_channel (rp_process y))) \<le> channel_size (le_config env)"
    "length (pr_pending (rp_process y)) \<le> 1"
    "\<forall>ev \<in> set finished. \<exists>e. ev = EvHttp e"
proof -
  obtain ls where "process_run env defragger ls (rp_process y)"
    using reporting_process_run [OF assms] by blast
  note agent = process_agent [OF this]
  have "\<forall>ev \<in> set (pr_handled (rp_process y)). \<exists>e. ev = EvHttp e"
    using http_events [OF agent] by simp
  with run_reports_ok [OF assms] agent_flow [OF agent] one_pending [OF agent] show thesis
    by (auto simp: reports_ok_def events_flow_def intro!: that)
qed

section \<open>Every report gets out\<close>

definition reporting_trace ::
  "('fsm, 'opt, 'tcp, 'pkt, 'net, 'ip, 'd) loop_env \<Rightarrow> (nat \<Rightarrow> Event \<Rightarrow> 'ctx report list) \<Rightarrow> 'd
    \<Rightarrow> (nat \<Rightarrow> ('fsm, 'opt, 'tcp, 'd, 'ctx) reporting) \<Rightarrow> bool" where
  "reporting_trace env handle defragger r \<longleftrightarrow> r 0 = init_reporting (le_config env) defragger \<and>
     (\<forall>i. (\<exists>l. reporting_step env handle l (r i) (r (Suc i))) \<or> r (Suc i) = r i)"

text \<open>The sender gets rid of an event: into the buffer, or to a handler that is at its select.\<close>

definition delivers ::
  "('fsm, 'opt, 'tcp, 'd, 'ctx) reporting \<Rightarrow> ('fsm, 'opt, 'tcp, 'd, 'ctx) reporting \<Rightarrow> bool" where
  "delivers y y' \<longleftrightarrow> (\<exists>e es. pr_pending (rp_process y) = e # es \<and>
     ((\<exists>ch. chan_send (pr_channel (rp_process y)) e = Some ch \<and>
         y' = y\<lparr>rp_process := (rp_process y)\<lparr>pr_pending := es, pr_channel := ch\<rparr>\<rparr>) \<or>
      capacity (pr_channel (rp_process y)) = 0 \<and> pr_handler_running (rp_process y) \<and> rp_handling y = None \<and>
        y' = y\<lparr>rp_process := (rp_process y)\<lparr>pr_pending := es, pr_handled := pr_handled (rp_process y) @ [e]\<rparr>,
               rp_handling := Some e\<rparr>))"

text \<open>Neither the handler's goroutine nor a sender is starved.\<close>

definition fair_reporting ::
  "(nat \<Rightarrow> Event \<Rightarrow> 'ctx report list) \<Rightarrow> (nat \<Rightarrow> ('fsm, 'opt, 'tcp, 'd, 'ctx) reporting) \<Rightarrow> bool" where
  "fair_reporting handle r \<longleftrightarrow>
     weakly_fair (\<lambda>i. \<exists>y. handler_goroutine handle (r i) y) (\<lambda>i. handler_goroutine handle (r i) (r (Suc i))) \<and>
     weakly_fair (\<lambda>i. \<exists>y. delivers (r i) y) (\<lambda>i. delivers (r i) (r (Suc i)))"

lemma reporting_trace_process:
  "reporting_trace env handle defragger r \<Longrightarrow> process_trace env defragger (\<lambda>i. rp_process (r i))"
  unfolding reporting_trace_def process_trace_def
  by (auto simp: init_reporting_def) (metis reporting_process)

lemma reporting_trace_run:
  assumes "reporting_trace env handle defragger r"
  shows "reporting_run env handle defragger (r i)"
proof (induction i)
  case 0
  show ?case using assms reporting_init [of env handle defragger] by (simp add: reporting_trace_def)
next
  case (Suc i)
  have "(\<exists>l. reporting_step env handle l (r i) (r (Suc i))) \<or> r (Suc i) = r i"
    using assms by (auto simp: reporting_trace_def)
  with Suc show ?case by (auto intro: reporting_next)
qed

text \<open>A handler that is at its select stays there until it takes an event.\<close>

lemma idle_step:
  assumes "reporting_trace env handle defragger r" and "rp_handling (r i) = None"
    and "rp_handling (r (Suc i)) \<noteq> None"
  shows "handler_takes (rp_process (r i)) (rp_process (r (Suc i))) \<and> queued (pr_channel (rp_process (r i))) \<noteq> [] \<or>
    handover (rp_process (r i)) (rp_process (r (Suc i))) \<and> capacity (pr_channel (rp_process (r i))) = 0"
proof -
  have "(\<exists>l. reporting_step env handle l (r i) (r (Suc i))) \<or> r (Suc i) = r i"
    using assms(1) by (simp add: reporting_trace_def)
  moreover have "r (Suc i) \<noteq> r i" using assms(2,3) by auto
  ultimately obtain l where "reporting_step env handle l (r i) (r (Suc i))" by blast
  then show ?thesis
  proof cases
    case rp_handler
    from rp_handler(4) show ?thesis
    proof cases
      case (hg_receive e ch)
      then have "handler_step (agent_of (rp_process (r i))) ((agent_of (rp_process (r i)))\<lparr>channel := ch,
          handled_events := handled_events (agent_of (rp_process (r i))) @ [e]\<rparr>)"
        by (intro hdl_receive) simp_all
      with hg_receive show ?thesis unfolding handler_takes_def
        by (auto simp: put_agent_receive chan_receive_def intro!: exI)
    qed (use assms in auto)
  next
    case (rp_rendezvous e es)
    then show ?thesis by (auto simp: handover_def)
  qed (use assms in auto)
qed

lemma handling_goroutine: "rp_handling y = Some e \<Longrightarrow> \<exists>y'. handler_goroutine handle y y'"
  using hg_handle by blast

text \<open>A call of \<open>handleEvent\<close> returns.\<close>

lemma idle_again:
  assumes "fair_reporting handle r"
  shows "\<exists>k\<ge>j. rp_handling (r k) = None"
proof (rule ccontr)
  assume "\<not> ?thesis"
  then have busy: "\<exists>e. rp_handling (r k) = Some e" if "j \<le> k" for k using that by auto
  then have "\<exists>y. handler_goroutine handle (r k) y" if "j \<le> k" for k
    using handling_goroutine that by metis
  with assms obtain k where k: "j \<le> k" "handler_goroutine handle (r k) (r (Suc k))"
    unfolding fair_reporting_def weakly_fair_def by blast
  obtain e e' where "rp_handling (r k) = Some e" "rp_handling (r (Suc k)) = Some e'"
    using busy [of k] busy [of "Suc k"] k(1) by auto
  with k(2) show False by (auto elim: handler_goroutineE)
qed

lemma idle_stays:
  assumes "reporting_trace env handle defragger r" and "rp_handling (r k) = None" and "k \<le> j"
    and "\<And>i. k \<le> i \<Longrightarrow> \<not> (handler_takes (rp_process (r i)) (rp_process (r (Suc i))) \<and>
      queued (pr_channel (rp_process (r i))) \<noteq> [])"
    and "\<And>i. k \<le> i \<Longrightarrow> \<not> (handover (rp_process (r i)) (rp_process (r (Suc i))) \<and>
      capacity (pr_channel (rp_process (r i))) = 0)"
  shows "rp_handling (r j) = None"
  using assms(3)
proof (induction j rule: dec_induct)
  case (step j)
  with idle_step [OF assms(1), of j] assms(4,5) [of j] show ?case by (meson not_None_eq)
qed (rule assms(2))

text \<open>What a step of the goroutine is for the process, and what a delivery is.\<close>

lemma goroutine_takes:
  assumes "handler_goroutine handle y y'" and "rp_handling y = None"
  shows "handler_takes (rp_process y) (rp_process y')"
  using assms(1)
proof cases
  case (hg_receive e ch)
  then have "handler_step (agent_of (rp_process y)) ((agent_of (rp_process y))\<lparr>channel := ch,
      handled_events := handled_events (agent_of (rp_process y)) @ [e]\<rparr>)"
    by (intro hdl_receive) simp_all
  with hg_receive show ?thesis unfolding handler_takes_def by (auto simp: put_agent_receive intro!: exI)
next
  case hg_returns
  then have "handler_step (agent_of (rp_process y)) ((agent_of (rp_process y))\<lparr>handler_running := False,
      wg_count := wg_count (agent_of (rp_process y)) - 1\<rparr>)"
    by (intro hdl_returns) simp_all
  with hg_returns show ?thesis unfolding handler_takes_def by (auto simp: put_agent_receive intro!: exI)
qed (use assms(2) in simp)

lemma delivers_handover: "delivers y y' \<Longrightarrow> handover (rp_process y) (rp_process y')"
  by (auto simp: delivers_def handover_def)

lemma takes_goroutine:
  assumes "handler_takes (rp_process y) p"
  shows "\<exists>y'. handler_goroutine handle y y'"
proof (cases "rp_handling y")
  case None
  from assms obtain a where "handler_step (agent_of (rp_process y)) a" by (auto simp: handler_takes_def)
  then show ?thesis
  proof cases
    case (hdl_receive e ch)
    with hg_receive [OF _ None, of e ch handle] show ?thesis by auto
  next
    case hdl_returns
    with hg_returns [OF _ None, of handle] show ?thesis by auto
  qed
next
  case (Some e)
  then show ?thesis by (rule handling_goroutine)
qed

lemma handover_delivers:
  assumes "handover (rp_process y) p"
    and "capacity (pr_channel (rp_process y)) = 0 \<Longrightarrow> rp_handling y = None"
  shows "\<exists>y'. delivers y y'"
proof -
  from assms(1) obtain e es where pend: "pr_pending (rp_process y) = e # es"
    and how: "(\<exists>ch. chan_send (pr_channel (rp_process y)) e = Some ch) \<or>
      capacity (pr_channel (rp_process y)) = 0 \<and> pr_handler_running (rp_process y)"
    unfolding handover_def by blast
  from how show ?thesis
  proof
    assume "\<exists>ch. chan_send (pr_channel (rp_process y)) e = Some ch"
    with pend show ?thesis unfolding delivers_def by blast
  next
    assume direct: "capacity (pr_channel (rp_process y)) = 0 \<and> pr_handler_running (rp_process y)"
    with assms(2) have "rp_handling y = None" by simp
    with direct show ?thesis by (auto simp: delivers_def pend)
  qed
qed

lemma capacity_fixed:
  assumes "reporting_run env handle defragger y"
  shows "capacity (pr_channel (rp_process y)) = channel_size (le_config env)"
    "length (queued (pr_channel (rp_process y))) \<le> channel_size (le_config env)"
proof -
  obtain ls where "process_run env defragger ls (rp_process y)"
    using reporting_process_run [OF assms] by blast
  from agent_flow [OF process_agent [OF this]]
  show "capacity (pr_channel (rp_process y)) = channel_size (le_config env)"
    "length (queued (pr_channel (rp_process y))) \<le> channel_size (le_config env)"
    by (simp_all add: events_flow_def)
qed

text \<open>Fairness of the goroutines is fairness of the two ends of the channel.\<close>

lemma fair_handler:
  assumes trace: "reporting_trace env handle defragger r" and fair: "fair_reporting handle r"
    and serves: "\<And>i. serving (rp_process (r i))"
    and can: "\<And>i. n \<le> i \<Longrightarrow> \<exists>p. handler_takes (rp_process (r i)) p"
  shows "\<exists>i\<ge>n. handler_takes (rp_process (r i)) (rp_process (r (Suc i)))"
proof (rule ccontr)
  assume none: "\<not> ?thesis"
  have full: "queued (pr_channel (rp_process (r i))) \<noteq> []" if "n \<le> i" for i
  proof -
    obtain ls where "process_run env defragger ls (rp_process (r i))"
      using reporting_process_run [OF reporting_trace_run [OF trace]] by blast
    from serving_handler(2) [OF this serves] can [OF that] show ?thesis by simp
  qed
  have buffered: "capacity (pr_channel (rp_process (r i))) \<noteq> 0" if "n \<le> i" for i
    using full [OF that] capacity_fixed [OF reporting_trace_run [OF trace], of i]
    by (cases "queued (pr_channel (rp_process (r i)))") auto
  obtain k where k: "n \<le> k" "rp_handling (r k) = None" using idle_again [OF fair] by blast
  have idle: "rp_handling (r j) = None" if "k \<le> j" for j
    using idle_stays [OF trace k(2) that] none buffered k(1) by (meson le_trans)
  have "\<exists>y. handler_goroutine handle (r j) y" if "k \<le> j" for j
    using can [of j] takes_goroutine that k(1) by (meson le_trans)
  with fair obtain j where j: "k \<le> j" "handler_goroutine handle (r j) (r (Suc j))"
    unfolding fair_reporting_def weakly_fair_def by blast
  from goroutine_takes [OF j(2) idle [OF j(1)]] none j(1) k(1) show False by auto
qed

lemma fair_sender:
  assumes trace: "reporting_trace env handle defragger r" and fair: "fair_reporting handle r"
    and can: "\<And>i. n \<le> i \<Longrightarrow> \<exists>p. handover (rp_process (r i)) p"
  shows "\<exists>i\<ge>n. handover (rp_process (r i)) (rp_process (r (Suc i)))"
proof (rule ccontr)
  assume none: "\<not> ?thesis"
  obtain k where k: "n \<le> k" "rp_handling (r k) = None" using idle_again [OF fair] by blast
  have idle: "rp_handling (r j) = None"
    if "k \<le> j" and unbuffered: "capacity (pr_channel (rp_process (r j))) = 0" for j
  proof -
    have "queued (pr_channel (rp_process (r i))) = []" for i
      using capacity_fixed [OF reporting_trace_run [OF trace], of i]
        capacity_fixed(1) [OF reporting_trace_run [OF trace], of j] unbuffered by simp
    with idle_stays [OF trace k(2) that(1)] none k(1) show ?thesis by (meson le_trans)
  qed
  have "\<exists>y. delivers (r j) y" if "k \<le> j" for j
  proof -
    obtain p where "handover (rp_process (r j)) p" using can [of j] k(1) \<open>k \<le> j\<close> by auto
    from handover_delivers [OF this idle [OF that]] show ?thesis .
  qed
  with fair obtain j where j: "k \<le> j" "delivers (r j) (r (Suc j))"
    unfolding fair_reporting_def weakly_fair_def by blast
  from delivers_handover [OF j(2)] none j(1) k(1) show False by auto
qed

lemma fair_reporting_channel:
  assumes "reporting_trace env handle defragger r" and "fair_reporting handle r"
    and "\<And>i. serving (rp_process (r i))"
  shows "fair_channel (\<lambda>i. rp_process (r i))"
  unfolding fair_channel_def weakly_fair_def
  using fair_handler [OF assms] fair_sender [OF assms(1,2)] by blast

text \<open>So each event sent at some moment has its report out at a later one.\<close>

lemma reports_catch_up:
  assumes "reporting_trace env handle defragger r" and "fair_reporting handle r"
    and "\<forall>i. serving (rp_process (r i))"
  shows "\<exists>j finished. rp_reports (r j) = handle_all handle 0 finished \<and>
    prefix (lp_events (pr_loop (rp_process (r i)))) finished \<and> (\<forall>ev \<in> set finished. \<exists>e. ev = EvHttp e)"
proof -
  note trace = reporting_trace_process [OF assms(1)]
  from fair_reporting_channel [OF assms(1,2)] assms(3) have "fair_channel (\<lambda>i. rp_process (r i))" by simp
  from events_delivered [OF trace this] assms(3) obtain j where
    j: "prefix (lp_events (pr_loop (rp_process (r i)))) (pr_handled (rp_process (r j)))" by blast
  obtain k where k: "j \<le> k" "rp_handling (r k) = None" using idle_again [OF assms(2)] by blast
  have "prefix (pr_handled (rp_process (r j))) (pr_handled (rp_process (r k)))"
    using trace_grows [OF trace k(1)] by simp
  with j have "prefix (lp_events (pr_loop (rp_process (r i)))) (pr_handled (rp_process (r k)))"
    by (rule prefix_order.trans)
  moreover have "rp_reports (r k) = handle_all handle 0 (pr_handled (rp_process (r k)))"
    using run_reports_ok [OF reporting_trace_run [OF assms(1), of k]] k(2)
    by (auto simp: reports_ok_def)
  moreover obtain ls where "process_run env defragger ls (rp_process (r k))"
    using trace_reached [OF trace] by blast
  then have "\<forall>ev \<in> set (pr_handled (rp_process (r k))). \<exists>e. ev = EvHttp e"
    using http_events [OF process_agent] by fastforce
  ultimately show ?thesis by blast
qed

section \<open>Every run of the process has its reports\<close>

abbreviation reporting_steps ::
  "('fsm, 'opt, 'tcp, 'pkt, 'net, 'ip, 'd) loop_env \<Rightarrow> (nat \<Rightarrow> Event \<Rightarrow> 'ctx report list)
    \<Rightarrow> ('fsm, 'opt, 'tcp, 'd, 'ctx) reporting \<Rightarrow> ('fsm, 'opt, 'tcp, 'd, 'ctx) reporting \<Rightarrow> bool" where
  "reporting_steps env handle \<equiv> (\<lambda>y y'. \<exists>l. reporting_step env handle l y y')\<^sup>*\<^sup>*"

lemma run_steps: "reporting_run env handle defragger y \<longleftrightarrow>
    reporting_steps env handle (init_reporting (le_config env) defragger) y"
proof
  assume "reporting_run env handle defragger y"
  then show "reporting_steps env handle (init_reporting (le_config env) defragger) y"
  proof (induction rule: reporting_run.induct)
    case (reporting_next y l y')
    from reporting_next.hyps(2) have "\<exists>l. reporting_step env handle l y y'" ..
    with reporting_next.IH show ?case by (rule rtranclp.rtrancl_into_rtrancl)
  qed simp
next
  assume "reporting_steps env handle (init_reporting (le_config env) defragger) y"
  then show "reporting_run env handle defragger y"
    by (induction rule: rtranclp_induct) (auto intro: reporting_init reporting_next)
qed

lemma single_step: "reporting_step env handle l y y' \<Longrightarrow> reporting_steps env handle y y'"
  by (intro r_into_rtranclp exI)

text \<open>A handler that has received goes on to report.\<close>

lemma report_received:
  assumes "reporting_step env handle l y y'" and "rp_handling y' = Some e"
    and "pr_crash (rp_process y') = None" "pr_main (rp_process y') \<noteq> Exited"
  shows "\<exists>z. reporting_steps env handle y z \<and> rp_process z = rp_process y' \<and> rp_handling z = None"
proof -
  let ?z = "y'\<lparr>rp_handling := None, rp_reports := rp_reports y' @ handle (rp_calls y') e,
    rp_calls := Suc (rp_calls y')\<rparr>"
  from rp_handler [OF assms(3,4) hg_handle [OF assms(2)]] have "reporting_steps env handle y' ?z"
    by (rule single_step)
  with single_step [OF assms(1)] have "reporting_steps env handle y ?z" by (rule rtranclp_trans)
  then show ?thesis by (intro exI [of _ ?z]) simp
qed

lemma process_step_reported:
  fixes y :: "('fsm, 'opt, 'tcp, 'd, 'ctx) reporting"
  assumes "process_step env l (rp_process y) p" and "rp_handling y = None"
  shows "\<exists>z. reporting_steps env handle y z \<and> rp_process z = p \<and> rp_handling z = None"
  using assms(1)
proof cases
  case pr_assembler
  from single_step [OF rp_assembler [OF pr_assembler]]
  have "reporting_steps env handle y (y\<lparr>rp_process := p\<rparr>)" by simp
  with assms(2) show ?thesis by (intro exI [of _ "y\<lparr>rp_process := p\<rparr>"]) auto
next
  case (pr_pcap figures)
  from single_step [OF rp_pcap [OF pr_pcap(3-5), where env = env and handle = handle]] pr_pcap(2)
  have "reporting_steps env handle y (y\<lparr>rp_process := p\<rparr>)" by simp
  with assms(2) show ?thesis by (intro exI [of _ "y\<lparr>rp_process := p\<rparr>"]) auto
next
  case (pr_handler a)
  from pr_handler(5) show ?thesis
  proof cases
    case (hdl_receive e ch)
    then have "handler_goroutine handle y (y\<lparr>rp_process := p, rp_handling := Some e\<rparr>)"
      using hg_receive [of y e ch handle] assms(2) pr_handler(2) by (simp add: put_agent_receive)
    from report_received [OF rp_handler [OF pr_handler(3,4) this, where env = env], of e] show ?thesis
      using pr_handler(2-4) hdl_receive(1) by (simp add: put_agent_def)
  next
    case hdl_returns
    then have "handler_goroutine handle y (y\<lparr>rp_process := p\<rparr>)"
      using hg_returns [of y handle] assms(2) pr_handler(2) by (simp add: put_agent_receive)
    from single_step [OF rp_handler [OF pr_handler(3,4) this, where env = env]]
    have "reporting_steps env handle y (y\<lparr>rp_process := p\<rparr>)" by simp
    with assms(2) show ?thesis by (intro exI [of _ "y\<lparr>rp_process := p\<rparr>"]) auto
  qed
next
  case (pr_shutdown a)
  from single_step [OF rp_shutdown [OF pr_shutdown(3,4), where env = env and handle = handle]] pr_shutdown(2)
  have "reporting_steps env handle y (y\<lparr>rp_process := p\<rparr>)" by simp
  with assms(2) show ?thesis by (intro exI [of _ "y\<lparr>rp_process := p\<rparr>"]) auto
next
  case (pr_rendezvous e es)
  from report_received [OF rp_rendezvous [OF pr_rendezvous(3-7) assms(2),
      where env = env and handle = handle], of e] show ?thesis
    using pr_rendezvous(2-4) by simp
qed

lemma process_reported:
  "process_run env defragger ls p \<Longrightarrow>
    \<exists>y :: ('fsm, 'opt, 'tcp, 'd, 'ctx) reporting. reporting_run env handle defragger y \<and> rp_process y = p \<and>
      rp_handling y = None"
proof (induction rule: process_run.induct)
  case process_init
  show ?case
    by (intro exI [of _ "init_reporting (le_config env) defragger"] conjI reporting_init)
       (simp_all add: init_reporting_def)
next
  case (process_next ls p l p')
  then obtain y where y: "reporting_run env handle defragger y" "rp_process y = p" "rp_handling y = None"
    by blast
  with process_step_reported [of env l y p'] process_next.hyps(2) obtain z where
    "reporting_steps env handle y z" "rp_process z = p'" "rp_handling z = None" by blast
  with rtranclp_trans [OF y(1) [unfolded run_steps] this(1)] show ?case
    unfolding run_steps by blast
qed

section \<open>A sample trace\<close>

definition sample_handle :: "nat \<Rightarrow> Event \<Rightarrow> unit report list" where
  "sample_handle = handle_call sample_env (\<lambda>h. ())
     (LibhoneyHandler (initLibhoney (NewConfig Map.empty) ''1.0'' [])
        \<lparr>lh_config = NewConfig Map.empty, lh_k8sClient = sample_client\<rparr> :: unit eventHandler)
     (\<lambda>n. \<lparr>cache_at = sample_client, clock_at = (\<lambda>n. int n), orders_at = sample_orders\<rparr>)"

lemma steps_trace:
  assumes "reporting_run env handle defragger y"
  shows "\<exists>r n. reporting_trace env handle defragger r \<and> (\<forall>i\<ge>n. r i = y)"
proof -
  obtain n f where f: "f 0 = init_reporting (le_config env) defragger" "f n = y"
    "\<forall>i<n. \<exists>l. reporting_step env handle l (f i) (f (Suc i))"
    using assms unfolding run_steps rtranclp_power relpowp_fun_conv by blast
  let ?r = "\<lambda>i. f (min i n)"
  have "(\<exists>l. reporting_step env handle l (?r i) (?r (Suc i))) \<or> ?r (Suc i) = ?r i" for i
    using f(3) by (cases "i < n") (auto simp: min_def)
  with f(1) have "reporting_trace env handle defragger ?r" by (simp add: reporting_trace_def)
  moreover have "\<forall>i\<ge>n. ?r i = y" using f(2) by (simp add: min_absorb2)
  ultimately show ?thesis by blast
qed

lemma quiet_reporting:
  assumes "\<And>i. n \<le> i \<Longrightarrow> r i = y" and "\<nexists>y'. handler_goroutine handle y y'" and "\<nexists>y'. delivers y y'"
  shows "fair_reporting handle r"
  unfolding fair_reporting_def weakly_fair_def using assms by (metis max.cobounded1 max.cobounded2)

lemma sample_reporting:
  "\<exists>(r :: nat \<Rightarrow> (unit, unit, unit, unit, unit) reporting) i. reporting_trace sample_loop sample_handle () r \<and>
     fair_reporting sample_handle r \<and> (\<forall>i. serving (rp_process (r i))) \<and>
     lp_events (pr_loop (rp_process (r i))) \<noteq> []"
proof -
  obtain ls and p :: "(unit, unit, unit, unit) process" where
    p: "process_run sample_loop () ls p" "serving p" "queued (pr_channel p) = []" "pr_pending p = []"
      "lp_events (pr_loop p) \<noteq> []" using sample_settled by blast
  obtain y :: "(unit, unit, unit, unit, unit) reporting" where
    y: "reporting_run sample_loop sample_handle () y" "rp_process y = p" "rp_handling y = None"
    using process_reported [OF p(1)] by blast
  obtain r n where r: "reporting_trace sample_loop sample_handle () r" "\<forall>i\<ge>n. r i = y"
    using steps_trace [OF y(1)] by blast
  have "\<nexists>p'. handler_takes p p'" using serving_handler(2) [OF p(1,2)] p(3) by simp
  then have "\<nexists>y'. handler_goroutine sample_handle y y'"
    using goroutine_takes [of sample_handle y] y(2,3) by blast
  moreover have "\<nexists>y'. delivers y y'" using p(4) y(2) by (simp add: delivers_def)
  ultimately have "fair_reporting sample_handle r" using r(2) by (intro quiet_reporting) auto
  moreover have "serving (rp_process (r i))" for i
    using always_serving [OF reporting_trace_process [OF r(1)], of n i] r(2) y(2) p(2) by simp
  ultimately show ?thesis using r p(5) y(2) by (intro exI [of _ r] exI [of _ n]) auto
qed

section \<open>Properties\<close>

text \<open>How an event and its report are recognised: by the stream and the request they name.\<close>

definition event_names :: "Event \<Rightarrow> fieldValue option \<times> fieldValue option" where
  "event_names ev = (Some (VString (StreamIdent ev)), Some (VInt (sint (RequestId ev))))"

definition report_names :: "'ctx report \<Rightarrow> fieldValue option \<times> fieldValue option" where
  "report_names x = (report_value ''meta.stream.ident'' x, report_value ''meta.seqack'' x)"

lemma reports_named:
  assumes "\<forall>ev \<in> set evs. \<exists>e. ev = EvHttp e"
  shows "map report_names (handle_all (handle_call henv extract h sur) n evs) = map event_names evs"
  using handler.handled_idents [OF assms, of henv "extract" h sur n]
  by (simp add: report_names_def [abs_def] event_names_def [abs_def])

text \<open>C8: The handler's goroutine computes what the function \<open>Start_handler\<close> does: its reports, and
  whether it has returned, are the function's result on the events it has finished; and every
  event the loop has sent is finished, in its hands, queued or being sent, in this order.\<close>

theorem handler_computes_reports:
  assumes "reporting_run env (handle_call henv extract h sur) defragger y"
  shows "\<exists>finished. Start_handler henv extract h sur (map Received finished @
        (if pr_handler_running (rp_process y) then [] else [ContextDone])) =
      (rp_reports y, \<not> pr_handler_running (rp_process y)) \<and>
    lp_events (pr_loop (rp_process y)) =
      finished @ in_flight y @ queued (pr_channel (rp_process y)) @ pr_pending (rp_process y)"
proof -
  obtain finished where fin: "rp_reports y = handle_all (handle_call henv extract h sur) 0 finished"
    "lp_events (pr_loop (rp_process y)) =
       finished @ in_flight y @ queued (pr_channel (rp_process y)) @ pr_pending (rp_process y)"
    using run_whereabouts [OF assms] by metis
  have "received_events (map Received finished @ cs) = finished @ received_events cs" for cs
    by (induction finished) (simp_all add: received_events_def)
  then have "received_events (map Received finished @
      (if pr_handler_running (rp_process y) then [] else [ContextDone])) = finished"
    by (simp add: received_events_def)
  then have "Start_handler henv extract h sur (map Received finished @
        (if pr_handler_running (rp_process y) then [] else [ContextDone])) =
      (rp_reports y, \<not> pr_handler_running (rp_process y))"
    using fin(1) by (auto simp: Start_handler_def handler_loop_handles)
  with fin(2) show ?thesis by blast
qed

lemma sample_exit_reported:
  "\<exists>y :: (unit, unit, unit, unit, unit) reporting. reporting_run sample_loop sample_handle () y \<and>
     pr_main (rp_process y) = Exited \<and> length (queued (pr_channel (rp_process y))) = 1"
  using sample_exited process_reported [of sample_loop "()" _ _ sample_handle] by metis

theorem handler_computes_reports_witness:
  "\<exists>(y :: (unit, unit, unit, unit, unit) reporting) finished. reporting_run sample_loop sample_handle () y \<and>
     pr_main (rp_process y) = Exited \<and>
     lp_events (pr_loop (rp_process y)) =
       finished @ in_flight y @ queued (pr_channel (rp_process y)) @ pr_pending (rp_process y)"
proof -
  obtain y :: "(unit, unit, unit, unit, unit) reporting" where
    y: "reporting_run sample_loop sample_handle () y" "pr_main (rp_process y) = Exited"
    using sample_exit_reported by blast
  from handler_computes_reports [OF y(1) [unfolded sample_handle_def]] y show ?thesis by blast
qed

text \<open>C10: The loss is bounded, whatever happens: at any moment of any run, also after a crash or in a
  shutdown that hangs, the reports are those of the first events the loop has sent, each once,
  and at most two more events than the channel has places are not reported.\<close>

theorem unreported_bounded:
  assumes "reporting_run env (handle_call henv extract h sur) defragger y"
  shows "prefix (map report_names (rp_reports y)) (map event_names (lp_events (pr_loop (rp_process y)))) \<and>
    length (lp_events (pr_loop (rp_process y))) \<le> length (rp_reports y) + channel_size (le_config env) + 2"
proof -
  obtain finished where fin: "rp_reports y = handle_all (handle_call henv extract h sur) 0 finished"
    "lp_events (pr_loop (rp_process y)) =
       finished @ in_flight y @ queued (pr_channel (rp_process y)) @ pr_pending (rp_process y)"
    "length (queued (pr_channel (rp_process y))) \<le> channel_size (le_config env)"
    "length (pr_pending (rp_process y)) \<le> 1" "\<forall>ev \<in> set finished. \<exists>e. ev = EvHttp e"
    using run_whereabouts [OF assms] by metis
  have named: "map report_names (rp_reports y) = map event_names finished"
    using reports_named [OF fin(5)] fin(1) by simp
  then have "length (rp_reports y) = length finished" by (metis length_map)
  moreover have "length (in_flight y) \<le> 1" by (simp add: in_flight_def split: option.split)
  ultimately show ?thesis using named fin(2-4) by simp
qed

theorem unreported_bounded_witness:
  "\<exists>y :: (unit, unit, unit, unit, unit) reporting. reporting_run sample_loop sample_handle () y \<and>
     length (queued (pr_channel (rp_process y))) = 1 \<and>
     length (lp_events (pr_loop (rp_process y))) \<le> length (rp_reports y) + 1002"
proof -
  obtain y :: "(unit, unit, unit, unit, unit) reporting" where
    y: "reporting_run sample_loop sample_handle () y" "length (queued (pr_channel (rp_process y))) = 1"
    using sample_exit_reported by blast
  from unreported_bounded [OF y(1) [unfolded sample_handle_def]] y show ?thesis
    by (intro exI [of _ y]) (simp add: sample_loop_fields NewConfig_def)
qed

text \<open>C9: At the exit every event the handler received has been reported and the handler closed after
  that, so the library's flush covers all reports; what is missing are the events still queued.\<close>

theorem exit_reports:
  assumes "reporting_run env (handle_call henv extract h sur) defragger y"
    and "pr_main (rp_process y) = Exited"
  shows "pr_closed (rp_process y) \<and> rp_handling y = None \<and>
    map report_names (rp_reports y) @ map event_names (queued (pr_channel (rp_process y))) =
      map event_names (lp_events (pr_loop (rp_process y)))"
proof -
  obtain finished where fin: "rp_reports y = handle_all (handle_call henv extract h sur) 0 finished"
    "lp_events (pr_loop (rp_process y)) =
       finished @ in_flight y @ queued (pr_channel (rp_process y)) @ pr_pending (rp_process y)"
    "\<forall>ev \<in> set finished. \<exists>e. ev = EvHttp e"
    using run_whereabouts [OF assms(1)] by metis
  obtain ls where run: "process_run env defragger ls (rp_process y)"
    using reporting_process_run [OF assms(1)] by blast
  note exited = exited_returned [OF run assms(2)]
  have "\<not> pr_handler_running (rp_process y)"
    using agent_shutdown [OF process_agent [OF run]] assms(2)
    by (auto simp: shutdown_order_def services_def split: if_splits)
  then have "rp_handling y = None" using run_reports_ok [OF assms(1)] by (auto simp: reports_ok_def)
  then show ?thesis using fin(1,2) reports_named [OF fin(3)] exited(2,3) by simp
qed

theorem exit_reports_witness:
  "\<exists>y :: (unit, unit, unit, unit, unit) reporting. reporting_run sample_loop sample_handle () y \<and>
     pr_main (rp_process y) = Exited \<and> pr_closed (rp_process y) \<and>
     length (rp_reports y) + 1 = length (lp_events (pr_loop (rp_process y)))"
proof -
  obtain y :: "(unit, unit, unit, unit, unit) reporting" where
    y: "reporting_run sample_loop sample_handle () y" "pr_main (rp_process y) = Exited"
      "length (queued (pr_channel (rp_process y))) = 1"
    using sample_exit_reported by blast
  note ends = exit_reports [OF y(1) [unfolded sample_handle_def] y(2)]
  then have "length (rp_reports y) + length (queued (pr_channel (rp_process y))) =
      length (lp_events (pr_loop (rp_process y)))" by (metis length_append length_map)
  with ends y show ?thesis by (intro exI [of _ y]) simp
qed

text \<open>C7: From the loop to the report, in the end: while the process serves, each match its loop sends
  at some moment has its report handed to the telemetry library at a later one, in order and
  once, whichever handler is configured, provided no goroutine at the channel is starved.\<close>

theorem exchanges_reported:
  assumes "reporting_trace env (handle_call henv extract h sur) defragger r"
    and "fair_reporting (handle_call henv extract h sur) r" and "\<forall>i. serving (rp_process (r i))"
  shows "\<exists>j. prefix (map event_names (lp_events (pr_loop (rp_process (r i)))))
    (map report_names (rp_reports (r j)))"
proof -
  obtain j finished where j: "rp_reports (r j) = handle_all (handle_call henv extract h sur) 0 finished"
    "prefix (lp_events (pr_loop (rp_process (r i)))) finished" "\<forall>ev \<in> set finished. \<exists>e. ev = EvHttp e"
    using reports_catch_up [OF assms] by blast
  from reports_named [OF j(3)] j(1) have "map report_names (rp_reports (r j)) = map event_names finished" by simp
  with map_mono_prefix [OF j(2), of event_names] show ?thesis by (intro exI [of _ j]) simp
qed

theorem exchanges_reported_witness:
  "\<exists>(r :: nat \<Rightarrow> (unit, unit, unit, unit, unit) reporting) i j. reporting_trace sample_loop sample_handle () r \<and>
     lp_events (pr_loop (rp_process (r i))) \<noteq> [] \<and>
     length (lp_events (pr_loop (rp_process (r i)))) \<le> length (rp_reports (r j))"
proof -
  obtain i and r :: "nat \<Rightarrow> (unit, unit, unit, unit, unit) reporting" where
    r: "reporting_trace sample_loop sample_handle () r" "fair_reporting sample_handle r"
      "\<forall>i. serving (rp_process (r i))" "lp_events (pr_loop (rp_process (r i))) \<noteq> []"
    using sample_reporting by blast
  from exchanges_reported [OF r(1,2) [unfolded sample_handle_def] r(3), of i] obtain j where
    "length (lp_events (pr_loop (rp_process (r i)))) \<le> length (rp_reports (r j))"
    by (auto dest: prefix_length_le)
  with r(1,4) show ?thesis by blast
qed

end
