(* ===== verification/Process_Stats.thy ===== *)
theory Process_Stats
  imports Process_Loop
begin

text \<open>
  What the statistics the assembler sends (\<open>logAssemblerStats\<close>) say about the running process:
  the length of the channel, the streams created and still open, and the bytes handed to gopacket
  are those of the state in which the event is sent.
\<close>

section \<open>The counters of the running loop\<close>

definition bytes_ok ::
  "('fsm, 'opt, 'tcp, 'pkt, 'net, 'ip, 'd) loop_env \<Rightarrow> ('fsm, 'opt, 'tcp, 'd) loop_state \<Rightarrow> bool" where
  "bytes_ok env st \<longleftrightarrow> totalsz (reg_stats (lp_reg st)) = assembled_bytes (le_packets env) (lp_outputs st)"

lemma select_bytes:
  assumes "select_case env c st = Inr st'" and "no_callbacks_yet c" and "bytes_ok env st"
  shows "bytes_ok env st'"
proof (cases c)
  case (PacketIn pkt cbs)
  with assms(1) obtain outcome s d where h: "handle_packet (le_packets env) (le_config env)
      (reg_stats (lp_reg st)) (lp_defragger st) pkt = Inr (outcome, s, d)"
    by (auto split: sum.splits)
  from handle_packet_stats [OF h] assms PacketIn h show ?thesis
    by (cases outcome) (auto simp: bytes_ok_def payload_size_def)
qed (use assms in \<open>auto simp: bytes_ok_def\<close>)

lemma tick_totals: "totalsz (reg_stats (lp_reg (tick f st))) = totalsz (reg_stats (lp_reg st))"
  by (cases f) (simp_all add: tick_def)

lemma loop_trace_streams:
  assumes "loop_trace env st"
  shows "total_streams (reg_stats (lp_reg st)) = of_nat (created (lp_made st))"
    "active_streams (reg_stats (lp_reg st)) = of_nat (card (dom (streams (lp_reg st))))"
proof -
  from assms have "registry_run (le_gopacket env) (le_http env) (le_config env) (created (lp_made st))
      (lp_events st) (streams_only (lp_reg st))"
    unfolding loop_trace_def by (rule trace_run)
  from run_counters [OF this] show "total_streams (reg_stats (lp_reg st)) = of_nat (created (lp_made st))"
    "active_streams (reg_stats (lp_reg st)) = of_nat (card (dom (streams (lp_reg st))))"
    by (simp_all add: counters_ok_def own_counters_def)
qed

lemma stats_values:
  "ev_dataset (logAssemblerStats cfg s t0 now n q) = Some (StatsDataset cfg)"
  "value_of (added (logAssemblerStats cfg s t0 now n q)) ''event_queue_length'' = Some (VInt (int n))"
  "value_of (added (logAssemblerStats cfg s t0 now n q)) ''total_streams'' = Some (VUint64 (total_streams s))"
  "value_of (added (logAssemblerStats cfg s t0 now n q)) ''active_streams'' = Some (VUint64 (active_streams s))"
  "value_of (added (logAssemblerStats cfg s t0 now n q)) ''total_TCP_bytes'' = Some (VInt (sint (totalsz s)))"
  by (simp_all add: logAssemblerStats_def statsFields_def value_of_def event_ops)

section \<open>Every step keeps them\<close>

definition counting ::
  "('fsm, 'opt, 'tcp, 'pkt, 'net, 'ip, 'd) loop_env \<Rightarrow> ('fsm, 'opt, 'tcp, 'd) loop_state \<Rightarrow> bool" where
  "counting env st \<longleftrightarrow> bytes_ok env st \<and> loop_trace env st"

lemma counting_emit:
  "counting env st \<Longrightarrow> assembled_bytes (le_packets env) os = 0 \<Longrightarrow> counting env (emit os st)"
  by (simp add: counting_def bytes_ok_def loop_trace_def)

lemma counting_callback:
  assumes "make_callbacks (le_gopacket env) (le_http env) [cb] st = Inr st'" and "counting env st"
  shows "counting env st'"
proof -
  have "loop_trace env st'" using assms by (auto simp: counting_def intro: make_callbacks_trace)
  with assms(2) make_callbacks_frame [OF assms(1)] show ?thesis by (simp add: counting_def bytes_ok_def)
qed

lemma counting_cong:
  assumes "counting env st" and "lp_outputs st' = lp_outputs st" "lp_made st' = lp_made st"
    "lp_events st' = lp_events st" "streams_only (lp_reg st') = streams_only (lp_reg st)"
    "totalsz (reg_stats (lp_reg st')) = totalsz (reg_stats (lp_reg st))"
  shows "counting env st'"
  using assms by (simp add: counting_def bytes_ok_def loop_trace_def)

lemma counting_loop_step:
  assumes "loop_step env l p p'" and "counting env (pr_loop p)"
  shows "counting env (pr_loop p')"
  using assms(1)
proof cases
  case (lp_select c st)
  with select_bytes [OF lp_select(6,4)] case_trace [OF lp_select(6)] assms(2) show ?thesis
    by (simp add: counting_def)
next
  case lp_cancelled
  with counting_emit [OF assms(2), of "[FlushAll]"] show ?thesis by simp
next
  case (lp_callback cb st)
  with counting_callback [OF lp_callback(5) assms(2)] show ?thesis by simp
next
  case (lp_stopped now goroutines)
  let ?os = "map Sent (Stop_outputs (le_logging env) (le_config env) (reg_stats (lp_reg (pr_loop p)))
    (startedAt env) now (length (queued (pr_channel p))) goroutines)"
  have "assembled_bytes (le_packets env) ?os = 0" by simp
  from counting_cong [OF counting_emit [OF assms(2) this], of "pr_loop p'"] lp_stopped show ?thesis by simp
qed (use assms(2) in simp_all)

lemma run_counting: "process_run env defragger ls p \<Longrightarrow> counting env (pr_loop p)"
proof (induction rule: process_run.induct)
  case process_init
  show ?case
    by (simp add: init_process_def counting_def bytes_ok_def loop_trace_def init_loop_def
        streams_only_init no_callbacks) (simp add: init_registry_def zero_stats_def)
next
  case (process_next ls p l p')
  from process_next.hyps(2) show ?case
  proof cases
    case pr_assembler
    from counting_loop_step [OF pr_assembler(3) process_next.IH] show ?thesis .
  next
    case (pr_pcap figures)
    with counting_cong [OF process_next.IH, of "tick figures (pr_loop p)"] show ?thesis
      by (simp add: tick_totals)
  qed (use process_next.IH in simp_all)
qed

text \<open>The steps that send statistics read the counters and the length of the channel.\<close>

lemma stats_are_logged:
  assumes "process_step env l p p'" and "lp_outputs (pr_loop p') = lp_outputs (pr_loop p) @ os"
    and "Sent (StatsEvent ev) \<in> set os"
  shows "\<exists>now q. ev = logAssemblerStats (le_config env) (reg_stats (lp_reg (pr_loop p)))
    (startedAt env) now (length (queued (pr_channel p))) q"
  using assms(1)
proof cases
  case pr_assembler
  from pr_assembler(3) show ?thesis
  proof cases
    case (lp_select c st)
    show ?thesis
    proof (cases c)
      case (PacketIn pkt cbs)
      with lp_select assms(2,3) show ?thesis
        by (auto simp: Let_def split: sum.splits prod.splits packet_outcome.splits)
    next
      case (StatsTick now n q)
      with lp_select assms(2,3) have "ev = logAssemblerStats (le_config env) (reg_stats (lp_reg (pr_loop p)))
          (startedAt env) now (length (queued (pr_channel p))) q" by auto
      then show ?thesis by (intro exI)
    qed (use lp_select assms(2,3) in auto)
  next
    case (lp_stopped now q)
    with assms(2,3) have "ev = logAssemblerStats (le_config env) (reg_stats (lp_reg (pr_loop p)))
        (startedAt env) now (length (queued (pr_channel p))) q"
      by (auto simp: Stop_outputs_def split: if_splits)
    then show ?thesis by (intro exI)
  next
    case (lp_callback cb st)
    with make_callbacks_frame [OF lp_callback(5)] assms(2,3) show ?thesis by simp
  qed (use assms(2,3) in auto)
next
  case (pr_pcap figures)
  with assms(2,3) show ?thesis by (simp add: tick_def)
qed (use assms(2,3) in simp_all)

section \<open>Properties\<close>

text \<open>C23: The statistics are true: a statistics event that a step of the running process sends goes to
  the configured dataset, and carries the length the channel has at that moment (at most its
  size), the number of streams created by the callbacks made so far and the number of those
  still open, modulo \<open>2 ^ 64\<close>, and as bytes the sizes of the segments handed to gopacket so far,
  modulo \<open>2 ^ 64\<close> and read as a signed number.\<close>

theorem statistics_true:
  assumes "process_run env defragger ls p" and "process_step env l p p'"
    and "lp_outputs (pr_loop p') = lp_outputs (pr_loop p) @ os" and "Sent (StatsEvent ev) \<in> set os"
  shows "ev_dataset ev = Some (StatsDataset (le_config env)) \<and>
    value_of (added ev) ''event_queue_length'' = Some (VInt (int (length (queued (pr_channel p))))) \<and>
    length (queued (pr_channel p)) \<le> channel_size (le_config env) \<and>
    value_of (added ev) ''total_streams'' =
      Some (VUint64 (of_nat (created (lp_made (pr_loop p))))) \<and>
    value_of (added ev) ''active_streams'' =
      Some (VUint64 (of_nat (card (dom (streams (lp_reg (pr_loop p))))))) \<and>
    value_of (added ev) ''total_TCP_bytes'' =
      Some (VInt (sint (assembled_bytes (le_packets env) (lp_outputs (pr_loop p)))))"
proof -
  from run_counting [OF assms(1)] have "bytes_ok env (pr_loop p)" "loop_trace env (pr_loop p)"
    by (simp_all add: counting_def)
  moreover obtain now q where "ev = logAssemblerStats (le_config env) (reg_stats (lp_reg (pr_loop p)))
      (startedAt env) now (length (queued (pr_channel p))) q"
    using stats_are_logged [OF assms(2-4)] by blast
  ultimately show ?thesis
    using agent_flow [OF process_agent [OF assms(1)]]
    by (simp add: stats_values bytes_ok_def loop_trace_streams events_flow_def)
qed

text \<open>
  The sample's loop, at its select, sends its statistics, with the one event that is queued.
\<close>

theorem statistics_true_witness:
  "\<exists>ls. \<exists>p :: (unit, unit, unit, unit) process. \<exists>p' ev.
     process_run sample_loop () ls p \<and> process_step sample_loop (Chosen (StatsTick 5 1 3)) p p' \<and>
     lp_outputs (pr_loop p') = lp_outputs (pr_loop p) @ [Sent (StatsEvent ev)] \<and>
     value_of (added ev) ''event_queue_length'' = Some (VInt 1) \<and>
     value_of (added ev) ''total_streams'' = Some (VUint64 (of_nat (created (lp_made (pr_loop p)))))"
proof -
  obtain ls and p :: "(unit, unit, unit, unit) process" where
    p: "process_run sample_loop () ls p" "length (queued (pr_channel p)) = 1" "pr_pc p = Selecting" "alive p"
    using sample_queued by blast
  let ?ev = "logAssemblerStats (NewConfig Map.empty) (reg_stats (lp_reg (pr_loop p))) 0 5 1 3"
  let ?st = "emit [Sent (StatsEvent ?ev)] (pr_loop p)"
  let ?p = "p\<lparr>pr_loop := ?st, pr_pc := Selecting\<rparr>"
  have "startedAt sample_loop = 0" by (simp add: sample_loop_def)
  then have "loop_step sample_loop (Chosen (StatsTick 5 1 3)) p ?p"
    using lp_select [of p "StatsTick 5 1 3" sample_loop ?st] p(2,3)
    by (simp add: sample_loop_fields calls_assembler_def)
  with p(4) have step: "process_step sample_loop (Chosen (StatsTick 5 1 3)) p ?p"
    by (auto simp: alive_def intro: pr_assembler)
  from statistics_true [OF p(1) step, of "[Sent (StatsEvent ?ev)]" ?ev] p(1,2) step show ?thesis
    by (intro exI [of _ ls] exI [of _ p] exI [of _ ?p] exI [of _ ?ev]) simp
qed

end
