(* ===== verification/Debug_Pages.thy ===== *)
theory Debug_Pages
  imports Debug_Service
begin

text \<open>
  What the debug service serves once it has started: the answer of \<open>http.ServeMux\<close> (of Go 1.21)
  to a path, the index page with its template, and the page of the published variables. The
  escaping of \<open>html/template\<close> and \<open>json.MarshalIndent\<close> are arguments.
\<close>

section \<open>The multiplexer of the standard library\<close>

text \<open>
  \<open>path.Clean\<close> of a path under the root: its segments, without the empty ones and \<open>.\<close>, and a
  \<open>..\<close> removes the one before. The multiplexer keeps a slash at the end.
\<close>

fun resolve_segments :: "string list \<Rightarrow> string list \<Rightarrow> string list" where
  "resolve_segments kept [] = kept"
| "resolve_segments kept (s # ss) =
     (if s = '''' \<or> s = ''.'' then resolve_segments kept ss
      else if s = ''..'' then resolve_segments (butlast kept) ss
      else resolve_segments (kept @ [s]) ss)"

definition clean_path :: "string \<Rightarrow> string" where
  "clean_path p =
     (let segments = resolve_segments [] (split_on CHR ''/'' p)
      in if segments = [] then ''/''
         else if last p = CHR ''/'' then join ''/'' ('''' # segments @ [''''])
         else join ''/'' ('''' # segments))"

text \<open>
  A pattern that equals the path wins; else the longest pattern that ends in a slash and is a
  prefix of the path.
\<close>

definition subtree_pattern :: "(string \<rightharpoonup> 'h) \<Rightarrow> string \<Rightarrow> bool" where
  "subtree_pattern m p \<longleftrightarrow> p \<noteq> '''' \<and> last p = CHR ''/'' \<and> m p \<noteq> None"

definition mux_match :: "(string \<rightharpoonup> 'h) \<Rightarrow> string \<Rightarrow> 'h option" where
  "mux_match m path =
     (case m path of
        Some h \<Rightarrow> Some h
      | None \<Rightarrow>
          (case find (subtree_pattern m) (rev (prefixes path)) of
             Some p \<Rightarrow> m p
           | None \<Rightarrow> None))"

text \<open>
  The answer to a request that is not \<open>CONNECT\<close>, when no pattern names a host: a path that is
  registered only with a slash behind it, and one that is not clean, are redirected.
\<close>

datatype 'h mux_answer = Serve 'h | MovedPermanently string | NotFound

definition mux_answer :: "(string \<rightharpoonup> 'h) \<Rightarrow> string \<Rightarrow> 'h mux_answer" where
  "mux_answer m url_path =
     (let path = clean_path url_path
      in if m path = None \<and> m (path @ ''/'') \<noteq> None \<and> last path \<noteq> CHR ''/''
         then MovedPermanently (path @ ''/'')
         else if path \<noteq> url_path then MovedPermanently path
         else (case mux_match m path of Some h \<Rightarrow> Serve h | None \<Rightarrow> NotFound))"

section \<open>Pages\<close>

text \<open>The template's text before and behind the rows.\<close>

definition line :: "string \<Rightarrow> string" where
  "line s = s @ [CHR 0x0A]"

definition index_head :: string where
  "index_head = concat (map line
     ['''', ''<html>'', ''<head>'', ''<title>Debug Index</title>'', ''</head>'', ''<body>'',
      ''<h2>Index</h2>''])
     @ ''<table>'' @ [CHR 0x0A]"

definition index_foot :: string where
  "index_foot = concat (map line ['''', ''</table>'', ''</body>'', ''</html>''])"

definition indexHandler_page ::
  "(string \<Rightarrow> string) \<Rightarrow> (string \<Rightarrow> string) \<Rightarrow> ('h, 'env, 'v) debugService \<Rightarrow> string" where
  "indexHandler_page attr_escape html_escape s =
     index_head @ index_rows attr_escape html_escape s @ index_foot"

text \<open>
  The page of the variables, with its content type. An encoding error is only logged: what is
  written then is the empty slice.
\<close>

definition expvarHandler_page ::
  "((string \<rightharpoonup> 'v) \<Rightarrow> string + string) \<Rightarrow> 'env \<Rightarrow> ('h, 'env, 'v) debugService \<Rightarrow> string list
    \<Rightarrow> string \<times> string" where
  "expvarHandler_page MarshalIndent env s keys =
     (''application/json; charset=utf-8'',
      (case MarshalIndent (expvar_values env s keys) of Inl e \<Rightarrow> '''' | Inr b \<Rightarrow> b))"

section \<open>Facts\<close>

lemma find_longest:
  assumes "\<And>p. P p \<longleftrightarrow> p = long \<or> p = short" and "prefix short long" and "long \<noteq> short"
    and "short \<noteq> []"
  shows "find P (rev (prefixes path)) =
    (if prefix long path then Some long else if prefix short path then Some short else None)"
proof (induction path rule: rev_induct)
  case Nil
  have "long \<noteq> []" using assms(2,4) by auto
  with assms(1) [of "[]"] assms(4) show ?case by auto
next
  case (snoc x xs)
  have "\<not> prefix long short" using assms(2,3) by (meson prefix_order.antisym)
  with snoc assms(1) [of "xs @ [x]"] show ?case by (auto simp: prefixes_snoc)
qed

definition start_routes :: "(string \<times> debug_handler) list" where
  "start_routes =
     [(''/'', indexHandler), (''/debug/pprof/'', pprof_Index),
      (''/debug/pprof/cmdline'', pprof_Cmdline), (''/debug/pprof/profile'', pprof_Profile),
      (''/debug/pprof/symbol'', pprof_Symbol), (''/debug/pprof/trace'', pprof_Trace),
      (''/debug/pprof/delta_heap'', delta_Heap), (''/debug/pprof/delta_block'', delta_Block),
      (''/debug/pprof/delta_mutex'', delta_Mutex), (''/debug/vars'', expvarHandler),
      (''/debug/metrics'', exp_ExpHandler)]"

lemma Start_debug_mux:
  "\<exists>s. Start_debug args mem (newDebugService cfg) = Inr s \<and> mux s = map_of start_routes \<and>
     urls s = map fst (tl start_routes) \<and>
     expVars s = [''cmdline'' \<mapsto> Value args, ''memstats'' \<mapsto> Func mem]"
  by (auto simp: Start_debug_def HandleFunc_def Handle_def mux_Handle_def Publish_def start_routes_def
      newDebugService_def Let_def fun_eq_iff)

lemma start_subtrees:
  "subtree_pattern (map_of start_routes) p \<longleftrightarrow> p = ''/debug/pprof/'' \<or> p = ''/''"
  by (auto simp: subtree_pattern_def start_routes_def split: if_splits)

lemma start_match:
  "mux_match (map_of start_routes) path =
     (case map_of start_routes path of
        Some h \<Rightarrow> Some h
      | None \<Rightarrow> if prefix ''/debug/pprof/'' path then Some pprof_Index
                else if prefix ''/'' path then Some indexHandler else None)"
proof -
  have "map_of start_routes ''/debug/pprof/'' = Some pprof_Index"
    "map_of start_routes ''/'' = Some indexHandler" by (simp_all add: start_routes_def)
  moreover have "prefix ''/'' ''/debug/pprof/''" by simp
  ultimately show ?thesis
    using find_longest [of "subtree_pattern (map_of start_routes)" "''/debug/pprof/''" "''/''" path]
    by (auto simp: mux_match_def start_subtrees split: option.split)
qed

text \<open>
  The paths that are served without a redirect: below the root, no segment is empty but the
  last one, and none is \<open>.\<close> or \<open>..\<close>.
\<close>

definition proper :: "string \<Rightarrow> bool" where
  "proper s \<longleftrightarrow> s \<noteq> '''' \<and> s \<noteq> ''.'' \<and> s \<noteq> ''..''"

definition is_clean :: "string \<Rightarrow> bool" where
  "is_clean p \<longleftrightarrow> (case split_on CHR ''/'' p of
     root # segments \<Rightarrow> root = '''' \<and> segments \<noteq> [] \<and> list_all proper (butlast segments) \<and>
       (last segments = '''' \<or> proper (last segments)))"

lemma resolve_proper: "list_all proper ss \<Longrightarrow> resolve_segments kept ss = kept @ ss"
  by (induction ss arbitrary: kept) (auto simp: proper_def)

lemma resolved: "list_all proper kept \<Longrightarrow> list_all proper (resolve_segments kept ss)"
proof (induction ss arbitrary: kept)
  case (Cons s ss)
  have "list_all proper (butlast kept)" using Cons.prems by (auto simp: list_all_iff dest: in_set_butlastD)
  moreover have "proper s \<Longrightarrow> list_all proper (kept @ [s])" using Cons.prems by simp
  ultimately show ?case using Cons.IH Cons.prems proper_def [of s] by simp
qed simp

lemma resolved_from: "set (resolve_segments kept ss) \<subseteq> set kept \<union> set ss"
proof (induction ss arbitrary: kept)
  case (Cons s ss)
  have "set (butlast kept) \<subseteq> set kept" by (auto dest: in_set_butlastD)
  with Cons.IH [of kept] Cons.IH [of "butlast kept"] Cons.IH [of "kept @ [s]"] show ?case by auto
qed simp

lemma join_snoc: "xs \<noteq> [] \<Longrightarrow> join sep (xs @ [x]) = join sep xs @ sep @ x"
  by (induction xs rule: join.induct [where ?a0.0 = sep]) auto

lemma clean_path_clean: "is_clean (clean_path p)"
proof -
  let ?segments = "resolve_segments [] (split_on CHR ''/'' p)"
  have proper: "list_all proper ?segments" by (simp add: resolved)
  have plain: "\<forall>s \<in> set ?segments. CHR ''/'' \<notin> set s"
    using resolved_from [of "[]" "split_on CHR ''/'' p"] split_on_parts by fastforce
  have "split_on CHR ''/'' (join ''/'' ('''' # ?segments @ [''''])) = '''' # ?segments @ ['''']"
    using plain by (intro split_on_join) auto
  moreover have "split_on CHR ''/'' (join ''/'' ('''' # ?segments)) = '''' # ?segments"
    using plain by (intro split_on_join) auto
  moreover have "?segments \<noteq> [] \<Longrightarrow> list_all proper (butlast ?segments) \<and> proper (last ?segments)"
    using proper by (auto simp: list_all_iff dest: in_set_butlastD)
  ultimately show ?thesis using proper by (simp add: clean_path_def is_clean_def Let_def)
qed

lemma clean_path_id:
  assumes "is_clean p"
  shows "clean_path p = p"
proof -
  obtain segments where split: "split_on CHR ''/'' p = '''' # segments" and segs: "segments \<noteq> []"
    "list_all proper (butlast segments)" "last segments = '''' \<or> proper (last segments)"
    using assms by (auto simp: is_clean_def split: list.splits)
  have p: "p = join ''/'' (('''' # butlast segments) @ [last segments])"
    using join_split_on [of "CHR ''/''" p] split segs(1) by simp
  then have ends: "p = join ''/'' ('''' # butlast segments) @ ''/'' @ last segments"
    by (simp add: join_snoc del: append_Cons)
  show ?thesis
  proof (cases "last segments = ''''")
    case True
    have "resolve_segments [] ('''' # segments) = butlast segments"
    proof -
      have "resolve_segments kept (ss @ ['''']) = resolve_segments kept ss" for kept ss
        by (induction ss arbitrary: kept) auto
      from this [of "[]" "butlast segments"] segs(2)
      have "resolve_segments [] (butlast segments @ ['''']) = butlast segments" by (simp add: resolve_proper)
      moreover have "butlast segments @ [''''] = segments"
        using append_butlast_last_id [OF segs(1)] True by simp
      ultimately show ?thesis by simp
    qed
    moreover have "last p = CHR ''/''" using ends True by simp
    moreover have "p = join ''/'' ('''' # butlast segments @ [''''])" using p True by simp
    ultimately show ?thesis
      unfolding clean_path_def split Let_def by (cases "butlast segments = []") simp_all
  next
    case False
    with segs have "proper (last segments)" by simp
    moreover from this have "last segments \<noteq> []" by (simp add: proper_def)
    moreover have "CHR ''/'' \<notin> set (last segments)"
      using split segs(1) split_on_parts [of "last segments" "CHR ''/''" p] by simp
    ultimately have "last p \<noteq> CHR ''/''" using ends by (metis last_appendR last_in_set append_is_Nil_conv)
    moreover have "list_all proper segments"
      using segs(2) \<open>proper (last segments)\<close> list_all_append [of proper "butlast segments" "[last segments]"]
      by (simp add: append_butlast_last_id [OF segs(1)])
    ultimately show ?thesis
      using split segs(1) join_split_on [of "CHR ''/''" p] by (simp add: clean_path_def resolve_proper)
  qed
qed

lemma clean_path_iff: "clean_path p = p \<longleftrightarrow> is_clean p"
  using clean_path_clean [of p] clean_path_id [of p] by auto

lemma is_clean_root: "is_clean p \<Longrightarrow> prefix ''/'' p"
  by (cases p) (auto simp: is_clean_def split: list.splits if_splits)

text \<open>Of the registered patterns, only those of the two subtrees end in a slash.\<close>

lemma start_slash: "map_of start_routes (p @ ''/'') \<noteq> None \<longleftrightarrow> p = ''/debug/pprof'' \<or> p = ''''"
proof -
  have "map_of start_routes (p @ ''/'') \<noteq> None \<longleftrightarrow> subtree_pattern (map_of start_routes) (p @ ''/'')"
    by (simp add: subtree_pattern_def)
  then show ?thesis by (simp add: start_subtrees append_eq_Cons_conv)
qed

lemma start_answer:
  "mux_answer (map_of start_routes) path =
     (if clean_path path = ''/debug/pprof'' then MovedPermanently ''/debug/pprof/''
      else if \<not> is_clean path then MovedPermanently (clean_path path)
      else Serve (case map_of start_routes path of
          Some h \<Rightarrow> h
        | None \<Rightarrow> if prefix ''/debug/pprof/'' path then pprof_Index else indexHandler))"
proof -
  have "map_of start_routes ''/debug/pprof'' = None" by (simp add: start_routes_def)
  moreover have "clean_path path \<noteq> ''''" using is_clean_root [OF clean_path_clean [of path]] by auto
  moreover note start_slash [of "clean_path path"]
  ultimately have redirect: "map_of start_routes (clean_path path) = None \<and>
      map_of start_routes (clean_path path @ ''/'') \<noteq> None \<and> last (clean_path path) \<noteq> CHR ''/'' \<longleftrightarrow>
      clean_path path = ''/debug/pprof''" by auto
  show ?thesis
  proof (cases "is_clean path")
    case True
    with clean_path_id have "clean_path path = path" by simp
    with True redirect is_clean_root [OF True] show ?thesis
      by (simp add: mux_answer_def start_match split: option.split)
  next
    case False
    with clean_path_iff [of path] have "clean_path path \<noteq> path" by simp
    with False redirect show ?thesis unfolding mux_answer_def Let_def by simp
  qed
qed

text \<open>An encoding error is answered with an empty page, as if it were JSON.\<close>

lemma encoding_error_hidden:
  "MarshalIndent (expvar_values env s keys) = Inl e \<Longrightarrow>
    expvarHandler_page MarshalIndent env s keys = (''application/json; charset=utf-8'', '''')"
  by (simp add: expvarHandler_page_def)

section \<open>Properties\<close>

text \<open>C40: The routes of a started debug service, for requests other than \<open>CONNECT\<close>: a clean path is
  served by the handler registered for it; otherwise by the profile index if it lies under it,
  and else by the index page. A path that is not clean is redirected to its clean form, and the
  profile index without its slash to the one with it; who follows the redirect gets a page.
  The index page links every route but its own, once each, in the order of registration, and the
  variables are the two that are published.\<close>

theorem debug_routes:
  fixes args :: 'a and mem :: "'b \<Rightarrow> 'a"
  shows "\<exists>s. Start_debug args mem (newDebugService cfg) = Inr s \<and>
    mux_answer (mux s) path =
      (if clean_path path = ''/debug/pprof'' then MovedPermanently ''/debug/pprof/''
       else if \<not> is_clean path then MovedPermanently (clean_path path)
       else Serve (case map_of start_routes path of
           Some h \<Rightarrow> h
         | None \<Rightarrow> if prefix ''/debug/pprof/'' path then pprof_Index else indexHandler)) \<and>
    (\<exists>h. (case mux_answer (mux s) path of
            MovedPermanently target \<Rightarrow> mux_answer (mux s) target | a \<Rightarrow> a) = Serve h) \<and>
    indexHandler_page attr html s =
      index_head @ concat (map (index_row attr html \<circ> fst) (tl start_routes)) @ index_foot \<and>
    distinct (map fst start_routes) \<and> dom (expVars s) = {''cmdline'', ''memstats''}"
proof -
  obtain s where s: "Start_debug args mem (newDebugService cfg :: (debug_handler, 'b, 'a) debugService) = Inr s"
    "mux s = map_of start_routes" "urls s = map fst (tl start_routes)"
    "expVars s = [''cmdline'' \<mapsto> Value args, ''memstats'' \<mapsto> Func mem]"
    using Start_debug_mux [of args mem cfg] by blast
  have "dom (expVars s) = {''cmdline'', ''memstats''}"
    unfolding s(4) dom_fun_upd by (simp add: insert_commute)
  moreover have "distinct (map fst start_routes)" by (simp add: start_routes_def)
  moreover have "indexHandler_page attr html s =
      index_head @ concat (map (index_row attr html \<circ> fst) (tl start_routes)) @ index_foot"
    by (simp add: indexHandler_page_def index_rows_def s(3))
  moreover have "clean_path ''/debug/pprof/'' = ''/debug/pprof/''" "is_clean ''/debug/pprof/''"
    by (simp_all add: clean_path_def is_clean_def proper_def)
  then have "\<exists>h. (case mux_answer (map_of start_routes) path of
      MovedPermanently target \<Rightarrow> mux_answer (map_of start_routes) target | a \<Rightarrow> a) = Serve h"
    using clean_path_clean [of path] clean_path_id [of "clean_path path"] by (simp add: start_answer)
  ultimately show ?thesis
    using s(1) start_answer [of path] unfolding s(2) [symmetric] by (intro exI [of _ s]) blast
qed

end
