(* ===== verification/Unit_Tests.thy ===== *)
theory Unit_Tests
  imports Handlers Http_Parser
begin

text \<open>
  The repository's unit tests, as theorems about the model: each takes a test's input and
  shows the result the test expects (\<open>config_test.go\<close>, \<open>http_matcher_test.go\<close>,
  \<open>http_parser_test.go\<close>, \<open>cached_k8s_client_test.go\<close>, \<open>libhoney_event_handler_test.go\<close>,
  \<open>otel_handler_test.go\<close>). They check the definitions against the code's authors.
\<close>

section \<open>Configuration\<close>

lemma TestAPIMask:
  "GetMaskedAPIKey (c\<lparr>APIKey := ''''\<rparr>) = ''''"
  "GetMaskedAPIKey (c\<lparr>APIKey := ''1234''\<rparr>) = ''****''"
  "GetMaskedAPIKey (c\<lparr>APIKey := ''12345678''\<rparr>) = ''****5678''"
  "GetMaskedAPIKey (c\<lparr>APIKey := ''1234567890123456789012''\<rparr>) = ''******************9012''"
  by (simp_all add: GetMaskedAPIKey_def repeat_str_single numeral_eq_Suc)

text \<open>The fields that are read from the environment.\<close>

lemma NewConfig_fields:
  "APIKey (NewConfig env) = LookupEnvOrString env ''HONEYCOMB_API_KEY'' ''''"
  "Endpoint (NewConfig env) = LookupEnvOrString env ''HONEYCOMB_API_ENDPOINT'' ''https://api.honeycomb.io''"
  "Dataset (NewConfig env) = LookupEnvOrString env ''HONEYCOMB_DATASET'' ''hny-network-agent''"
  "StatsDataset (NewConfig env) =
     LookupEnvOrString env ''HONEYCOMB_STATS_DATASET'' ''hny-network-agent-stats''"
  "LogLevel (NewConfig env) = LookupEnvOrString env ''LOG_LEVEL'' ''INFO''"
  "Debug (NewConfig env) = LookupEnvOrBool env ''DEBUG'' False"
  "DebugAddress (NewConfig env) = LookupEnvOrString env ''DEBUG_ADDRESS'' ''0.0.0.0:6060''"
  "AgentNodeIP (NewConfig env) = LookupEnvOrString env ''AGENT_NODE_IP'' ''''"
  "AgentNodeName (NewConfig env) = LookupEnvOrString env ''AGENT_NODE_NAME'' ''''"
  "AgentServiceAccount (NewConfig env) = LookupEnvOrString env ''AGENT_SERVICE_ACCOUNT_NAME'' ''''"
  "AgentPodIP (NewConfig env) = LookupEnvOrString env ''AGENT_POD_IP'' ''''"
  "AgentPodName (NewConfig env) = LookupEnvOrString env ''AGENT_POD_NAME'' ''''"
  "AdditionalAttributes (NewConfig env) = LookupEnvAsStringMap env ''ADDITIONAL_ATTRIBUTES''"
  "IncludeRequestURL (NewConfig env) = LookupEnvOrBool env ''INCLUDE_REQUEST_URL'' True"
  "HTTPHeadersToExtract (NewConfig env) = getHTTPHeadersToExtract env"
  "EventHandlerType (NewConfig env) = LookupEnvOrString env ''HANDLER_TYPE'' ''otel''"
  unfolding NewConfig_def by (simp_all only: config.simps)

lemmas reader_defs = LookupEnvOrString_def LookupEnvOrBool_def os_getenv_def os_lookup_env_def
  getHTTPHeadersToExtract_def LookupEnvAsStringSlice_def LookupEnvAsStringMap_def parse_bool_def

definition test_environ :: environ where
  "test_environ = Map.empty(
     ''HONEYCOMB_API_KEY'' \<mapsto> ''1234567890123456789012'',
     ''HONEYCOMB_API_ENDPOINT'' \<mapsto> ''https://api.example.com'',
     ''HONEYCOMB_DATASET'' \<mapsto> ''test-dataset'',
     ''HONEYCOMB_STATS_DATASET'' \<mapsto> ''test-stats-dataset'',
     ''LOG_LEVEL'' \<mapsto> ''DEBUG'',
     ''DEBUG'' \<mapsto> ''true'',
     ''DEBUG_ADDRESS'' \<mapsto> ''1.2.3.4:5678'',
     ''AGENT_NODE_IP'' \<mapsto> ''node_ip'',
     ''AGENT_NODE_NAME'' \<mapsto> ''node_name'',
     ''AGENT_SERVICE_ACCOUNT_NAME'' \<mapsto> ''service_account_name'',
     ''AGENT_POD_IP'' \<mapsto> ''pod_ip'',
     ''AGENT_POD_NAME'' \<mapsto> ''pod_name'',
     ''ADDITIONAL_ATTRIBUTES'' \<mapsto> ''key1=value1,key2=value2'',
     ''INCLUDE_REQUEST_URL'' \<mapsto> ''false'',
     ''HTTP_HEADERS'' \<mapsto> ''header1,header2'')"

lemma TestEnvVars:
  "APIKey (NewConfig test_environ) = ''1234567890123456789012''"
  "Endpoint (NewConfig test_environ) = ''https://api.example.com''"
  "Dataset (NewConfig test_environ) = ''test-dataset''"
  "StatsDataset (NewConfig test_environ) = ''test-stats-dataset''"
  "LogLevel (NewConfig test_environ) = ''DEBUG''"
  "Debug (NewConfig test_environ)"
  "DebugAddress (NewConfig test_environ) = ''1.2.3.4:5678''"
  "AgentNodeIP (NewConfig test_environ) = ''node_ip''"
  "AgentNodeName (NewConfig test_environ) = ''node_name''"
  "AgentServiceAccount (NewConfig test_environ) = ''service_account_name''"
  "AgentPodIP (NewConfig test_environ) = ''pod_ip''"
  "AgentPodName (NewConfig test_environ) = ''pod_name''"
  "AdditionalAttributes (NewConfig test_environ) =
     [''key1'' \<mapsto> ''value1'', ''key2'' \<mapsto> ''value2'']"
  "\<not> IncludeRequestURL (NewConfig test_environ)"
  "HTTPHeadersToExtract (NewConfig test_environ) = [''header1'', ''header2'']"
  by (simp_all add: NewConfig_fields test_environ_def reader_defs)

lemma TestEmptyHeadersEnvVar:
  "HTTPHeadersToExtract (NewConfig [''HTTP_HEADERS'' \<mapsto> '''']) = []"
  by (simp add: NewConfig_fields reader_defs)

lemma TestEnvVarsDefault:
  "APIKey (NewConfig Map.empty) = ''''"
  "Endpoint (NewConfig Map.empty) = ''https://api.honeycomb.io''"
  "Dataset (NewConfig Map.empty) = ''hny-network-agent''"
  "StatsDataset (NewConfig Map.empty) = ''hny-network-agent-stats''"
  "LogLevel (NewConfig Map.empty) = ''INFO''"
  "\<not> Debug (NewConfig Map.empty)"
  "DebugAddress (NewConfig Map.empty) = ''0.0.0.0:6060''"
  "AgentNodeIP (NewConfig Map.empty) = ''''"
  "AgentNodeName (NewConfig Map.empty) = ''''"
  "AgentServiceAccount (NewConfig Map.empty) = ''''"
  "AgentPodIP (NewConfig Map.empty) = ''''"
  "AgentPodName (NewConfig Map.empty) = ''''"
  "AdditionalAttributes (NewConfig Map.empty) = Map.empty"
  "IncludeRequestURL (NewConfig Map.empty)"
  "HTTPHeadersToExtract (NewConfig Map.empty) = [''User-Agent'', ''Traceparent'']"
  "EventHandlerType (NewConfig Map.empty) = ''otel''"
  by (simp_all add: NewConfig_fields reader_defs defaultHeadersToExtract_def)

lemma Test_Config_pcapTcpPayloadStartsWith:
  "pcapTcpPayloadStartsWith ''GET'' = Inl (NotFourBytes 3)"
  "pcapTcpPayloadStartsWith ''GET '' = Inr ''tcp[((tcp[12:1] & 0xf0) >> 2):4] = 0x47455420''"
  "pcapTcpPayloadStartsWith ''HEAD'' = Inr ''tcp[((tcp[12:1] & 0xf0) >> 2):4] = 0x48454144''"
  by code_simp+

text \<open>Every clause of the table is in the filter.\<close>

lemma sublist_join: "x \<in> set xs \<Longrightarrow> sublist x (join sep xs)"
proof (induction xs)
  case (Cons y ys)
  then show ?case
    by (cases ys) (auto simp: sublist_append)
qed simp

lemma Test_Config_buildBpfFilter:
  assumes "m \<in> set httpPayloadsStartWith"
  shows "\<exists>c. pcapTcpPayloadStartsWith m = Inr c \<and> sublist c buildBpfFilter"
proof -
  have "length m = 4" using assms by (auto simp: httpPayloadsStartWith_def)
  moreover have "sublist (payload_clause m) buildBpfFilter"
    using assms unfolding buildBpfFilter_eq by (intro sublist_join) auto
  ultimately show ?thesis by (auto simp: pcapTcpPayloadStartsWith_def payload_clause_def)
qed

section \<open>The matcher and the headers\<close>

lemma Test_HttpMatcher_StoringAMessage:
  "fst (GetOrStoreRequest newRequestResponseMatcher 12345 ts req 0) = (None, False)"
  "fst (GetOrStoreResponse newRequestResponseMatcher 12345 ts res 0) = (None, False)"
  by (simp_all add: GetOrStoreRequest_def GetOrStoreResponse_def newRequestResponseMatcher_def)

lemma Test_HttpMatcher_GetResponseThatMatchesRequest:
  assumes "m1 = snd (GetOrStoreResponse newRequestResponseMatcher 54321 t1 res' 0)"
    and "m2 = snd (GetOrStoreResponse m1 12345 t2 (Some res) 2)"
  shows "\<exists>e. fst (GetOrStoreRequest m2 12345 t3 (Some req) 0) = (Some e, True) \<and>
    entry_response e = Some res \<and> entry_request e = Some req \<and> entry_responsePacketCount e = 2"
  using assms by (simp add: GetOrStoreRequest_def GetOrStoreResponse_def newRequestResponseMatcher_def)

lemma Test_HttpMatcher_GetRequestThatMatchesResponse:
  assumes "m1 = snd (GetOrStoreRequest newRequestResponseMatcher 54321 t1 req' 0)"
    and "m2 = snd (GetOrStoreRequest m1 12345 t2 (Some req) 2)"
  shows "\<exists>e. fst (GetOrStoreResponse m2 12345 t3 (Some res) 0) = (Some e, True) \<and>
    entry_request e = Some req \<and> entry_response e = Some res \<and> entry_requestPacketCount e = 2"
  using assms by (simp add: GetOrStoreRequest_def GetOrStoreResponse_def newRequestResponseMatcher_def)

lemma test_canonical:
  "canonical_key ''User-Agent'' = ''User-Agent''"
  "canonical_key ''X-Test'' = ''X-Test''"
  "canonical_key ''Traceparent'' = ''Traceparent''"
  "canonical_key ''X-TEST'' = ''X-Test''"
  by code_simp+

lemma TestExtractHeader:
  "extractHeaders (newHttpParser []) None = Map.empty"
  "extractHeaders (newHttpParser []) (Some Map.empty) = Map.empty"
  "extractHeaders (newHttpParser [''User-Agent'', ''X-Test''])
     (Some [''Accept'' \<mapsto> [''test''], ''Host'' \<mapsto> [''test''], ''Cookie'' \<mapsto> [''test''],
            ''User-Agent'' \<mapsto> [''test''], ''X-Test'' \<mapsto> [''test'']]) =
     [''User-Agent'' \<mapsto> [''test''], ''X-Test'' \<mapsto> [''test'']]"
  "extractHeaders (newHttpParser [''X-TEST'']) (Some [''x-test'' \<mapsto> [''test'']]) = Map.empty"
  by (simp_all add: extractHeaders_def newHttpParser_def header_get_def header_set_def test_canonical Let_def)

section \<open>The Kubernetes cache\<close>

definition test_labels :: "string \<rightharpoonup> string" where
  "test_labels = [''app'' \<mapsto> ''test'']"

definition test_pod :: "string \<Rightarrow> string \<Rightarrow> pod" where
  "test_pod name ip = \<lparr>pod_Name = name, pod_Namespace = ''unit-tests'', pod_UID = name @ ''-uid'',
     pod_Labels = test_labels, PodIP = ip, NodeName = ''node-1'',
     Containers = [name @ ''-container-1'', name @ ''-container-2'']\<rparr>"

definition test_service :: service where
  "test_service = \<lparr>service_Name = ''service-1'', service_Namespace = ''unit-tests'',
     service_UID = ''service-1-uid'', Selector = Some test_labels, ClusterIP = ''''\<rparr>"

definition test_cluster :: CachedK8sClient where
  "test_cluster = NewCachedK8sClient
     (stored [\<lparr>node_Name = ''node-1'', node_UID = ''node-1-uid''\<rparr>])
     (stored [test_pod ''src-pod'' ''1.2.3.4'', test_pod ''dest-pod'' ''4.3.2.1''])
     (stored [test_service])"

definition test_selects :: "(string \<rightharpoonup> string) \<Rightarrow> (string \<rightharpoonup> string) \<Rightarrow> bool" where
  "test_selects selector labels \<longleftrightarrow> selector \<subseteq>\<^sub>m labels"

lemma Test_GetAttrs:
  "GetK8sAttrsForSourceIP test_selects test_cluster ''1.1.1.1'' ''1.2.3.4'' = [
     ''source.k8s.resource.type'' \<mapsto> ''pod'',
     ''source.k8s.pod.name'' \<mapsto> ''src-pod'',
     ''source.k8s.pod.uid'' \<mapsto> ''src-pod-uid'',
     ''source.k8s.namespace.name'' \<mapsto> ''unit-tests'',
     ''source.k8s.container.name'' \<mapsto> ''src-pod-container-1,src-pod-container-2'',
     ''source.k8s.node.name'' \<mapsto> ''node-1'',
     ''source.k8s.node.uid'' \<mapsto> ''node-1-uid'',
     ''source.k8s.service.name'' \<mapsto> ''service-1'',
     ''source.k8s.service.uid'' \<mapsto> ''service-1-uid'']"
  "GetK8sAttrsForDestinationIP test_selects test_cluster ''1.1.1.1'' ''4.3.2.1'' = [
     ''destination.k8s.resource.type'' \<mapsto> ''pod'',
     ''destination.k8s.pod.name'' \<mapsto> ''dest-pod'',
     ''destination.k8s.pod.uid'' \<mapsto> ''dest-pod-uid'',
     ''destination.k8s.namespace.name'' \<mapsto> ''unit-tests'',
     ''destination.k8s.container.name'' \<mapsto> ''dest-pod-container-1,dest-pod-container-2'',
     ''destination.k8s.node.name'' \<mapsto> ''node-1'',
     ''destination.k8s.node.uid'' \<mapsto> ''node-1-uid'',
     ''destination.k8s.service.name'' \<mapsto> ''service-1'',
     ''destination.k8s.service.uid'' \<mapsto> ''service-1-uid'']"
  "GetK8sAttrsForSourceIP test_selects test_cluster ''1.2.3.4'' ''1.2.3.4'' = Map.empty"
  "GetK8sAttrsForDestinationIP test_selects test_cluster ''4.3.2.1'' ''4.3.2.1'' = Map.empty"
  by (simp_all add: GetK8sAttrsForSourceIP_def GetK8sAttrsForDestinationIP_def getK8sAttrsForIp_def
      pod_attrs_def GetPodByIPAddr_def GetNodeForPod_def GetServiceForPod_def k8s_key_defs
      test_cluster_def NewCachedK8sClient_def stored_def podIndexers_def nodeIndexers_def
      serviceIndexers_def byIPIndex_def nodeByNameIndex_def test_pod_def test_service_def
      test_selects_def)

section \<open>The handlers\<close>

definition createTestHttpEvent :: "time \<Rightarrow> time \<Rightarrow> HttpEvent" where
  "createTestHttpEvent reqTs resTs = NewHttpEvent ''c->s:1->2'' 0 reqTs resTs 2 3 ''1.2.3.4'' ''5.6.7.8''
     (Some \<lparr>Method = ''GET'', RequestURI = ''/check?teapot=true'', req_ContentLength = 42,
        req_Header = Some [''User-Agent'' \<mapsto> [''teapot-checker/1.0''], ''Connection'' \<mapsto> [''keep-alive'']],
        req_Body = None\<rparr>)
     (Some \<lparr>StatusCode = 418, res_ContentLength = 84,
        res_Header = Some [''Content-Type'' \<mapsto> [''text/plain; charset=utf-8''],
                           ''X-Custom-Header'' \<mapsto> [''tea-party'']],
        res_Body = None\<rparr>)"

definition test_env :: handler_env where
  "test_env = \<lparr>map_runes = (\<lambda>s. s), ParseRequestURI = (\<lambda>_. Some ''/check''), time_String = (\<lambda>_. ''''),
     selector_matches = test_selects\<rparr>"

text \<open>One order of the maps of the tests: that of their names in a list per map.\<close>

fun test_names :: "nat \<Rightarrow> string list" where
  "test_names 0 = [''User-Agent'', ''Connection'']"
| "test_names (Suc 0) = [''http.request.header.user_agent'', ''http.request.header.connection'']"
| "test_names (Suc (Suc 0)) = [''Content-Type'', ''X-Custom-Header'']"
| "test_names (Suc (Suc (Suc 0))) =
     [''http.response.header.content_type'', ''http.response.header.x_custom_header'']"
| "test_names (Suc (Suc (Suc (Suc 0)))) =
     [''source.k8s.resource.type'', ''source.k8s.namespace.name'',
      ''source.k8s.pod.name'', ''source.k8s.pod.uid'']"
| "test_names _ =
     [''destination.k8s.resource.type'', ''destination.k8s.namespace.name'',
      ''destination.k8s.pod.name'', ''destination.k8s.pod.uid'']"

definition test_orders :: range_orders where
  "test_orders i S = filter (\<lambda>name. name \<in> S) (test_names i)"

lemma test_sanitized:
  "sanitize_key env True ''User-Agent'' = ''http.request.header.user_agent''"
  "sanitize_key env True ''Connection'' = ''http.request.header.connection''"
  "sanitize_key env False ''Content-Type'' = ''http.response.header.content_type''"
  "sanitize_key env False ''X-Custom-Header'' = ''http.response.header.x_custom_header''"
  by code_simp+

lemma TestHeaderToAttributes:
  "headerToAttributes test_env True
     (Some [''User-Agent'' \<mapsto> [''teapot-checker/1.0''], ''Connection'' \<mapsto> [''keep-alive'']])
     [''User-Agent'', ''Connection''] (test_orders 1) =
   [(''http.request.header.user_agent'', VString ''teapot-checker/1.0''),
    (''http.request.header.connection'', VString ''keep-alive'')]"
  "headerToAttributes test_env False
     (Some [''Content-Type'' \<mapsto> [''text/plain; charset=utf-8''], ''X-Custom-Header'' \<mapsto> [''tea-party'']])
     [''Content-Type'', ''X-Custom-Header''] (test_orders 3) =
   [(''http.response.header.content_type'', VString ''text/plain; charset=utf-8''),
    (''http.response.header.x_custom_header'', VString ''tea-party'')]"
  by (simp_all add: headerToAttributes_def sanitizeHeaders_def test_sanitized test_orders_def
      numeral_eq_Suc pairs_in_def)

text \<open>The test's event at either handler, whose clients know the two pods of its addresses.\<close>

definition handler_cluster :: CachedK8sClient where
  "handler_cluster = NewCachedK8sClient (stored [])
     (stored [\<lparr>pod_Name = ''src-pod'', pod_Namespace = ''unit-tests'', pod_UID = ''src-pod-uid'',
          pod_Labels = Map.empty, PodIP = ''1.2.3.4'', NodeName = '''', Containers = []\<rparr>,
        \<lparr>pod_Name = ''dest-pod'', pod_Namespace = ''unit-tests'', pod_UID = ''dest-pod-uid'',
          pod_Labels = Map.empty, PodIP = ''5.6.7.8'', NodeName = '''', Containers = []\<rparr>])
     (stored [])"

lemma handler_cluster_attrs:
  "GetK8sAttrsForSourceIP sel handler_cluster '''' ''1.2.3.4'' = [
     ''source.k8s.resource.type'' \<mapsto> ''pod'', ''source.k8s.pod.name'' \<mapsto> ''src-pod'',
     ''source.k8s.pod.uid'' \<mapsto> ''src-pod-uid'', ''source.k8s.namespace.name'' \<mapsto> ''unit-tests'']"
  "GetK8sAttrsForDestinationIP sel handler_cluster '''' ''5.6.7.8'' = [
     ''destination.k8s.resource.type'' \<mapsto> ''pod'', ''destination.k8s.pod.name'' \<mapsto> ''dest-pod'',
     ''destination.k8s.pod.uid'' \<mapsto> ''dest-pod-uid'',
     ''destination.k8s.namespace.name'' \<mapsto> ''unit-tests'']"
  by (simp_all add: GetK8sAttrsForSourceIP_def GetK8sAttrsForDestinationIP_def getK8sAttrsForIp_def
      pod_attrs_def GetPodByIPAddr_def GetNodeForPod_def GetServiceForPod_def k8s_key_defs
      handler_cluster_def NewCachedK8sClient_def stored_def podIndexers_def nodeIndexers_def
      serviceIndexers_def byIPIndex_def nodeByNameIndex_def)

definition test_config :: "bool \<Rightarrow> config" where
  "test_config url = (NewConfig Map.empty)\<lparr>IncludeRequestURL := url\<rparr>"

lemma test_config_simps [simp]:
  "IncludeRequestURL (test_config url) = url" "AgentPodIP (test_config url) = ''''"
  by (simp_all add: test_config_def NewConfig_def LookupEnvOrString_def os_getenv_def)

text \<open>
  The whole event of the libhoney handler, in the order of its calls; the test removes the three
  fields that depend on the clock, which are named here. Without the configuration's leave the
  path of the URL is missing from it and nothing else.
\<close>

definition test_handler :: "bool \<Rightarrow> libhoneyEventHandler" where
  "test_handler url = \<lparr>lh_config = test_config url, lh_k8sClient = handler_cluster\<rparr>"

lemma test_fields:
  assumes "h = createTestHttpEvent t u"
  shows "header_fields env True (req_Header (the (Request h)))
     (test_orders 0 (dom (header_map (req_Header (the (Request h)))))) (test_orders 1) =
   [(''http.request.header.user_agent'', VString ''teapot-checker/1.0''),
    (''http.request.header.connection'', VString ''keep-alive'')]"
  and "header_fields env False (res_Header (the (Response h)))
     (test_orders 2 (dom (header_map (res_Header (the (Response h)))))) (test_orders 3) =
   [(''http.response.header.content_type'', VString ''text/plain; charset=utf-8''),
    (''http.response.header.x_custom_header'', VString ''tea-party'')]"
  by (simp_all add: assms createTestHttpEvent_def NewHttpEvent_def Request_def Response_def
      header_fields_def sanitizeHeaders_def test_sanitized test_orders_def numeral_eq_Suc
      pairs_in_def)

lemma test_resources:
  "string_fields (GetK8sAttrsForSourceIP sel handler_cluster '''' ''1.2.3.4'')
     (test_orders 4 (dom (GetK8sAttrsForSourceIP sel handler_cluster '''' ''1.2.3.4''))) =
   [(''source.k8s.resource.type'', VString ''pod''),
    (''source.k8s.namespace.name'', VString ''unit-tests''),
    (''source.k8s.pod.name'', VString ''src-pod''),
    (''source.k8s.pod.uid'', VString ''src-pod-uid'')]"
  "string_fields (GetK8sAttrsForDestinationIP sel handler_cluster '''' ''5.6.7.8'')
     (test_orders 5 (dom (GetK8sAttrsForDestinationIP sel handler_cluster '''' ''5.6.7.8''))) =
   [(''destination.k8s.resource.type'', VString ''pod''),
    (''destination.k8s.namespace.name'', VString ''unit-tests''),
    (''destination.k8s.pod.name'', VString ''dest-pod''),
    (''destination.k8s.pod.uid'', VString ''dest-pod-uid'')]"
  by (simp_all add: handler_cluster_attrs string_fields_def pairs_in_def test_orders_def
      numeral_eq_Suc)

lemma test_times:
  "milliseconds (time_sub (t + 3 * millisecond) t) = 3"
  by (simp add: time_sub_def millisecond_def min_duration_def max_duration_def milliseconds_nonneg)

lemma Test_libhoneyEventHandler_handleEvent:
  assumes "t \<noteq> 0" and "t + 3 * millisecond \<noteq> 0"
  shows "added (handleEvent_libhoney test_env (test_handler url) now test_orders
      (EvHttp (createTestHttpEvent t (t + 3 * millisecond)))) =
    [(''meta.event_handled_at'', VTime (now 0)),
     (''http.request.timestamp'', VTime t),
     (''http.response.timestamp'', VTime (t + 3 * millisecond)),
     (''meta.request.capture_to_handle.latency_ms'', VInt (milliseconds (time_sub (now 1) t))),
     (''meta.response.capture_to_handle.latency_ms'',
        VInt (milliseconds (time_sub (now 2) (t + 3 * millisecond)))),
     (''duration_ms'', VInt 3),
     (''meta.stream.ident'', VString ''c->s:1->2''),
     (''meta.seqack'', VInt 0),
     (''meta.request.packet_count'', VInt 2),
     (''meta.response.packet_count'', VInt 3),
     (''client.socket.address'', VString ''1.2.3.4''),
     (''server.socket.address'', VString ''5.6.7.8''),
     (''name'', VString ''HTTP GET''),
     (''http.request.method'', VString ''GET''),
     (''user_agent.original'', VString ''teapot-checker/1.0''),
     (''http.request.body.size'', VInt 42)] @
    (if url then [(''url.path'', VString ''/check'')] else []) @
    [(''http.request.header.user_agent'', VString ''teapot-checker/1.0''),
     (''http.request.header.connection'', VString ''keep-alive''),
     (''http.response.status_code'', VInt 418),
     (''error'', VString ''HTTP client error''),
     (''http.response.body.size'', VInt 84),
     (''http.response.header.content_type'', VString ''text/plain; charset=utf-8''),
     (''http.response.header.x_custom_header'', VString ''tea-party''),
     (''source.k8s.resource.type'', VString ''pod''),
     (''source.k8s.namespace.name'', VString ''unit-tests''),
     (''source.k8s.pod.name'', VString ''src-pod''),
     (''source.k8s.pod.uid'', VString ''src-pod-uid''),
     (''destination.k8s.resource.type'', VString ''pod''),
     (''destination.k8s.namespace.name'', VString ''unit-tests''),
     (''destination.k8s.pod.name'', VString ''dest-pod''),
     (''destination.k8s.pod.uid'', VString ''dest-pod-uid'')]"
proof -
  let ?ev = "createTestHttpEvent t (t + 3 * millisecond)"
  have times: "added (setTimestampsAndDurationIfValid now NewEvent (EvHttp ?ev)) =
    [(''meta.event_handled_at'', VTime (now 0)),
     (''http.request.timestamp'', VTime t),
     (''http.response.timestamp'', VTime (t + 3 * millisecond)),
     (''meta.request.capture_to_handle.latency_ms'', VInt (milliseconds (time_sub (now 1) t))),
     (''meta.response.capture_to_handle.latency_ms'',
        VInt (milliseconds (time_sub (now 2) (t + 3 * millisecond)))),
     (''duration_ms'', VInt 3)]"
    using assms by (simp add: setTimestampsAndDurationIfValid_def createTestHttpEvent_def
        NewHttpEvent_def is_zero_def test_times Let_def)
  have ends: "SrcIp (EvHttp ?ev) = ''1.2.3.4''" "DstIp (EvHttp ?ev) = ''5.6.7.8''"
    by (simp_all add: createTestHttpEvent_def NewHttpEvent_def)
  show ?thesis
    using test_fields [OF refl, of test_env t "t + 3 * millisecond"] times
    by (simp add: handleEvent_libhoney_def Let_def ends test_resources test_handler_def
        addHttpFields_def add_request_fields_def add_response_fields_def header_get_def
        test_canonical test_env_def createTestHttpEvent_def NewHttpEvent_def Request_def Response_def)
qed

lemma Test_reportingTimesAndDurations:
  fixes t :: time
  assumes "t \<noteq> 0"
    and "report = (\<lambda>req res. setTimestampsAndDurationIfValid now NewEvent (EvHttp (createTestHttpEvent req res)))"
  shows "ev_timestamp (report 0 t) = Some t"
    and "value_of (added (report 0 t)) ''meta.timestamps_missing'' = Some (VString ''request'')"
    and "value_of (added (report 0 t)) ''duration_ms'' = None"
    and "ev_timestamp (report t 0) = Some t"
    and "value_of (added (report t 0)) ''meta.timestamps_missing'' = Some (VString ''response'')"
    and "value_of (added (report t 0)) ''duration_ms'' = None"
    and "ev_timestamp (report 0 0) = Some (now 1)"
    and "value_of (added (report 0 0)) ''meta.timestamps_missing'' = Some (VString ''request, response'')"
    and "value_of (added (report 0 0)) ''duration_ms'' = None"
  using assms(1)
  by (simp_all add: assms(2) setTimestampsAndDurationIfValid_def createTestHttpEvent_def
      NewHttpEvent_def is_zero_def Let_def value_of_Cons)

text \<open>The handler asks the propagator about the header of the event's request.\<close>

lemma Test_extractContextFromEvent:
  "getContextFromHTTPEvent (\<lambda>carrier. header_get (the carrier) ''Traceparent'')
     (createTestHttpEvent t u\<lparr>request := Some \<lparr>Method = ''GET'', RequestURI = ''/'', req_ContentLength = 0,
        req_Header = Some [''Traceparent'' \<mapsto> [''00-0af7651916cd43dd8448eb211c80319c-b7ad6b7169203331-01'']],
        req_Body = None\<rparr>\<rparr>) =
   ''00-0af7651916cd43dd8448eb211c80319c-b7ad6b7169203331-01''"
  by (simp add: getContextFromHTTPEvent_def Request_def header_get_def test_canonical)

lemma TestResolveHTTPAttributes_empty:
  assumes "request e = None" and "response e = None"
  shows "resolveHTTPAttributes env cfg ord e =
    [(''http.request.missing'', VString ''no request on this event''),
     (''http.response.missing'', VString ''no response on this event'')]"
  using assms by (simp add: resolveHTTPAttributes_def Request_def Response_def)

lemma TestResolveHTTPAttributes:
  "resolveHTTPAttributes test_env (test_config url) test_orders (createTestHttpEvent t u) =
    [(''http.request.method'', VString ''GET''),
     (''http.method'', VString ''GET''),
     (''http.request.body.size'', VInt 42),
     (''http.request_content_length'', VInt 42),
     (''http.request.header.user_agent'', VString ''teapot-checker/1.0''),
     (''http.request.header.connection'', VString ''keep-alive'')] @
    (if url then [(''url.path'', VString ''/check''), (''http.target'', VString ''/check'')] else []) @
    [(''http.response.status_code'', VInt 418),
     (''http.status_code'', VInt 418),
     (''http.response.body.size'', VInt 84),
     (''http.response_content_length'', VInt 84),
     (''http.response.header.content_type'', VString ''text/plain; charset=utf-8''),
     (''http.response.header.x_custom_header'', VString ''tea-party''),
     (''error'', VString ''HTTP client error'')]"
  using test_fields [OF refl, of test_env t u]
  by (simp add: resolveHTTPAttributes_def headerToAttributes_def header_fields_def [symmetric]
      createTestHttpEvent_def NewHttpEvent_def Request_def Response_def test_env_def)

end
