(* ===== verification/Spec2Isabelle.thy ===== *)
theory Spec2Isabelle
  imports Matcher_Lock Reporting Process_Stats Debug_Pages Unit_Tests
begin

text \<open>
  Verification of the Honeycomb Network Agent, a Go program that captures TCP traffic on a
  Kubernetes node, pairs HTTP requests with responses, and reports each pair as telemetry.

  The program. \<open>main.go\<close> reads the configuration (\<open>config/\<close>, \<open>utils/env.go\<close>), starts a debug
  service (\<open>debug/\<close>), a cache of Kubernetes objects (\<open>utils/cached_k8s_client.go\<close>), an event
  handler (\<open>handlers/\<close>) and the assembler (\<open>assemblers/\<close>). The assembler passes captured
  packets to gopacket's reassembler, which calls back on one stream object per connection; a
  stream gives its payloads to its parsers; the HTTP parser stores each message in a matcher
  under the TCP number a request shares with its response, and sends a completed match as an
  event on a channel; the handler turns events into libhoney events or OpenTelemetry spans.

  Theories, in the order of import.
  \<^item> Prelude: machine integers, panics, fact collections, lemmas on lists and maps.
  \<^item> Go_Std: the functions of Go's standard library that the program computes with.
  \<^item> Pcap_Filter: the part of the pcap filter language the capture filter is written in, with a
    parser of its text and its documented meaning on a TCP segment.
  \<^item> Env, Config: \<open>utils/env.go\<close> and \<open>config/config.go\<close>. The environment is a map; the text of the
    capture filter is read by the parser of Pcap_Filter, which gives it its meaning.
  \<^item> Events: \<open>assemblers/event.go\<close>, \<open>http_event.go\<close>; Stats: the counters.
  \<^item> Http_Matcher: \<open>http_matcher.go\<close>, its specification per key (\<open>pair_up\<close>), and the interface
    \<open>pairing_table\<close> in which the specification of whole histories is proved. Matcher_Lock: the
    same operations as steps of any number of goroutines.
  \<^item> Parser, Http_Parser: the parser interface \<open>message_parser\<close> and \<open>http_parser.go\<close>, which provides
    it; what a parser keeps in memory is the invariant \<open>parser_inv\<close>.
  \<^item> Tcp_Stream, Stream_History: \<open>tcp_stream.go\<close> and \<open>tcp_stream_factory.go\<close>, one callback at a time
    and over the life of a stream; the events of a stream are those of its matcher.
  \<^item> Telemetry: what is handed to the telemetry libraries. Tcp_Assembler: \<open>tcp_assembler.go\<close>.
  \<^item> Stream_Registry: all streams, as a step relation over the callbacks of the reassembler.
    Stream_Trace: the same with the list of callbacks; each stream of an interleaved run behaves
    as it does alone, and is silent once it is completed.
  \<^item> K8s_Client: \<open>cached_k8s_client.go\<close>, with the interface \<open>address_attributes\<close>. Its start waits for
    the caches; \<open>None\<close> is a wait that does not end, there and in the start of the agent.
  \<^item> Event_Handler, Libhoney_Handler, Otel_Handler, Handler_Agreement, Handlers: \<open>handlers/\<close>, with
    the interface \<open>event_handler\<close>, which both handlers provide, their comparison name by name, the
    construction, loop and closing of the selected one, and the types of what is reported.
  \<^item> Debug_Service, Debug_Pages: \<open>debug/debug_service.go\<close>, registration and addresses, routes and
    pages; \<open>http.ServeMux\<close> is modelled with its redirects. Events_Channel: the channel, interface
    \<open>bounded_fifo\<close>.
  \<^item> Agent, Shutdown, Shutdown_Termination: \<open>main.go\<close> and the goroutines; from which states the
    agent can exit, and a bound on its steps that only grows with the reassembler's callbacks.
  \<^item> Assembler_Loop: \<open>tcpAssembler.Start\<close> and \<open>Stop\<close> as a function over the cases of the select,
    which refines the runs of Stream_Trace; the exact cases in which it panics (\<open>fatal_packet\<close>).
  \<^item> Simulation: the interface \<open>step_refinement\<close> between two step relations. Process: the running
    process, in which the assembler's goroutine takes the loop of \<open>Start\<close> one case, one callback
    and one send at a time beside the other goroutines and the reader of libpcap's figures, and a
    panic ends everything; it refines Agent. Process_Loop: the state of its loop is computed by
    the function of Assembler_Loop, when it crashes, and what a crash or an exit leaves behind.
    Process_Stats: what the statistics events say of the process that sent them.
  \<^item> Fair_Shutdown, Delivery: infinite traces of the process under fairness; with a signal each
    comes to its end, and without one every event the loop sends is handled.
  \<^item> Reporting: the process with the handler's goroutine taken apart into receiving, handling and
    returning, and with what it has handed to the telemetry library. The reports are those the
    handler's \<open>Start\<close> computes; what is not reported yet is bounded; an exit leaves no call
    unfinished; under fairness every exchange is reported in the end.
  \<^item> Unit_Tests: the repository's unit tests as lemmas, each with the test's input and the result
    it expects; a check of the definitions against the code's authors.
  This theory joins the assembler's side and the handlers' side.

  Correspondence. A Go struct is a record with the same field names, an operation that mutates
  it a function that returns the new record, a method's receiver an argument. Pointers that may
  be nil are options. A panic, and a fatal log line, is the left side of a sum. What a function
  sends on the channel is a result; in Agent and Process it is sent event by event, and blocks. A
  panic of a goroutine, which Go does not recover, is the last step of a run of Process. The order
  in which Go ranges over a map is an argument, a list that enumerates the map, and the readings
  of the clock during a call are a function of their number. Log lines are left out.

  Arguments of the model, for code outside the repository: gopacket (connection state, options,
  checksum, layers, defragmentation, reassembly), libpcap, net/http's reading of messages,
  client-go's informers and label selectors, the two telemetry libraries, zerolog's names of
  levels, the Unicode case mapping, URL parsing, the escaping of templates, JSON encoding, and
  binding an address. Hypotheses about them: that a filter engine gives the texts of the filter
  language their documented meaning (\<open>filter_accepts_http_payloads\<close>), the meaning of an index query
  and of the synchronisation of the caches (\<open>informer_ok\<close>, \<open>sync_ok\<close>), that gopacket passes the
  loop's contexts on to its callbacks (\<open>own_contexts\<close>, \<open>own_label\<close>, for the panics only), and
  that an iteration visits each key once (\<open>orders_ok\<close>, \<open>enumerates\<close>). Nothing is assumed of
  gopacket's defragmentation and decoding. Fairness (\<open>fair_trace\<close>,
  \<open>fair_channel\<close>, \<open>fair_reporting\<close>) says of Go's scheduler that a goroutine that can go on does in the end, of its
  select that a case that is ready again and again is chosen, and of gopacket that a call which
  is not blocked in a send returns.

  Bounds. Sequence numbers, counters and lengths are words and wrap; stream identifiers are
  unique below \<open>2 ^ 64\<close> streams. No definition needs fuel: the loops run over lists, of inputs or
  of the cases a select chooses, and the goroutines are step relations. The shutdown needs at
  most eight steps more than the channel has places, and two more for each callback that is still
  made (\<open>shutdown_terminates\<close>).

  Not modelled: the profiling handlers of the debug service, which are the library's, and its
  read-write lock, as its methods are called before it serves; the exporter's network traffic and
  log output; the tickers as a cause of steps (a flush happens at any time, with any callbacks).
  One round of \<open>logPcapHandleStats\<close>, and the reads of the counters by \<open>logAssemblerStats\<close>, are
  single steps: those that another goroutine than the assembler's writes, the three of the packet
  source, are atomic words. How much of an incomplete stream is buffered is decided by gopacket, whose
  limits are options given to it; which payloads a stream is given is therefore arbitrary here.
\<close>

section \<open>From the wire to the telemetry\<close>

lemma finite_reduced: "reduced_header names h \<Longrightarrow> finite (dom (header_map h))"
  using finite_subset [of "dom (header_map h)" "canonical_key ` set names"]
  by (auto simp: reduced_header_def)

text \<open>The telemetry of a run, for either handler: one report for each event handled so far, in
  order, naming the event's stream and request; and the events handled are the first of those
  produced. Each event is handled with a clock, orders of Go's maps and a state of the
  Kubernetes cache of its own.\<close>

lemma telemetry_in_order:
  assumes "agent_reachable g lib cfg a"
  shows "prefix (handled_events a) (produced a) \<and>
    map (\<lambda>x. (report_value ''meta.stream.ident'' x, report_value ''meta.seqack'' x))
        (handle_all (handle_call env extract handler sur) 0 (handled_events a)) =
      map (\<lambda>ev. (Some (VString (StreamIdent ev)), Some (VInt (sint (RequestId ev)))))
        (handled_events a)"
proof -
  have "prefix (handled_events a) (produced a)"
    using agent_flow [OF assms] by (simp add: events_flow_def)
  with handler.handled_idents [OF http_events [OF assms]] show ?thesis by simp
qed

text \<open>C13: From the wire to the handler, stream by stream: the events of a live stream that were handled
  so far, for one request key, are the first of the pairs of messages parsed from the payloads
  of that stream, however the streams, the channel and the goroutines are interleaved, as long
  as fewer than \<open>2 ^ 64\<close> streams have been created.\<close>

theorem stream_events_handled:
  assumes "agent_reachable g lib cfg a" and "streams (reg a) c = Some st"
  shows "\<exists>cbs. registry_trace g lib cfg cbs (produced a) (reg a) \<and>
    (if created cbs < 2 ^ 64
     then prefix (filter (\<lambda>e. RequestId e = key) (filter (\<lambda>e. StreamIdent e = ident st) (handled_events a)))
       (map (\<lambda>e. EvHttp (match_event st key e))
         (pair_up (with_key key (payload_messages lib (newHttpParser (HTTPHeadersToExtract cfg))
            (payloads_to c cbs)))))
     else True)"
proof -
  obtain cbs where cbs: "registry_trace g lib cfg cbs (produced a) (reg a)"
    using agent_registry [OF assms(1)] run_trace by blast
  have "prefix (handled_events a) (produced a)"
    using agent_flow [OF assms(1)] by (simp add: events_flow_def)
  then obtain later where "produced a = handled_events a @ later" by (auto elim: prefixE)
  with streams_isolated [OF cbs _ assms(2), of key] have "created cbs < 2 ^ 64 \<Longrightarrow>
      prefix (filter (\<lambda>e. RequestId e = key) (filter (\<lambda>e. StreamIdent e = ident st) (handled_events a)))
       (map (\<lambda>e. EvHttp (match_event st key e))
         (pair_up (with_key key (payload_messages lib (newHttpParser (HTTPHeadersToExtract cfg))
            (payloads_to c cbs)))))"
    by (metis filter_append prefixI)
  with cbs show ?thesis by auto
qed

theorem stream_events_handled_witness:
  "\<exists>a st cbs. agent_reachable sample_gopacket sample_http (NewConfig Map.empty) a \<and>
     streams (reg a) 0 = Some st \<and>
     registry_trace sample_gopacket sample_http (NewConfig Map.empty) cbs (produced a) (reg a)"
proof -
  obtain a where a: "agent_steps sample_gopacket sample_http (init_agent (NewConfig Map.empty)) a" "ready a"
    using first_stream [of sample_gopacket sample_http "NewConfig Map.empty"] by blast
  then obtain st where "streams (reg a) 0 = Some st" by (auto simp: ready_def)
  with stream_events_handled [OF reachable_steps [OF a(1) agent_init] this]
    reachable_steps [OF a(1) agent_init] show ?thesis by blast
qed

text \<open>C15: A header kept from a captured request reaches the report of the libhoney handler: for every
  event the agent produces, each field of its request is reported under its sanitised name with
  its value, provided no two configured headers have one sanitised name.\<close>

theorem captured_headers_reported:
  assumes "agent_reachable g lib cfg a" and "EvHttp e \<in> set (produced a)"
    and "inj_on (sanitize_key env True) (canonical_key ` set (HTTPHeadersToExtract cfg))"
    and "orders_ok ord" and "request e = Some req" and "header_map (req_Header req) key = Some vs"
  shows "vs = [hd vs] \<and> key \<in> canonical_key ` set (HTTPHeadersToExtract cfg) \<and>
    value_of (added (handleEvent_libhoney env h now ord (EvHttp e))) (sanitize_key env True key) =
      Some (VString (hd vs))"
proof -
  obtain n where "registry_run g lib cfg n (produced a) (reg a)"
    using agent_registry [OF assms(1)] by blast
  from run_ok [OF this] assms(2,5) have red: "reduced_header (HTTPHeadersToExtract cfg) (req_Header req)"
    by (auto simp: registry_ok_def event_ok_def retained_request_def)
  then have sub: "dom (header_map (req_Header req)) \<subseteq> canonical_key ` set (HTTPHeadersToExtract cfg)"
    and one: "\<exists>v. vs = [v]" using assms(6) by (fastforce simp: reduced_header_def ran_def)+
  have "inj_on (sanitize_key env True) (dom (header_map (req_Header req)))"
    using assms(3) sub by (rule inj_on_subset)
  from libhoney_request_header [OF assms(4,5) finite_reduced [OF red] this assms(6)] one sub assms(6)
  show ?thesis by auto
qed

lemma sample_agent_request:
  "\<exists>a e req. agent_reachable sample_gopacket sample_http (NewConfig Map.empty) a \<and>
     EvHttp e \<in> set (produced a) \<and> request e = Some req \<and>
     header_map (req_Header req) ''User-Agent'' = Some [''curl'']"
proof -
  let ?cfg = "NewConfig Map.empty"
  let ?reach = "agent_reachable sample_gopacket sample_http ?cfg"
  obtain a where a: "agent_steps sample_gopacket sample_http (init_agent ?cfg) a" "ready a"
    using first_stream [of sample_gopacket sample_http ?cfg] by blast
  note reach = reachable_steps [OF a(1) agent_init]
  from produce_one [OF sample_reads a(2), of sample_gopacket] obtain b h st p
    where b: "agent_steps sample_gopacket sample_http a b" "pending b = [EvHttp h]"
      "streams (reg a) 0 = Some st" "parsers st = [p]"
      "request h = Some (clean_request p sample_request)" by blast
  have reach_b: "?reach b" using b(1) reach by (rule reachable_steps)
  with b(2) agent_flow [OF reach_b] have "EvHttp h \<in> set (produced b)"
    by (simp add: events_flow_def)
  moreover obtain n where "registry_run sample_gopacket sample_http ?cfg n (produced a) (reg a)"
    using agent_registry [OF reach] by blast
  then have "headersToExtract p = HTTPHeadersToExtract ?cfg"
    using run_ok b(3,4) by (fastforce simp: registry_ok_def stream_ok_def)
  then have "headersToExtract p = [''User-Agent'', ''Traceparent'']"
    by (simp add: NewConfig_def getHTTPHeadersToExtract_def LookupEnvAsStringSlice_def
        os_lookup_env_def defaultHeadersToExtract_def)
  moreover have "canonical_key ''User-Agent'' = ''User-Agent''" by code_simp
  ultimately show ?thesis
    using reach_b b(5)
    by (intro exI [of _ b] exI [of _ h] exI [of _ "clean_request p sample_request"])
       (simp add: clean_request_def sample_request_def extractHeaders_eq first_value_def)
qed

theorem captured_headers_reported_witness:
  "\<exists>a e. agent_reachable sample_gopacket sample_http (NewConfig Map.empty) a \<and>
     EvHttp e \<in> set (produced a) \<and>
     value_of (added (handleEvent_libhoney sample_env
         (\<lparr>lh_config = NewConfig Map.empty, lh_k8sClient = sample_client\<rparr>) (\<lambda>n. int n)
         sample_orders (EvHttp e)))
       (sanitize_key sample_env True ''User-Agent'') = Some (VString ''curl'')"
proof -
  let ?cfg = "NewConfig Map.empty"
  obtain a e req where a: "agent_reachable sample_gopacket sample_http ?cfg a"
    "EvHttp e \<in> set (produced a)" "request e = Some req"
    "header_map (req_Header req) ''User-Agent'' = Some [''curl'']"
    using sample_agent_request by blast
  have names: "HTTPHeadersToExtract ?cfg = [''User-Agent'', ''Traceparent'']"
    by (simp add: NewConfig_def getHTTPHeadersToExtract_def LookupEnvAsStringSlice_def
        os_lookup_env_def defaultHeadersToExtract_def)
  have "map canonical_key [''User-Agent'', ''Traceparent''] = [''User-Agent'', ''Traceparent'']"
    "distinct (map (sanitize_key sample_env True) [''User-Agent'', ''Traceparent''])" by code_simp+
  then have "inj_on (sanitize_key sample_env True) (canonical_key ` set (HTTPHeadersToExtract ?cfg))"
    unfolding names by (simp add: inj_on_def)
  from captured_headers_reported [OF a(1,2) this sample_orders_ok a(3,4)] a(1,2) show ?thesis
    by (intro exI [of _ a] exI [of _ e]) simp
qed

end
